(* ===== verification/Prelude.thy ===== *)
theory Prelude
  imports Main "HOL-Library.Word"
begin

text \<open>
  Shared vocabulary of the development: the machine integers of the C sources as
  fixed-width words, byte buffers as lists with an in-place \<open>memcpy\<close>, the fact
  collections the component proofs use, and the generic lemmas on lists and words.
  A C buffer is the list of its bytes.  \<open>put_bytes off bs buf\<close> is
  \<open>memcpy (buf + off, bs, sizeof bs)\<close> and \<open>get_bytes off n buf\<close> reads the \<open>n\<close> bytes
  at \<open>buf + off\<close>; both stay inside the buffer at every use, which the length lemmas
  of the components show.
\<close>

unbundle bit_operations_syntax

type_synonym u8 = "8 word"
type_synonym u32 = "32 word"
type_synonym u64 = "64 word"
type_synonym bytes = "u8 list"

named_theorems spx_param "values of the parameter-set constants"
named_theorems spx_len "lengths of the byte strings the operations return"

section \<open>Byte buffers\<close>

definition get_bytes :: "nat \<Rightarrow> nat \<Rightarrow> 'a list \<Rightarrow> 'a list" where
  "get_bytes off n buf = take n (drop off buf)"

definition put_bytes :: "nat \<Rightarrow> 'a list \<Rightarrow> 'a list \<Rightarrow> 'a list" where
  "put_bytes off bs buf = take off buf @ bs @ drop (off + length bs) buf"

lemma length_get_bytes [simp]: "off + n \<le> length buf \<Longrightarrow> length (get_bytes off n buf) = n"
  by (simp add: get_bytes_def)

lemma length_put_bytes [simp]:
  "off + length bs \<le> length buf \<Longrightarrow> length (put_bytes off bs buf) = length buf"
  by (simp add: put_bytes_def)

lemma get_put_same [simp]:
  "off \<le> length buf \<Longrightarrow> n = length bs \<Longrightarrow> get_bytes off n (put_bytes off bs buf) = bs"
  by (simp add: get_bytes_def put_bytes_def)

lemma nth_put_bytes:
  assumes "off + length bs \<le> length buf" "i < length buf"
  shows "put_bytes off bs buf ! i =
    (if off \<le> i \<and> i < off + length bs then bs ! (i - off) else buf ! i)"
  using assms by (auto simp: put_bytes_def nth_append not_less)

lemma put_put_same [simp]:
  assumes "off + length bs \<le> length buf" "length cs = length bs"
  shows "put_bytes off bs (put_bytes off cs buf) = put_bytes off bs buf"
  using assms by (simp add: put_bytes_def)

lemma put_put_swap:
  assumes "off1 + length bs \<le> off2" "off2 + length cs \<le> length buf"
  shows "put_bytes off2 cs (put_bytes off1 bs buf) = put_bytes off1 bs (put_bytes off2 cs buf)"
proof (rule nth_equalityI)
  show "length (put_bytes off2 cs (put_bytes off1 bs buf))
      = length (put_bytes off1 bs (put_bytes off2 cs buf))"
    using assms by simp
  fix i assume "i < length (put_bytes off2 cs (put_bytes off1 bs buf))"
  with assms show "put_bytes off2 cs (put_bytes off1 bs buf) ! i
      = put_bytes off1 bs (put_bytes off2 cs buf) ! i"
    by (auto simp: nth_put_bytes)
qed

lemma get_put_below:
  "off + n \<le> off2 \<Longrightarrow> off2 + length bs \<le> length buf \<Longrightarrow>
    get_bytes off n (put_bytes off2 bs buf) = get_bytes off n buf"
  by (rule nth_equalityI) (auto simp: get_bytes_def nth_put_bytes)

lemma get_put_above:
  "off2 + length bs \<le> off \<Longrightarrow> off + n \<le> length buf \<Longrightarrow>
    get_bytes off n (put_bytes off2 bs buf) = get_bytes off n buf"
  by (rule nth_equalityI) (auto simp: get_bytes_def nth_put_bytes)

lemmas get_put_other = get_put_below get_put_above

lemma put_bytes_all [simp]: "length bs = length buf \<Longrightarrow> put_bytes 0 bs buf = bs"
  by (simp add: put_bytes_def)

lemma put_bytes_Nil [simp]: "put_bytes off [] buf = buf"
  by (simp add: put_bytes_def)

lemma get_bytes_all [simp]: "n = length buf \<Longrightarrow> get_bytes 0 n buf = buf"
  by (simp add: get_bytes_def)

lemma put_bytes_append:
  "length bs = length xs \<Longrightarrow> put_bytes 0 bs (xs @ ys) = bs @ ys"
  by (simp add: put_bytes_def)

lemma get_bytes_append1: "off + n \<le> length xs \<Longrightarrow> get_bytes off n (xs @ ys) = get_bytes off n xs"
  by (simp add: get_bytes_def)

lemma get_bytes_append2:
  "length xs \<le> off \<Longrightarrow> get_bytes off n (xs @ ys) = get_bytes (off - length xs) n ys"
  by (simp add: get_bytes_def)

lemma take_put_bytes: "off \<le> length buf \<Longrightarrow> take off (put_bytes off bs buf) = take off buf"
  by (simp add: put_bytes_def)

text \<open>A buffer is the concatenation of its equal-sized pieces.\<close>

lemma concat_pieces_take: "concat (map (\<lambda>i. get_bytes (k * i) k x) [0..<n]) = take (k * n) x"
  by (induction n) (simp_all add: get_bytes_def take_add add.commute [of k])

lemma concat_pieces: "length x = k * n \<Longrightarrow> concat (map (\<lambda>i. get_bytes (k * i) k x) [0..<n]) = x"
  by (simp add: concat_pieces_take)

lemma length_concat_const:
  "(\<And>x. x \<in> set xs \<Longrightarrow> length (f x) = k) \<Longrightarrow> length (concat (map f xs)) = k * length xs"
  by (induction xs) simp_all

lemma get_bytes_concat_map:
  assumes "\<And>i. i < n \<Longrightarrow> length (f i) = k" "j < n"
  shows "get_bytes (k * j) k (concat (map f [0..<n])) = f j"
proof -
  have split: "[0..<n] = [0..<j] @ j # [Suc j..<n]"
    using assms(2) by (metis add_0 less_imp_add_positive upt_add_eq_append upt_conv_Cons zero_le less_or_eq_imp_le)
  have "length (concat (map f [0..<j])) = k * j"
    using assms by (subst length_concat_const [where k = k]) auto
  then show ?thesis
    using assms by (simp add: split get_bytes_def)
qed

lemma get_put_piece:
  assumes "length b = k" "i < n" "j < n" "length buf = k * n"
  shows "get_bytes (k * i) k (put_bytes (k * j) b buf) = (if i = j then b else get_bytes (k * i) k buf)"
proof -
  have step: "k * x + k \<le> k * y" if "x < y" for x y
    using mult_le_mono2 [of "Suc x" y k] that by simp
  consider "i = j" | "i < j" | "j < i" by linarith
  then show ?thesis
    by cases (use assms step [of i j] step [of j i] step [of i n] step [of j n]
        in \<open>simp_all add: get_put_below get_put_above\<close>)
qed

lemma length_put_piece:
  assumes "length b = k" "j < n" "length buf = k * n"
  shows "length (put_bytes (k * j) b buf) = k * n"
  using mult_le_mono2 [of "Suc j" n k] assms by simp

section \<open>Words and natural numbers\<close>

lemma unat_of_nat_small: "n < 2 ^ LENGTH('a) \<Longrightarrow> unat (of_nat n :: 'a::len word) = n"
  by (simp add: unat_of_nat take_bit_nat_eq_self)

lemma unat_drop_bit: "unat (drop_bit n x) = unat x div 2 ^ n" for x :: "'a::len word"
  by (simp only: unat_drop_bit_eq) (simp add: drop_bit_eq_div)

lemma word_and_1_eq_0: "x AND 1 = 0 \<longleftrightarrow> even (unat x)" for x :: "'a::len word"
proof -
  have "odd (unat x) \<longleftrightarrow> odd x"
    by (metis bit_0 bit_unsigned_iff len_gt_0 possible_bit_0)
  then show ?thesis
    by (simp add: and_one_eq mod_2_eq_odd)
qed

lemma word_xor_eq_0: "a XOR b = 0 \<longleftrightarrow> a = b" for a b :: "'a::len word"
proof
  assume "a XOR b = 0"
  then have "(a XOR b) XOR b = 0 XOR b" by simp
  then show "a = b" by (simp add: xor.assoc)
qed simp

lemma word_eq_unatI: "unat x = unat y \<Longrightarrow> x = y" for x y :: "'a::len word"
  by (simp add: word_unat_eq_iff)

lemma unat_plus_one: "i < n \<Longrightarrow> unat (i + 1) = Suc (unat i)" for i n :: "'a::len word"
proof -
  assume "i < n"
  moreover have "unat n < 2 ^ LENGTH('a)" by (rule unsigned_less)
  ultimately have "unat i + 1 < 2 ^ LENGTH('a)"
    unfolding word_less_nat_alt by linarith
  then show ?thesis by (simp add: unat_word_ariths take_bit_nat_eq_self)
qed

text \<open>The two ways a word counter makes a loop end: counting up below a bound, and counting to a
  value it has not reached yet.\<close>

lemma word_count_up: "i < n \<Longrightarrow> unat n - unat (i + 1) < unat n - unat i" for i n :: "'a::len word"
  by (simp add: unat_plus_one word_less_nat_alt)

lemma word_count_to: "h \<noteq> t \<Longrightarrow> unat (t - (h + 1)) < unat (t - h)" for h t :: "'a::len word"
proof -
  assume "h \<noteq> t"
  then have "t - h \<noteq> 0" by simp
  then have "unat (t - h - 1) = unat (t - h) - 1" "0 < unat (t - h)"
    by (simp_all add: unat_minus_one unat_gt_0)
  moreover have "t - (h + 1) = t - h - 1" by simp
  ultimately show ?thesis by (metis One_nat_def diff_Suc_less)
qed

section \<open>Incrementing a binary counter\<close>

text \<open>\<open>2 ^ h dvd Suc k\<close> says that the low \<open>h\<close> bits of \<open>k\<close> are ones, i.e. that incrementing \<open>k\<close>
  carries through them.\<close>

lemma div_Suc_ndvd: "\<not> d dvd Suc k \<Longrightarrow> Suc k div d = k div d"
  by (simp add: div_Suc dvd_eq_mod_eq_0)

lemma Suc_div_dvd: "d dvd Suc k \<Longrightarrow> Suc k div d = Suc (k div d)"
  by (simp add: div_Suc dvd_eq_mod_eq_0)

lemma div_of_Suc_mult: "Suc k = d * m \<Longrightarrow> k div d = m - 1"
  using Suc_div_dvd [of d k] by (cases "d = 0") auto

lemma ones_step:
  assumes "2 ^ h dvd Suc k" "odd (k div 2 ^ h)"
  shows "2 ^ Suc h dvd Suc k"
proof -
  obtain m where m: "Suc k = 2 ^ h * m" using assms(1) by blast
  then have "m > 0" by (cases m) auto
  have "k div 2 ^ h = m - 1" using m by (rule div_of_Suc_mult)
  then have "even m" using assms(2) \<open>m > 0\<close> by (cases m) auto
  then show ?thesis unfolding m by (auto elim!: evenE)
qed

lemma zero_bit_ndvd:
  assumes "even (k div 2 ^ h)" "h < j"
  shows "\<not> (2::nat) ^ j dvd Suc k"
proof
  assume "2 ^ j dvd Suc k"
  then have "(2::nat) ^ Suc h dvd Suc k"
    using assms(2) by (metis Suc_leI dvd_trans le_imp_power_dvd)
  then obtain m where m: "Suc k = 2 ^ h * (2 * m)" by (auto simp: ac_simps)
  then have "m > 0" by (cases m) auto
  have "k div 2 ^ h = 2 * m - 1" using m by (rule div_of_Suc_mult)
  then show False using assms(1) \<open>m > 0\<close> by (cases m) auto
qed

lemma bits_Suc:
  assumes "2 ^ j dvd Suc k" "even (k div 2 ^ j)"
  shows "odd (Suc k div 2 ^ h) \<Longrightarrow> h = j \<or> (j < h \<and> Suc k div 2 ^ h = k div 2 ^ h)"
proof -
  assume odd: "odd (Suc k div 2 ^ h)"
  consider "h < j" | "h = j" | "j < h" by linarith
  then show ?thesis
  proof cases
    case 1
    then have "2 ^ Suc h dvd Suc k"
      using assms(1) by (metis Suc_leI dvd_trans le_imp_power_dvd)
    then obtain m where "Suc k = 2 ^ h * (2 * m)" by (auto simp: ac_simps)
    then have "Suc k div 2 ^ h = 2 * m" by simp
    with odd show ?thesis by simp
  next
    case 3
    then show ?thesis using zero_bit_ndvd [OF assms(2)] by (simp add: div_Suc_ndvd)
  qed simp
qed
section \<open>First hits\<close>

lemma ex_first_iff:
  fixes k :: "'a::linorder"
  assumes "k < m" "P k" "\<And>j. j < k \<Longrightarrow> \<not> P j"
  shows "(\<exists>x<m. P x \<and> (\<forall>j<x. \<not> P j) \<and> Q x) \<longleftrightarrow> Q k"
  using assms by (metis linorder_neqE)

end
