(* ===== verification/Spx_Params.thy ===== *)
theory Spx_Params
  imports Prelude
begin

text \<open>
  The bounded30 parameter set: \<open>sphincsplus/ref/params/params-sphincs-sha2-128s-bounded30.h\<close>,
  the address offsets of \<open>sha2_offsets.h\<close>, the SHA-2 sizes of \<open>sha2.h\<close> and the public sizes
  of \<open>include/libbitcoinpqc/slh_dsa.h\<close>.  Every derived constant keeps the header's formula.
\<close>

section \<open>Parameter set\<close>

definition SPX_N :: nat where [simp, spx_param]: "SPX_N = 16"
definition SPX_FULL_HEIGHT :: nat where [simp, spx_param]: "SPX_FULL_HEIGHT = 30"
definition SPX_D :: nat where [simp, spx_param]: "SPX_D = 5"
definition SPX_FORS_HEIGHT :: nat where [simp, spx_param]: "SPX_FORS_HEIGHT = 16"
definition SPX_FORS_TREES :: nat where [simp, spx_param]: "SPX_FORS_TREES = 8"
definition SPX_WOTS_W :: nat where [simp, spx_param]: "SPX_WOTS_W = 256"
definition SPX_ADDR_BYTES :: nat where [simp, spx_param]: "SPX_ADDR_BYTES = 32"
definition SPX_WOTS_LOGW :: nat where [simp, spx_param]: "SPX_WOTS_LOGW = 8"
definition SPX_WOTS_LEN1 :: nat where
  [simp, spx_param]: "SPX_WOTS_LEN1 = 8 * SPX_N div SPX_WOTS_LOGW"
definition SPX_WOTS_LEN2 :: nat where [simp, spx_param]: "SPX_WOTS_LEN2 = 2"
definition SPX_WOTSC_TARGET :: nat where
  [simp, spx_param]: "SPX_WOTSC_TARGET = ((SPX_WOTS_W - 1) * SPX_WOTS_LEN1) div 2"
definition SPX_WOTS_LEN :: nat where [simp, spx_param]: "SPX_WOTS_LEN = SPX_WOTS_LEN1"
definition SPX_WOTS_BYTES :: nat where [simp, spx_param]: "SPX_WOTS_BYTES = SPX_WOTS_LEN * SPX_N"
definition SPX_WOTS_PK_BYTES :: nat where [simp, spx_param]: "SPX_WOTS_PK_BYTES = SPX_WOTS_BYTES"
definition SPX_TREE_HEIGHT :: nat where
  [simp, spx_param]: "SPX_TREE_HEIGHT = SPX_FULL_HEIGHT div SPX_D"
definition SPX_FORS_MSG_BYTES :: nat where
  [simp, spx_param]: "SPX_FORS_MSG_BYTES = (SPX_FORS_HEIGHT * SPX_FORS_TREES + 7) div 8"
definition SPX_FORS_SIG_TREES :: nat where
  [simp, spx_param]: "SPX_FORS_SIG_TREES = SPX_FORS_TREES - 1"
definition SPX_FORS_BYTES :: nat where
  [simp, spx_param]: "SPX_FORS_BYTES = (SPX_FORS_HEIGHT + 1) * SPX_FORS_SIG_TREES * SPX_N"
definition SPX_BYTES :: nat where
  [simp, spx_param]: "SPX_BYTES = SPX_N + SPX_FORS_BYTES + SPX_D * SPX_WOTS_BYTES + SPX_FULL_HEIGHT * SPX_N"
definition SPX_PK_BYTES :: nat where [simp, spx_param]: "SPX_PK_BYTES = 2 * SPX_N"
definition SPX_SK_BYTES :: nat where [simp, spx_param]: "SPX_SK_BYTES = 2 * SPX_N + SPX_PK_BYTES"

section \<open>Sizes of the signature API\<close>

definition CRYPTO_SECRETKEYBYTES :: nat where [simp, spx_param]: "CRYPTO_SECRETKEYBYTES = SPX_SK_BYTES"
definition CRYPTO_PUBLICKEYBYTES :: nat where [simp, spx_param]: "CRYPTO_PUBLICKEYBYTES = SPX_PK_BYTES"
definition CRYPTO_BYTES :: nat where [simp, spx_param]: "CRYPTO_BYTES = SPX_BYTES"
definition CRYPTO_SEEDBYTES :: nat where [simp, spx_param]: "CRYPTO_SEEDBYTES = 3 * SPX_N"

definition SLH_DSA_PUBLIC_KEY_SIZE :: nat where [simp, spx_param]: "SLH_DSA_PUBLIC_KEY_SIZE = 32"
definition SLH_DSA_SECRET_KEY_SIZE :: nat where [simp, spx_param]: "SLH_DSA_SECRET_KEY_SIZE = 64"
definition SLH_DSA_SIGNATURE_SIZE :: nat where [simp, spx_param]: "SLH_DSA_SIGNATURE_SIZE = 3680"
definition SLH_DSA_KEYGEN_RANDOM_DATA_MIN_SIZE :: nat where
  [simp, spx_param]: "SLH_DSA_KEYGEN_RANDOM_DATA_MIN_SIZE = 128"

section \<open>Address offsets and types\<close>

definition SPX_OFFSET_LAYER :: nat where [simp, spx_param]: "SPX_OFFSET_LAYER = 0"
definition SPX_OFFSET_TREE :: nat where [simp, spx_param]: "SPX_OFFSET_TREE = 1"
definition SPX_OFFSET_TYPE :: nat where [simp, spx_param]: "SPX_OFFSET_TYPE = 9"
definition SPX_OFFSET_KP_ADDR :: nat where [simp, spx_param]: "SPX_OFFSET_KP_ADDR = 10"
definition SPX_OFFSET_CHAIN_ADDR :: nat where [simp, spx_param]: "SPX_OFFSET_CHAIN_ADDR = 17"
definition SPX_OFFSET_HASH_ADDR :: nat where [simp, spx_param]: "SPX_OFFSET_HASH_ADDR = 21"
definition SPX_OFFSET_TREE_HGT :: nat where [simp, spx_param]: "SPX_OFFSET_TREE_HGT = 17"
definition SPX_OFFSET_TREE_INDEX :: nat where [simp, spx_param]: "SPX_OFFSET_TREE_INDEX = 18"

definition SPX_ADDR_TYPE_WOTS :: u32 where [simp, spx_param]: "SPX_ADDR_TYPE_WOTS = 0"
definition SPX_ADDR_TYPE_WOTSPK :: u32 where [simp, spx_param]: "SPX_ADDR_TYPE_WOTSPK = 1"
definition SPX_ADDR_TYPE_HASHTREE :: u32 where [simp, spx_param]: "SPX_ADDR_TYPE_HASHTREE = 2"
definition SPX_ADDR_TYPE_FORSTREE :: u32 where [simp, spx_param]: "SPX_ADDR_TYPE_FORSTREE = 3"
definition SPX_ADDR_TYPE_FORSPK :: u32 where [simp, spx_param]: "SPX_ADDR_TYPE_FORSPK = 4"
definition SPX_ADDR_TYPE_WOTSPRF :: u32 where [simp, spx_param]: "SPX_ADDR_TYPE_WOTSPRF = 5"
definition SPX_ADDR_TYPE_FORSPRF :: u32 where [simp, spx_param]: "SPX_ADDR_TYPE_FORSPRF = 6"

section \<open>SHA-2 sizes\<close>

definition SPX_SHA256_BLOCK_BYTES :: nat where [simp, spx_param]: "SPX_SHA256_BLOCK_BYTES = 64"
definition SPX_SHA256_OUTPUT_BYTES :: nat where [simp, spx_param]: "SPX_SHA256_OUTPUT_BYTES = 32"
definition SPX_SHA512_BLOCK_BYTES :: nat where [simp, spx_param]: "SPX_SHA512_BLOCK_BYTES = 128"
definition SPX_SHA512_OUTPUT_BYTES :: nat where [simp, spx_param]: "SPX_SHA512_OUTPUT_BYTES = 64"
definition SPX_SHA256_ADDR_BYTES :: nat where [simp, spx_param]: "SPX_SHA256_ADDR_BYTES = 22"

text \<open>Index splitting of \<open>hash_message\<close> in \<open>sphincsplus/ref/hash_sha2.c\<close>.\<close>

definition SPX_TREE_BITS :: nat where [simp, spx_param]: "SPX_TREE_BITS = SPX_TREE_HEIGHT * (SPX_D - 1)"
definition SPX_TREE_BYTES :: nat where [simp, spx_param]: "SPX_TREE_BYTES = (SPX_TREE_BITS + 7) div 8"
definition SPX_LEAF_BITS :: nat where [simp, spx_param]: "SPX_LEAF_BITS = SPX_TREE_HEIGHT"
definition SPX_LEAF_BYTES :: nat where [simp, spx_param]: "SPX_LEAF_BYTES = (SPX_LEAF_BITS + 7) div 8"
definition SPX_DGST_BYTES :: nat where
  [simp, spx_param]: "SPX_DGST_BYTES = SPX_FORS_MSG_BYTES + SPX_TREE_BYTES + SPX_LEAF_BYTES"

text \<open>The leaf index that means "do not sign" (\<open>((uint32_t)~0u)\<close> in \<open>wots.h\<close>).\<close>

definition SPX_NO_SIGN_LEAF :: u32 where [spx_param]: "SPX_NO_SIGN_LEAF = NOT 0"

end
