(* ===== verification/Utils_Bytes.thy ===== *)
theory Utils_Bytes
  imports Spx_Params
begin

text \<open>
  Integer/byte conversions: \<open>ull_to_bytes\<close>, \<open>u32_to_bytes\<close>, \<open>bytes_to_ull\<close> of
  \<open>sphincsplus/ref/utils.c\<close>, the big-endian loads and stores of \<open>sphincsplus/ref/sha2.c\<close>
  and \<open>store_u64_le\<close> of \<open>src/slh_dsa/keygen.c\<close>, with their bit-level meaning and round trips.
\<close>

section \<open>Operations\<close>

text \<open>The loop of \<open>ull_to_bytes\<close> runs from \<open>i = outlen - 1\<close> down to 0.\<close>

primrec ull_to_bytes_loop :: "nat \<Rightarrow> u64 \<Rightarrow> bytes \<Rightarrow> bytes" where
  "ull_to_bytes_loop 0 v out = out"
| "ull_to_bytes_loop (Suc i) v out =
     ull_to_bytes_loop i (drop_bit 8 v) (out[i := ucast (v AND 0xff)])"

definition ull_to_bytes :: "bytes \<Rightarrow> nat \<Rightarrow> u64 \<Rightarrow> bytes" where
  "ull_to_bytes out outlen v = ull_to_bytes_loop outlen v out"

definition u32_to_bytes :: "u32 \<Rightarrow> bytes" where
  "u32_to_bytes v =
     [ucast (drop_bit 24 v), ucast (drop_bit 16 v), ucast (drop_bit 8 v), ucast v]"

definition bytes_to_ull :: "bytes \<Rightarrow> nat \<Rightarrow> u64" where
  "bytes_to_ull inp inlen =
     foldl (\<lambda>retval i. retval OR push_bit (8 * (inlen - 1 - i)) (ucast (inp ! i))) 0 [0..<inlen]"

definition load_bigendian_32 :: "bytes \<Rightarrow> u32" where
  "load_bigendian_32 x =
     ucast (x ! 3) OR push_bit 8 (ucast (x ! 2)) OR
     push_bit 16 (ucast (x ! 1)) OR push_bit 24 (ucast (x ! 0))"

definition load_bigendian_64 :: "bytes \<Rightarrow> u64" where
  "load_bigendian_64 x =
     ucast (x ! 7) OR push_bit 8 (ucast (x ! 6)) OR
     push_bit 16 (ucast (x ! 5)) OR push_bit 24 (ucast (x ! 4)) OR
     push_bit 32 (ucast (x ! 3)) OR push_bit 40 (ucast (x ! 2)) OR
     push_bit 48 (ucast (x ! 1)) OR push_bit 56 (ucast (x ! 0))"

text \<open>\<open>store_bigendian_32\<close> takes a \<open>uint64_t\<close> and keeps its low four bytes.\<close>

definition store_bigendian_32 :: "u64 \<Rightarrow> bytes" where
  "store_bigendian_32 u =
     [ucast (drop_bit 8 (drop_bit 8 (drop_bit 8 u))), ucast (drop_bit 8 (drop_bit 8 u)),
      ucast (drop_bit 8 u), ucast u]"

definition store_bigendian_64 :: "u64 \<Rightarrow> bytes" where
  "store_bigendian_64 u =
     (let u1 = drop_bit 8 u; u2 = drop_bit 8 u1; u3 = drop_bit 8 u2; u4 = drop_bit 8 u3;
          u5 = drop_bit 8 u4; u6 = drop_bit 8 u5; u7 = drop_bit 8 u6
      in [ucast u7, ucast u6, ucast u5, ucast u4, ucast u3, ucast u2, ucast u1, ucast u])"

definition store_u64_le :: "u64 \<Rightarrow> bytes" where
  "store_u64_le value = map (\<lambda>i. ucast (drop_bit (8 * i) value)) [0..<8]"

section \<open>Meaning\<close>

text \<open>\<open>be_bytes n v\<close>: the \<open>n\<close> low bytes of \<open>v\<close>, most significant first.\<close>

definition be_bytes :: "nat \<Rightarrow> u64 \<Rightarrow> bytes" where
  "be_bytes n v = map (\<lambda>i. ucast (drop_bit (8 * (n - 1 - i)) v)) [0..<n]"

lemma length_be_bytes [simp]: "length (be_bytes n v) = n"
  by (simp add: be_bytes_def)

lemma nth_be_bytes: "i < n \<Longrightarrow> be_bytes n v ! i = ucast (drop_bit (8 * (n - 1 - i)) v)"
  by (simp add: be_bytes_def)

lemma ucast_and_ff: "(ucast (v AND 0xff) :: u8) = ucast v" for v :: u64
proof -
  have "v AND 0xff = take_bit 8 v" by (simp add: take_bit_eq_mask mask_eq_exp_minus_1)
  then show ?thesis by (auto simp: bit_simps intro!: bit_word_eqI)
qed

lemma length_ull_to_bytes_loop [simp]: "length (ull_to_bytes_loop n v out) = length out"
  by (induction n arbitrary: v out) simp_all

lemma nth_ull_to_bytes_loop:
  "n \<le> length out \<Longrightarrow> i < length out \<Longrightarrow> ull_to_bytes_loop n v out ! i =
    (if i < n then ucast (drop_bit (8 * (n - 1 - i)) v) else out ! i)"
proof (induction n arbitrary: v out)
  case 0
  then show ?case by simp
next
  case (Suc n)
  have "8 * (n - 1 - i) + 8 = 8 * (Suc n - 1 - i)" if "i < n" using that by simp
  with Suc show ?case
    by (auto simp: drop_bit_drop_bit nth_list_update ucast_and_ff)
qed

lemma ull_to_bytes_be: "length out = n \<Longrightarrow> ull_to_bytes out n v = be_bytes n v"
  by (rule nth_equalityI) (simp_all add: ull_to_bytes_def nth_ull_to_bytes_loop nth_be_bytes)

lemma length_ull_to_bytes [simp]: "length (ull_to_bytes out n v) = length out"
  by (simp add: ull_to_bytes_def)

lemma length_u32_to_bytes [simp]: "length (u32_to_bytes v) = 4"
  by (simp add: u32_to_bytes_def)

lemma length_store_bigendian_32 [simp]: "length (store_bigendian_32 v) = 4"
  by (simp add: store_bigendian_32_def)

lemma length_store_bigendian_64 [simp]: "length (store_bigendian_64 v) = 8"
  by (simp add: store_bigendian_64_def Let_def)

lemma length_store_u64_le [simp]: "length (store_u64_le v) = 8"
  by (simp add: store_u64_le_def)

text \<open>Reading back: each bit of the result is one bit of one input byte.\<close>

lemma bit_foldl_or:
  "bit (foldl (\<lambda>r i. r OR f i) a xs) k \<longleftrightarrow> bit a k \<or> (\<exists>i\<in>set xs. bit (f i) k)"
  for a :: "'a::len word"
  by (induction xs arbitrary: a) (auto simp: bit_simps)

lemma bit_bytes_to_ull:
  assumes "n \<le> 8"
  shows "bit (bytes_to_ull inp n) k \<longleftrightarrow> k < 8 * n \<and> bit (inp ! (n - 1 - k div 8)) (k mod 8)"
proof -
  have "bit (push_bit (8 * (n - 1 - i)) (ucast (inp ! i)) :: u64) k \<longleftrightarrow>
      8 * (n - 1 - i) \<le> k \<and> k < 64 \<and> k - 8 * (n - 1 - i) < 8 \<and> bit (inp ! i) (k - 8 * (n - 1 - i))" for i
    using bit_imp_le_length [of "inp ! i"] by (auto simp: bit_simps)
  then have "bit (bytes_to_ull inp n) k \<longleftrightarrow>
      (\<exists>i<n. 8 * (n - 1 - i) \<le> k \<and> k < 64 \<and> k - 8 * (n - 1 - i) < 8 \<and> bit (inp ! i) (k - 8 * (n - 1 - i)))"
    by (simp add: bytes_to_ull_def bit_foldl_or Bex_def)
  also have "\<dots> \<longleftrightarrow> k < 8 * n \<and> bit (inp ! (n - 1 - k div 8)) (k mod 8)"
  proof (intro iffI; elim exE conjE)
    fix i assume i: "i < n" "8 * (n - 1 - i) \<le> k" "k - 8 * (n - 1 - i) < 8"
      "bit (inp ! i) (k - 8 * (n - 1 - i))"
    define q where "q = n - 1 - i"
    define r where "r = k - 8 * q"
    have k: "k = 8 * q + r" "r < 8" and q: "n - 1 - q = i" "q < n"
      using i by (simp_all add: q_def r_def)
    from k have "k div 8 = q" "k mod 8 = r" by simp_all
    moreover from k q have "k < 8 * n" by linarith
    ultimately show "k < 8 * n \<and> bit (inp ! (n - 1 - k div 8)) (k mod 8)"
      using i(4) q(1) by (simp add: r_def q_def)
  next
    assume k: "k < 8 * n" "bit (inp ! (n - 1 - k div 8)) (k mod 8)"
    let ?i = "n - 1 - k div 8"
    from k(1) have "k div 8 < n" by (simp add: less_mult_imp_div_less mult.commute)
    then have i: "n - 1 - ?i = k div 8" "?i < n" by simp_all
    have "8 * (k div 8) \<le> k" "k - 8 * (k div 8) = k mod 8" "k mod 8 < 8"
      by (simp_all add: minus_mult_div_eq_mod)
    moreover from \<open>n \<le> 8\<close> k(1) have "k < 64" by simp
    ultimately show "\<exists>i<n. 8 * (n - 1 - i) \<le> k \<and> k < 64 \<and> k - 8 * (n - 1 - i) < 8
        \<and> bit (inp ! i) (k - 8 * (n - 1 - i))"
      using k(2) i(2) by (intro exI [of _ ?i]) (simp only: i(1))
  qed
  finally show ?thesis .
qed

lemma bytes_to_ull_be_bytes:
  assumes "n \<le> 8"
  shows "bytes_to_ull (be_bytes n v) n = take_bit (8 * n) v"
proof (rule bit_word_eqI)
  fix k assume "k < LENGTH(64)"
  have "8 * (n - 1 - (n - 1 - k div 8)) + k mod 8 = k" if "k < 8 * n"
  proof -
    from that have "k div 8 < n" by (simp add: less_mult_imp_div_less mult.commute)
    then show ?thesis by simp
  qed
  moreover have "n - 1 - k div 8 < n" if "k < 8 * n" using that by (cases n) simp_all
  ultimately show "bit (bytes_to_ull (be_bytes n v) n) k \<longleftrightarrow> bit (take_bit (8 * n) v) k"
    using assms \<open>k < LENGTH(64)\<close>
    by (auto simp: bit_bytes_to_ull nth_be_bytes bit_simps)
qed

lemma upt_4: "[0..<4] = [0, 1, 2, 3]"
  by code_simp

lemma upt_8: "[0..<8] = [0, 1, 2, 3, 4, 5, 6, 7]"
  by code_simp

lemma store_bigendian_64_be: "store_bigendian_64 v = be_bytes 8 v"
  by (simp add: store_bigendian_64_def be_bytes_def Let_def drop_bit_drop_bit upt_rec)

lemma u32_to_bytes_be: "u32_to_bytes v = be_bytes 4 (ucast v)"
  by (auto simp: u32_to_bytes_def be_bytes_def upt_rec bit_simps intro!: bit_word_eqI)

lemma store_bigendian_32_u32: "store_bigendian_32 (ucast v) = u32_to_bytes v" for v :: u32
  by (auto simp: u32_to_bytes_def store_bigendian_32_def drop_bit_drop_bit bit_simps
      intro!: bit_word_eqI)

lemma load_bigendian_64_ull: "load_bigendian_64 x = bytes_to_ull x 8"
  by (simp add: load_bigendian_64_def bytes_to_ull_def upt_8 ac_simps)

lemma load_store_64 [simp]: "load_bigendian_64 (store_bigendian_64 v) = v"
  by (simp add: load_bigendian_64_ull store_bigendian_64_be bytes_to_ull_be_bytes take_bit_word_eq_self)

lemma load_bigendian_32_ull: "load_bigendian_32 x = ucast (bytes_to_ull x 4)"
  by (rule bit_word_eqI)
     (auto simp: load_bigendian_32_def bytes_to_ull_def upt_4 bit_simps)

lemma load_store_32 [simp]: "load_bigendian_32 (store_bigendian_32 (ucast v)) = v" for v :: u32
  by (simp add: load_bigendian_32_ull store_bigendian_32_u32 u32_to_bytes_be
      bytes_to_ull_be_bytes) (auto simp: bit_simps intro!: bit_word_eqI)

lemma be_bytes_bytes_to_ull:
  assumes "length x = n" "n \<le> 8"
  shows "be_bytes n (bytes_to_ull x n) = x"
proof (rule nth_equalityI)
  fix i assume "i < length (be_bytes n (bytes_to_ull x n))"
  then have i: "i < n" by simp
  show "be_bytes n (bytes_to_ull x n) ! i = x ! i"
  proof (rule bit_word_eqI)
    fix j assume "j < LENGTH(8)"
    then have j: "j < 8" by simp
    define q where "q = n - 1 - i"
    have q: "n - 1 - q = i" "q < n" using i by (simp_all add: q_def)
    from q(2) j have "8 * q + j < 8 * n" by linarith
    moreover from j have "(8 * q + j) div 8 = q" "(8 * q + j) mod 8 = j" by simp_all
    ultimately have "bit (bytes_to_ull x n) (8 * q + j) \<longleftrightarrow> bit (x ! i) j"
      using assms(2) q(1) by (simp add: bit_bytes_to_ull)
    moreover have "8 * q + j < 64" using \<open>8 * q + j < 8 * n\<close> assms(2) by linarith
    ultimately show "bit (be_bytes n (bytes_to_ull x n) ! i) j \<longleftrightarrow> bit (x ! i) j"
      using i j by (simp add: nth_be_bytes bit_simps q_def)
  qed
qed (simp add: assms)

lemma store_load_64: "length x = 8 \<Longrightarrow> store_bigendian_64 (load_bigendian_64 x) = x"
  by (simp add: load_bigendian_64_ull store_bigendian_64_be be_bytes_bytes_to_ull)

lemma store_load_32: "length x = 4 \<Longrightarrow> store_bigendian_32 (ucast (load_bigendian_32 x)) = x"
proof -
  assume x: "length x = 4"
  have e: "(ucast (ucast (bytes_to_ull x 4) :: u32) :: u64) = bytes_to_ull x 4"
    by (rule bit_word_eqI) (auto simp: bit_simps bit_bytes_to_ull)
  have "store_bigendian_32 (ucast (load_bigendian_32 x)) = be_bytes 4 (bytes_to_ull x 4)"
    by (simp only: store_bigendian_32_u32 u32_to_bytes_be) (simp only: load_bigendian_32_ull e)
  with x show ?thesis by (simp add: be_bytes_bytes_to_ull)
qed

end
