(* ===== verification/Address.thy ===== *)
theory Address
  imports Utils_Bytes
begin

text \<open>
  The hash-function address of \<open>sphincsplus/ref/address.c\<close>: \<open>uint32_t addr[8]\<close>, which every
  setter accesses as 32 raw bytes with the SHA2 layout of \<open>sha2_offsets.h\<close>.  The setters take the
  address and return the updated one.  The section on agreement up to a set of positions is
  what lets a caller forget the values an earlier call left in the fields it overwrites; the last section
  shows that the bytes that are hashed determine the fields.
\<close>

type_synonym spx_addr = bytes

abbreviation valid_addr :: "spx_addr \<Rightarrow> bool" where
  "valid_addr a \<equiv> length a = 32"

definition zero_addr :: spx_addr where
  "zero_addr = replicate 32 0"

section \<open>Setters\<close>

definition set_layer_addr :: "spx_addr \<Rightarrow> u32 \<Rightarrow> spx_addr" where
  "set_layer_addr addr layer = addr[SPX_OFFSET_LAYER := ucast layer]"

definition set_tree_addr :: "spx_addr \<Rightarrow> u64 \<Rightarrow> spx_addr" where
  "set_tree_addr addr tree =
     put_bytes SPX_OFFSET_TREE (ull_to_bytes (get_bytes SPX_OFFSET_TREE 8 addr) 8 tree) addr"

definition set_type :: "spx_addr \<Rightarrow> u32 \<Rightarrow> spx_addr" where
  "set_type addr ty = addr[SPX_OFFSET_TYPE := ucast ty]"

definition copy_subtree_addr :: "spx_addr \<Rightarrow> spx_addr \<Rightarrow> spx_addr" where
  "copy_subtree_addr out inp = put_bytes 0 (get_bytes 0 (SPX_OFFSET_TREE + 8) inp) out"

definition set_keypair_addr :: "spx_addr \<Rightarrow> u32 \<Rightarrow> spx_addr" where
  "set_keypair_addr addr keypair = put_bytes SPX_OFFSET_KP_ADDR (u32_to_bytes keypair) addr"

definition copy_keypair_addr :: "spx_addr \<Rightarrow> spx_addr \<Rightarrow> spx_addr" where
  "copy_keypair_addr out inp =
     put_bytes SPX_OFFSET_KP_ADDR (get_bytes SPX_OFFSET_KP_ADDR 4 inp)
       (put_bytes 0 (get_bytes 0 (SPX_OFFSET_TREE + 8) inp) out)"

definition set_chain_addr :: "spx_addr \<Rightarrow> u32 \<Rightarrow> spx_addr" where
  "set_chain_addr addr chain = addr[SPX_OFFSET_CHAIN_ADDR := ucast chain]"

definition set_hash_addr :: "spx_addr \<Rightarrow> u32 \<Rightarrow> spx_addr" where
  "set_hash_addr addr hash = addr[SPX_OFFSET_HASH_ADDR := ucast hash]"

definition set_tree_height :: "spx_addr \<Rightarrow> u32 \<Rightarrow> spx_addr" where
  "set_tree_height addr tree_height = addr[SPX_OFFSET_TREE_HGT := ucast tree_height]"

definition set_tree_index :: "spx_addr \<Rightarrow> u32 \<Rightarrow> spx_addr" where
  "set_tree_index addr tree_index = put_bytes SPX_OFFSET_TREE_INDEX (u32_to_bytes tree_index) addr"

lemmas addr_setter_defs = set_layer_addr_def set_tree_addr_def set_type_def copy_subtree_addr_def
  set_keypair_addr_def copy_keypair_addr_def set_chain_addr_def set_hash_addr_def
  set_tree_height_def set_tree_index_def

section \<open>Well-formedness is kept by every setter\<close>

named_theorems addr_len "address setters keep the 32-byte length"

lemma valid_zero_addr [addr_len]: "valid_addr zero_addr"
  by (simp add: zero_addr_def)

lemma valid_addr_setters [addr_len]:
  assumes "valid_addr a"
  shows "valid_addr (set_layer_addr a l)" "valid_addr (set_tree_addr a t)" "valid_addr (set_type a y)"
    "valid_addr (set_keypair_addr a k)" "valid_addr (set_chain_addr a c)" "valid_addr (set_hash_addr a h)"
    "valid_addr (set_tree_height a g)" "valid_addr (set_tree_index a i)"
  using assms by (simp_all add: addr_setter_defs)

lemma valid_addr_copies [addr_len]:
  assumes "valid_addr a" "valid_addr b"
  shows "valid_addr (copy_subtree_addr a b)" "valid_addr (copy_keypair_addr a b)"
  using assms by (simp_all add: addr_setter_defs)

section \<open>What each setter writes, byte by byte\<close>

named_theorems addr_nth "the bytes an address setter leaves"

lemma nth_addr_setters [addr_nth]:
  assumes "valid_addr a" "i < 32"
  shows "set_layer_addr a l ! i = (if i = 0 then ucast l else a ! i)"
    "set_tree_addr a t ! i = (if 1 \<le> i \<and> i < 9 then be_bytes 8 t ! (i - 1) else a ! i)"
    "set_type a y ! i = (if i = 9 then ucast y else a ! i)"
    "set_keypair_addr a k ! i = (if 10 \<le> i \<and> i < 14 then u32_to_bytes k ! (i - 10) else a ! i)"
    "set_chain_addr a c ! i = (if i = 17 then ucast c else a ! i)"
    "set_hash_addr a h ! i = (if i = 21 then ucast h else a ! i)"
    "set_tree_height a g ! i = (if i = 17 then ucast g else a ! i)"
    "set_tree_index a x ! i = (if 18 \<le> i \<and> i < 22 then u32_to_bytes x ! (i - 18) else a ! i)"
  using assms
  by (auto simp: addr_setter_defs nth_list_update nth_put_bytes ull_to_bytes_be)

lemma nth_addr_copies [addr_nth]:
  assumes "valid_addr a" "valid_addr b" "i < 32"
  shows "copy_subtree_addr a b ! i = (if i < 9 then b ! i else a ! i)"
    "copy_keypair_addr a b ! i = (if i < 9 \<or> 10 \<le> i \<and> i < 14 then b ! i else a ! i)"
  using assms by (auto simp: addr_setter_defs nth_put_bytes get_bytes_def)

section \<open>Agreement up to overwritten bytes\<close>

definition agree_except :: "nat set \<Rightarrow> spx_addr \<Rightarrow> spx_addr \<Rightarrow> bool" where
  "agree_except S a b \<longleftrightarrow> valid_addr a \<and> valid_addr b \<and> (\<forall>i<32. i \<notin> S \<longrightarrow> a ! i = b ! i)"

lemma agree_exceptI:
  "valid_addr a \<Longrightarrow> valid_addr b \<Longrightarrow> (\<And>i. i < 32 \<Longrightarrow> i \<notin> S \<Longrightarrow> a ! i = b ! i) \<Longrightarrow> agree_except S a b"
  by (simp add: agree_except_def)

lemma agree_exceptD: "agree_except S a b \<Longrightarrow> i < 32 \<Longrightarrow> i \<notin> S \<Longrightarrow> a ! i = b ! i"
  by (simp add: agree_except_def)

lemma agree_except_valid: "agree_except S a b \<Longrightarrow> valid_addr a \<and> valid_addr b"
  by (simp add: agree_except_def)

lemma agree_except_refl: "valid_addr a \<Longrightarrow> agree_except S a a"
  by (simp add: agree_except_def)

lemma agree_except_trans: "agree_except S a b \<Longrightarrow> agree_except S b c \<Longrightarrow> agree_except S a c"
  by (simp add: agree_except_def)

lemma agree_except_sym: "agree_except S a b \<Longrightarrow> agree_except S b a"
  by (simp add: agree_except_def)

lemma addr_eqI:
  "valid_addr a \<Longrightarrow> valid_addr b \<Longrightarrow> (\<And>i. i < 32 \<Longrightarrow> a ! i = b ! i) \<Longrightarrow> a = b"
  by (simp add: nth_equalityI)

text \<open>Positions of the node fields (height and index) and of the WOTS chain fields.\<close>

abbreviation node_fields :: "nat set" where "node_fields \<equiv> {17..<22}"
abbreviation chain_fields :: "nat set" where "chain_fields \<equiv> {17, 21}"

lemma agree_node_set:
  "agree_except node_fields a b \<Longrightarrow>
    agree_except node_fields (set_tree_index (set_tree_height a h) i) b"
  by (auto simp: agree_except_def addr_nth addr_len)

lemma node_addr_unique:
  "agree_except node_fields a b \<Longrightarrow>
    set_tree_index (set_tree_height a h) i = set_tree_index (set_tree_height b h) i"
  by (rule addr_eqI) (auto simp: agree_except_def addr_nth addr_len)

section \<open>The fields determine the address and the address the fields\<close>

text \<open>The hash functions read only the first 22 bytes of an address.\<close>

definition full_chain_addr :: "u32 \<Rightarrow> u64 \<Rightarrow> u32 \<Rightarrow> u32 \<Rightarrow> u32 \<Rightarrow> u32 \<Rightarrow> spx_addr" where
  "full_chain_addr layer tree ty keypair chain hash =
     set_hash_addr (set_chain_addr (set_keypair_addr (set_type (set_tree_addr (set_layer_addr zero_addr layer) tree) ty) keypair) chain) hash"

definition full_node_addr :: "u32 \<Rightarrow> u64 \<Rightarrow> u32 \<Rightarrow> u32 \<Rightarrow> u32 \<Rightarrow> u32 \<Rightarrow> spx_addr" where
  "full_node_addr layer tree ty keypair height index =
     set_tree_index (set_tree_height (set_keypair_addr (set_type (set_tree_addr (set_layer_addr zero_addr layer) tree) ty) keypair) height) index"

lemma valid_field_addrs [addr_len]: "valid_addr (full_chain_addr l t y k c h)" "valid_addr (full_node_addr l t y k g i)"
  by (simp_all add: full_chain_addr_def full_node_addr_def addr_len)

text \<open>The first 14 bytes hold the fields that all addresses share.\<close>

definition field_byte :: "u32 \<Rightarrow> u64 \<Rightarrow> u32 \<Rightarrow> u32 \<Rightarrow> nat \<Rightarrow> u8" where
  "field_byte l t y k i = (if i = 0 then ucast l else if i < 9 then be_bytes 8 t ! (i - 1) else if i = 9 then ucast y
     else u32_to_bytes k ! (i - 10))"

lemma nth_chain_addr:
  "i < 14 \<Longrightarrow> take 22 (full_chain_addr l t y k c h) ! i = field_byte l t y k i"
  "take 22 (full_chain_addr l t y k c h) ! 17 = ucast c" "take 22 (full_chain_addr l t y k c h) ! 21 = ucast h"
  by (simp_all add: full_chain_addr_def field_byte_def addr_nth addr_len)

lemma nth_node_addr:
  "i < 14 \<Longrightarrow> take 22 (full_node_addr l t y k g x) ! i = field_byte l t y k i"
  "take 22 (full_node_addr l t y k g x) ! 17 = ucast g"
  "i < 4 \<Longrightarrow> take 22 (full_node_addr l t y k g x) ! (18 + i) = u32_to_bytes x ! i"
  by (simp_all add: full_node_addr_def field_byte_def addr_nth addr_len)

lemma byte_field_inj:
  fixes x y :: u32
  assumes "(ucast x :: u8) = ucast y" "unat x < 256" "unat y < 256"
  shows "x = y"
proof -
  have "take_bit 8 (unat x) = take_bit 8 (unat y)" using arg_cong [OF assms(1), of unat] by (simp add: unsigned_ucast_eq)
  then have "unat x = unat y" using assms(2,3) by (simp add: take_bit_nat_eq_self)
  then show ?thesis by (rule word_eq_unatI)
qed

lemma be_bytes_inj:
  assumes "be_bytes 8 t = be_bytes 8 t'"
  shows "t = t'"
proof -
  have r: "bytes_to_ull (be_bytes 8 u) 8 = u" for u
    unfolding bytes_to_ull_be_bytes [OF order_refl] by (rule take_bit_word_eq_self) simp
  have "bytes_to_ull (be_bytes 8 t) 8 = bytes_to_ull (be_bytes 8 t') 8" using assms by (rule arg_cong)
  then show ?thesis unfolding r .
qed

lemma u32_to_bytes_inj:
  assumes "u32_to_bytes k = u32_to_bytes k'"
  shows "k = k'"
proof -
  have "take_bit 32 (ucast k :: u64) = take_bit 32 (ucast k')"
    using assms bytes_to_ull_be_bytes [of 4 "ucast k"] bytes_to_ull_be_bytes [of 4 "ucast k'"] by (simp add: u32_to_bytes_be)
  then have "(ucast (take_bit 32 (ucast k :: u64)) :: u32) = ucast (take_bit 32 (ucast k' :: u64))" by simp
  moreover have "(ucast (take_bit 32 (ucast x :: u64)) :: u32) = x" for x :: u32 by (rule bit_word_eqI) (auto simp: bit_simps)
  ultimately show ?thesis by simp
qed

lemma field_byte_inj:
  assumes "\<And>i. i < 14 \<Longrightarrow> field_byte l t y k i = field_byte l' t' y' k' i"
    and "unat l < 256" "unat l' < 256" "unat y < 256" "unat y' < 256"
  shows "l = l' \<and> t = t' \<and> y = y' \<and> k = k'"
proof (intro conjI)
  show "l = l'" using assms(1) [of 0] assms(2,3) by (intro byte_field_inj) (simp_all add: field_byte_def)
  show "y = y'" using assms(1) [of 9] assms(4,5) by (intro byte_field_inj) (simp_all add: field_byte_def)
  have "be_bytes 8 t ! i = be_bytes 8 t' ! i" if "i < 8" for i using assms(1) [of "Suc i"] that by (simp add: field_byte_def)
  then show "t = t'" by (intro be_bytes_inj nth_equalityI) simp_all
  have "u32_to_bytes k ! i = u32_to_bytes k' ! i" if "i < 4" for i using assms(1) [of "10 + i"] that by (simp add: field_byte_def)
  then show "k = k'" by (intro u32_to_bytes_inj nth_equalityI) simp_all
qed

lemma chain_addr_inj:
  assumes eq: "take 22 (full_chain_addr l t y k c h) = take 22 (full_chain_addr l' t' y' k' c' h')"
    and "unat l < 256" "unat l' < 256" "unat y < 256" "unat y' < 256" "unat c < 256" "unat c' < 256" "unat h < 256" "unat h' < 256"
  shows "l = l' \<and> t = t' \<and> y = y' \<and> k = k' \<and> c = c' \<and> h = h'"
proof -
  have "field_byte l t y k i = field_byte l' t' y' k' i" if "i < 14" for i
    using nth_chain_addr(1) [OF that] eq by metis
  then have "l = l' \<and> t = t' \<and> y = y' \<and> k = k'" using assms(2-5) by (rule field_byte_inj)
  moreover have "c = c'" using nth_chain_addr(2) eq assms(6,7) by (metis byte_field_inj)
  moreover have "h = h'" using nth_chain_addr(3) eq assms(8,9) by (metis byte_field_inj)
  ultimately show ?thesis by simp
qed

lemma node_addr_inj:
  assumes eq: "take 22 (full_node_addr l t y k g x) = take 22 (full_node_addr l' t' y' k' g' x')"
    and "unat l < 256" "unat l' < 256" "unat y < 256" "unat y' < 256" "unat g < 256" "unat g' < 256"
  shows "l = l' \<and> t = t' \<and> y = y' \<and> k = k' \<and> g = g' \<and> x = x'"
proof -
  have "field_byte l t y k i = field_byte l' t' y' k' i" if "i < 14" for i
    using nth_node_addr(1) [OF that] eq by metis
  then have "l = l' \<and> t = t' \<and> y = y' \<and> k = k'" using assms(2-5) by (rule field_byte_inj)
  moreover have "g = g'" using nth_node_addr(2) eq assms(6,7) by (metis byte_field_inj)
  moreover have "u32_to_bytes x ! i = u32_to_bytes x' ! i" if "i < 4" for i
    using nth_node_addr(3) [OF that] eq by metis
  then have "x = x'" by (intro u32_to_bytes_inj nth_equalityI) simp_all
  ultimately show ?thesis by simp
qed

lemma chain_node_type:
  assumes "take 22 (full_chain_addr l t y k c h) = take 22 (full_node_addr l' t' y' k' g x)" "unat y < 256" "unat y' < 256"
  shows "y = y'"
proof -
  have "9 < (14 :: nat)" by simp
  then have "field_byte l t y k 9 = field_byte l' t' y' k' 9"
    using nth_chain_addr(1) nth_node_addr(1) assms(1) by metis
  then show ?thesis using assms(2,3) by (intro byte_field_inj) (simp_all add: field_byte_def)
qed

end
