(* ===== verification/Sha2.thy ===== *)
theory Sha2
  imports Utils_Bytes
begin

text \<open>
  The SHA-2 compression functions of \<open>sphincsplus/ref/sha2.c\<close>
  (\<open>crypto_hashblocks_sha256_ref\<close>, \<open>crypto_hashblocks_sha512_ref\<close>) with their macros, and the
  proof that the in-place schedule and the widened additions of the C code compute the
  compression function in the form FIPS 180-4 gives it.
\<close>

section \<open>Modular addition\<close>

definition spx_add32 :: "u32 \<Rightarrow> u32 \<Rightarrow> u32" where
  "spx_add32 lhs rhs = ucast ((ucast lhs :: u64) + (ucast rhs :: u64))"

definition spx_add32_4 :: "u32 \<Rightarrow> u32 \<Rightarrow> u32 \<Rightarrow> u32 \<Rightarrow> u32" where
  "spx_add32_4 a b c d = spx_add32 (spx_add32 a b) (spx_add32 c d)"

definition spx_add32_5 :: "u32 \<Rightarrow> u32 \<Rightarrow> u32 \<Rightarrow> u32 \<Rightarrow> u32 \<Rightarrow> u32" where
  "spx_add32_5 a b c d e = spx_add32 (spx_add32_4 a b c d) e"

text \<open>\<open>spx_add64\<close> goes through \<open>__uint128_t\<close> where the compiler has it, and through two 32-bit
  halves where it has not.\<close>

definition spx_add64 :: "u64 \<Rightarrow> u64 \<Rightarrow> u64" where
  "spx_add64 lhs rhs = ucast ((ucast lhs :: 128 word) + (ucast rhs :: 128 word))"

definition spx_add64_halves :: "u64 \<Rightarrow> u64 \<Rightarrow> u64" where
  "spx_add64_halves lhs rhs =
     (let lo = (lhs AND 0xffffffff) + (rhs AND 0xffffffff);
          hi = drop_bit 32 lhs + drop_bit 32 rhs + drop_bit 32 lo
      in push_bit 32 (hi AND 0xffffffff) OR (lo AND 0xffffffff))"

definition spx_add64_4 :: "u64 \<Rightarrow> u64 \<Rightarrow> u64 \<Rightarrow> u64 \<Rightarrow> u64" where
  "spx_add64_4 a b c d = spx_add64 (spx_add64 a b) (spx_add64 c d)"

definition spx_add64_5 :: "u64 \<Rightarrow> u64 \<Rightarrow> u64 \<Rightarrow> u64 \<Rightarrow> u64 \<Rightarrow> u64" where
  "spx_add64_5 a b c d e = spx_add64 (spx_add64_4 a b c d) e"

section \<open>Bit functions\<close>

definition ROTR_32 :: "u32 \<Rightarrow> nat \<Rightarrow> u32" where
  "ROTR_32 x c = drop_bit c x OR push_bit (32 - c) (x AND (push_bit c 1 - 1))"

definition ROTR_64 :: "u64 \<Rightarrow> nat \<Rightarrow> u64" where
  "ROTR_64 x c = drop_bit c x OR push_bit (64 - c) (x AND (push_bit c 1 - 1))"

definition Ch :: "'a::len word \<Rightarrow> 'a word \<Rightarrow> 'a word \<Rightarrow> 'a word" where
  "Ch x y z = (x AND y) XOR (NOT x AND z)"

definition Maj :: "'a::len word \<Rightarrow> 'a word \<Rightarrow> 'a word \<Rightarrow> 'a word" where
  "Maj x y z = (x AND y) XOR (x AND z) XOR (y AND z)"

definition Sigma0_32 :: "u32 \<Rightarrow> u32" where
  "Sigma0_32 x = ROTR_32 x 2 XOR ROTR_32 x 13 XOR ROTR_32 x 22"
definition Sigma1_32 :: "u32 \<Rightarrow> u32" where
  "Sigma1_32 x = ROTR_32 x 6 XOR ROTR_32 x 11 XOR ROTR_32 x 25"
definition sigma0_32 :: "u32 \<Rightarrow> u32" where
  "sigma0_32 x = ROTR_32 x 7 XOR ROTR_32 x 18 XOR drop_bit 3 x"
definition sigma1_32 :: "u32 \<Rightarrow> u32" where
  "sigma1_32 x = ROTR_32 x 17 XOR ROTR_32 x 19 XOR drop_bit 10 x"

definition Sigma0_64 :: "u64 \<Rightarrow> u64" where
  "Sigma0_64 x = ROTR_64 x 28 XOR ROTR_64 x 34 XOR ROTR_64 x 39"
definition Sigma1_64 :: "u64 \<Rightarrow> u64" where
  "Sigma1_64 x = ROTR_64 x 14 XOR ROTR_64 x 18 XOR ROTR_64 x 41"
definition sigma0_64 :: "u64 \<Rightarrow> u64" where
  "sigma0_64 x = ROTR_64 x 1 XOR ROTR_64 x 8 XOR drop_bit 7 x"
definition sigma1_64 :: "u64 \<Rightarrow> u64" where
  "sigma1_64 x = ROTR_64 x 19 XOR ROTR_64 x 61 XOR drop_bit 6 x"

section \<open>Message schedule and rounds\<close>

text \<open>The sixteen variables \<open>w0 \<dots> w15\<close> are a list of sixteen words; \<open>M_32 w i0 i14 i9 i1\<close> is
  the assignment the macro makes to \<open>w\<^bsub>i0\<^esub>\<close>.\<close>

definition M_32 :: "u32 list \<Rightarrow> nat \<Rightarrow> nat \<Rightarrow> nat \<Rightarrow> nat \<Rightarrow> u32 list" where
  "M_32 w i0 i14 i9 i1 =
     w[i0 := spx_add32_4 (sigma1_32 (w ! i14)) (w ! i9) (sigma0_32 (w ! i1)) (w ! i0)]"

definition M_64 :: "u64 list \<Rightarrow> nat \<Rightarrow> nat \<Rightarrow> nat \<Rightarrow> nat \<Rightarrow> u64 list" where
  "M_64 w i0 i14 i9 i1 =
     w[i0 := spx_add64_4 (sigma1_64 (w ! i14)) (w ! i9) (sigma0_64 (w ! i1)) (w ! i0)]"

text \<open>The operand indices of the sixteen lines of \<open>EXPAND_32\<close> and \<open>EXPAND_64\<close>.\<close>

definition expand_lines :: "(nat \<times> nat \<times> nat \<times> nat) list" where
  "expand_lines =
     [(0, 14, 9, 1), (1, 15, 10, 2), (2, 0, 11, 3), (3, 1, 12, 4),
      (4, 2, 13, 5), (5, 3, 14, 6), (6, 4, 15, 7), (7, 5, 0, 8),
      (8, 6, 1, 9), (9, 7, 2, 10), (10, 8, 3, 11), (11, 9, 4, 12),
      (12, 10, 5, 13), (13, 11, 6, 14), (14, 12, 7, 15), (15, 13, 8, 0)]"

definition EXPAND_32 :: "u32 list \<Rightarrow> u32 list" where
  "EXPAND_32 w = foldl (\<lambda>w (i0, i14, i9, i1). M_32 w i0 i14 i9 i1) w expand_lines"

definition EXPAND_64 :: "u64 list \<Rightarrow> u64 list" where
  "EXPAND_64 w = foldl (\<lambda>w (i0, i14, i9, i1). M_64 w i0 i14 i9 i1) w expand_lines"

type_synonym 'w vars = "'w \<times> 'w \<times> 'w \<times> 'w \<times> 'w \<times> 'w \<times> 'w \<times> 'w"

fun F_32 :: "u32 \<Rightarrow> u32 \<Rightarrow> u32 vars \<Rightarrow> u32 vars" where
  "F_32 w k (a, b, c, d, e, f, g, h) =
     (let T1 = spx_add32_5 h (Sigma1_32 e) (Ch e f g) k w;
          T2 = spx_add32 (Sigma0_32 a) (Maj a b c)
      in (spx_add32 T1 T2, a, b, c, spx_add32 d T1, e, f, g))"

fun F_64 :: "u64 \<Rightarrow> u64 \<Rightarrow> u64 vars \<Rightarrow> u64 vars" where
  "F_64 w k (a, b, c, d, e, f, g, h) =
     (let T1 = spx_add64_5 h (Sigma1_64 e) (Ch e f g) k w;
          T2 = spx_add64 (Sigma0_64 a) (Maj a b c)
      in (spx_add64 T1 T2, a, b, c, spx_add64 d T1, e, f, g))"

text \<open>The round constants, in the order of the \<open>F_32\<close> and \<open>F_64\<close> lines; two rows to a group of
  sixteen rounds.\<close>

definition K_32 :: "u32 list" where
  "K_32 = concat
     [[0x428a2f98, 0x71374491, 0xb5c0fbcf, 0xe9b5dba5, 0x3956c25b, 0x59f111f1, 0x923f82a4, 0xab1c5ed5],
      [0xd807aa98, 0x12835b01, 0x243185be, 0x550c7dc3, 0x72be5d74, 0x80deb1fe, 0x9bdc06a7, 0xc19bf174],
      [0xe49b69c1, 0xefbe4786, 0x0fc19dc6, 0x240ca1cc, 0x2de92c6f, 0x4a7484aa, 0x5cb0a9dc, 0x76f988da],
      [0x983e5152, 0xa831c66d, 0xb00327c8, 0xbf597fc7, 0xc6e00bf3, 0xd5a79147, 0x06ca6351, 0x14292967],
      [0x27b70a85, 0x2e1b2138, 0x4d2c6dfc, 0x53380d13, 0x650a7354, 0x766a0abb, 0x81c2c92e, 0x92722c85],
      [0xa2bfe8a1, 0xa81a664b, 0xc24b8b70, 0xc76c51a3, 0xd192e819, 0xd6990624, 0xf40e3585, 0x106aa070],
      [0x19a4c116, 0x1e376c08, 0x2748774c, 0x34b0bcb5, 0x391c0cb3, 0x4ed8aa4a, 0x5b9cca4f, 0x682e6ff3],
      [0x748f82ee, 0x78a5636f, 0x84c87814, 0x8cc70208, 0x90befffa, 0xa4506ceb, 0xbef9a3f7, 0xc67178f2]]"

definition K_64 :: "u64 list" where
  "K_64 = concat
     [[0x428a2f98d728ae22, 0x7137449123ef65cd, 0xb5c0fbcfec4d3b2f, 0xe9b5dba58189dbbc,
       0x3956c25bf348b538, 0x59f111f1b605d019, 0x923f82a4af194f9b, 0xab1c5ed5da6d8118],
      [0xd807aa98a3030242, 0x12835b0145706fbe, 0x243185be4ee4b28c, 0x550c7dc3d5ffb4e2,
       0x72be5d74f27b896f, 0x80deb1fe3b1696b1, 0x9bdc06a725c71235, 0xc19bf174cf692694],
      [0xe49b69c19ef14ad2, 0xefbe4786384f25e3, 0x0fc19dc68b8cd5b5, 0x240ca1cc77ac9c65,
       0x2de92c6f592b0275, 0x4a7484aa6ea6e483, 0x5cb0a9dcbd41fbd4, 0x76f988da831153b5],
      [0x983e5152ee66dfab, 0xa831c66d2db43210, 0xb00327c898fb213f, 0xbf597fc7beef0ee4,
       0xc6e00bf33da88fc2, 0xd5a79147930aa725, 0x06ca6351e003826f, 0x142929670a0e6e70],
      [0x27b70a8546d22ffc, 0x2e1b21385c26c926, 0x4d2c6dfc5ac42aed, 0x53380d139d95b3df,
       0x650a73548baf63de, 0x766a0abb3c77b2a8, 0x81c2c92e47edaee6, 0x92722c851482353b],
      [0xa2bfe8a14cf10364, 0xa81a664bbc423001, 0xc24b8b70d0f89791, 0xc76c51a30654be30,
       0xd192e819d6ef5218, 0xd69906245565a910, 0xf40e35855771202a, 0x106aa07032bbd1b8],
      [0x19a4c116b8d2d0c8, 0x1e376c085141ab53, 0x2748774cdf8eeb99, 0x34b0bcb5e19b48a8,
       0x391c0cb3c5c95a63, 0x4ed8aa4ae3418acb, 0x5b9cca4f7763e373, 0x682e6ff3d6b2b8a3],
      [0x748f82ee5defb2fc, 0x78a5636f43172f60, 0x84c87814a1f0ab72, 0x8cc702081a6439ec,
       0x90befffa23631e28, 0xa4506cebde82bde9, 0xbef9a3f7b2c67915, 0xc67178f2e372532b],
      [0xca273eceea26619c, 0xd186b8c721c0c207, 0xeada7dd6cde0eb1e, 0xf57d4f7fee6ed178,
       0x06f067aa72176fba, 0x0a637dc5a2c898a6, 0x113f9804bef90dae, 0x1b710b35131c471b],
      [0x28db77f523047d84, 0x32caab7b40c72493, 0x3c9ebe0a15c9bebc, 0x431d67c49c100d4c,
       0x4cc5d4becb3e42b6, 0x597f299cfc657e2a, 0x5fcb6fab3ad6faec, 0x6c44198c4a475817]]"

text \<open>Sixteen consecutive \<open>F\<close> lines, over \<open>w0 \<dots> w15\<close> and sixteen round constants.\<close>

definition rounds_32 :: "u32 list \<Rightarrow> u32 list \<Rightarrow> u32 vars \<Rightarrow> u32 vars" where
  "rounds_32 w ks s = foldl (\<lambda>s (wi, k). F_32 wi k s) s (zip w ks)"

definition rounds_64 :: "u64 list \<Rightarrow> u64 list \<Rightarrow> u64 vars \<Rightarrow> u64 vars" where
  "rounds_64 w ks s = foldl (\<lambda>s (wi, k). F_64 wi k s) s (zip w ks)"

fun add_vars_32 :: "u32 vars \<Rightarrow> u32 vars \<Rightarrow> u32 vars" where
  "add_vars_32 (a, b, c, d, e, f, g, h) (a', b', c', d', e', f', g', h') =
     (spx_add32 a a', spx_add32 b b', spx_add32 c c', spx_add32 d d',
      spx_add32 e e', spx_add32 f f', spx_add32 g g', spx_add32 h h')"

fun add_vars_64 :: "u64 vars \<Rightarrow> u64 vars \<Rightarrow> u64 vars" where
  "add_vars_64 (a, b, c, d, e, f, g, h) (a', b', c', d', e', f', g', h') =
     (spx_add64 a a', spx_add64 b b', spx_add64 c c', spx_add64 d d',
      spx_add64 e e', spx_add64 f f', spx_add64 g g', spx_add64 h h')"

text \<open>One pass of the \<open>while\<close> body: load the block, the rounds with the schedule expanded in
  place between the groups of sixteen, then the feed-forward into \<open>state\<close>.\<close>

definition block_sha256 :: "u32 vars \<Rightarrow> bytes \<Rightarrow> u32 vars" where
  "block_sha256 state inp =
     (let w = map (\<lambda>i. load_bigendian_32 (drop (4 * i) inp)) [0..<16];
          s = rounds_32 w (take 16 K_32) state;
          w = EXPAND_32 w;
          s = rounds_32 w (take 16 (drop 16 K_32)) s;
          w = EXPAND_32 w;
          s = rounds_32 w (take 16 (drop 32 K_32)) s;
          w = EXPAND_32 w;
          s = rounds_32 w (take 16 (drop 48 K_32)) s
      in add_vars_32 s state)"

definition block_sha512 :: "u64 vars \<Rightarrow> bytes \<Rightarrow> u64 vars" where
  "block_sha512 state inp =
     (let w = map (\<lambda>i. load_bigendian_64 (drop (8 * i) inp)) [0..<16];
          s = rounds_64 w (take 16 K_64) state;
          w = EXPAND_64 w;
          s = rounds_64 w (take 16 (drop 16 K_64)) s;
          w = EXPAND_64 w;
          s = rounds_64 w (take 16 (drop 32 K_64)) s;
          w = EXPAND_64 w;
          s = rounds_64 w (take 16 (drop 48 K_64)) s;
          w = EXPAND_64 w;
          s = rounds_64 w (take 16 (drop 64 K_64)) s
      in add_vars_64 s state)"

section \<open>Hashing whole blocks\<close>

fun load_state_32 :: "bytes \<Rightarrow> u32 vars" where
  "load_state_32 sb =
     (load_bigendian_32 sb, load_bigendian_32 (drop 4 sb), load_bigendian_32 (drop 8 sb),
      load_bigendian_32 (drop 12 sb), load_bigendian_32 (drop 16 sb), load_bigendian_32 (drop 20 sb),
      load_bigendian_32 (drop 24 sb), load_bigendian_32 (drop 28 sb))"

fun store_state_32 :: "u32 vars \<Rightarrow> bytes" where
  "store_state_32 (a, b, c, d, e, f, g, h) =
     concat (map (\<lambda>x. store_bigendian_32 (ucast x)) [a, b, c, d, e, f, g, h])"

fun load_state_64 :: "bytes \<Rightarrow> u64 vars" where
  "load_state_64 sb =
     (load_bigendian_64 sb, load_bigendian_64 (drop 8 sb), load_bigendian_64 (drop 16 sb),
      load_bigendian_64 (drop 24 sb), load_bigendian_64 (drop 32 sb), load_bigendian_64 (drop 40 sb),
      load_bigendian_64 (drop 48 sb), load_bigendian_64 (drop 56 sb))"

fun store_state_64 :: "u64 vars \<Rightarrow> bytes" where
  "store_state_64 (a, b, c, d, e, f, g, h) =
     concat (map store_bigendian_64 [a, b, c, d, e, f, g, h])"

text \<open>The \<open>while (inlen >= 64)\<close> loop; it returns the words of \<open>state\<close> and the remaining \<open>inlen\<close>.\<close>

function blocks_loop_sha256 :: "u32 vars \<Rightarrow> bytes \<Rightarrow> u32 vars \<times> nat" where
  "blocks_loop_sha256 state inp =
     (if 64 \<le> length inp then blocks_loop_sha256 (block_sha256 state inp) (drop 64 inp)
      else (state, length inp))"
  by pat_completeness auto
termination
  by (relation "measure (\<lambda>(state, inp). length inp)") auto

function blocks_loop_sha512 :: "u64 vars \<Rightarrow> bytes \<Rightarrow> u64 vars \<times> nat" where
  "blocks_loop_sha512 state inp =
     (if 128 \<le> length inp then blocks_loop_sha512 (block_sha512 state inp) (drop 128 inp)
      else (state, length inp))"
  by pat_completeness auto
termination
  by (relation "measure (\<lambda>(state, inp). length inp)") auto

declare load_state_32.simps [simp del] load_state_64.simps [simp del]
  store_state_32.simps [simp del] store_state_64.simps [simp del]
declare blocks_loop_sha256.simps [simp del]
declare blocks_loop_sha512.simps [simp del]

definition crypto_hashblocks_sha256_ref :: "bytes \<Rightarrow> bytes \<Rightarrow> bytes \<times> nat" where
  "crypto_hashblocks_sha256_ref statebytes inp =
     (case blocks_loop_sha256 (load_state_32 statebytes) inp of
        (state, inlen) \<Rightarrow> (store_state_32 state, inlen))"

text \<open>The SHA-512 functions return an \<open>int\<close>: the conversion of an unsigned count to 32 bits with sign.\<close>

definition int_of_count :: "nat \<Rightarrow> int" where
  "int_of_count n = sint (of_nat n :: 32 word)"

lemma int_of_count_small [simp]: "n < 2 ^ 31 \<Longrightarrow> int_of_count n = int n"
  by (simp add: int_of_count_def sint_uint signed_take_bit_int_eq_self unsigned_of_nat take_bit_nat_eq_self)

definition crypto_hashblocks_sha512_ref :: "bytes \<Rightarrow> bytes \<Rightarrow> bytes \<times> int" where
  "crypto_hashblocks_sha512_ref statebytes inp =
     (case blocks_loop_sha512 (load_state_64 statebytes) inp of
        (state, inlen) \<Rightarrow> (store_state_64 state, int_of_count inlen))"

definition iv_256 :: bytes where
  "iv_256 =
     [0x6a, 0x09, 0xe6, 0x67, 0xbb, 0x67, 0xae, 0x85,
      0x3c, 0x6e, 0xf3, 0x72, 0xa5, 0x4f, 0xf5, 0x3a,
      0x51, 0x0e, 0x52, 0x7f, 0x9b, 0x05, 0x68, 0x8c,
      0x1f, 0x83, 0xd9, 0xab, 0x5b, 0xe0, 0xcd, 0x19]"

definition iv_512 :: bytes where
  "iv_512 =
     [0x6a, 0x09, 0xe6, 0x67, 0xf3, 0xbc, 0xc9, 0x08,
      0xbb, 0x67, 0xae, 0x85, 0x84, 0xca, 0xa7, 0x3b,
      0x3c, 0x6e, 0xf3, 0x72, 0xfe, 0x94, 0xf8, 0x2b,
      0xa5, 0x4f, 0xf5, 0x3a, 0x5f, 0x1d, 0x36, 0xf1,
      0x51, 0x0e, 0x52, 0x7f, 0xad, 0xe6, 0x82, 0xd1,
      0x9b, 0x05, 0x68, 0x8c, 0x2b, 0x3e, 0x6c, 0x1f,
      0x1f, 0x83, 0xd9, 0xab, 0xfb, 0x41, 0xbd, 0x6b,
      0x5b, 0xe0, 0xcd, 0x19, 0x13, 0x7e, 0x21, 0x79]"

section \<open>The C arithmetic is modular arithmetic\<close>

lemma spx_add32_plus [simp]: "spx_add32 a b = a + b"
  unfolding spx_add32_def by transfer (simp add: take_bit_add)

lemma spx_add64_plus [simp]: "spx_add64 a b = a + b"
  unfolding spx_add64_def by transfer (simp add: take_bit_add)


lemma spx_add64_halves_plus: "spx_add64_halves a b = a + b"
proof -
  have m: "x AND 0xffffffff = take_bit 32 x" for x :: u64
    by (simp add: take_bit_eq_mask mask_eq_exp_minus_1)
  define lo where "lo = take_bit 32 a + take_bit 32 b"
  define hi where "hi = drop_bit 32 a + drop_bit 32 b + drop_bit 32 lo"
  have "a + b = (push_bit 32 (drop_bit 32 a) + take_bit 32 a) + (push_bit 32 (drop_bit 32 b) + take_bit 32 b)"
    by (simp only: bits_ident)
  also have "\<dots> = push_bit 32 (drop_bit 32 a + drop_bit 32 b) + lo"
    by (simp only: lo_def push_bit_add ac_simps)
  also have "\<dots> = push_bit 32 (drop_bit 32 a + drop_bit 32 b) + (push_bit 32 (drop_bit 32 lo) + take_bit 32 lo)"
    by (simp only: bits_ident)
  also have "\<dots> = push_bit 32 hi + take_bit 32 lo"
    by (simp only: hi_def push_bit_add ac_simps)
  also have "\<dots> = push_bit 32 hi OR take_bit 32 lo"
    by (rule disjunctive_add) (auto simp: bit_simps)
  also have "push_bit 32 hi = push_bit 32 (take_bit 32 hi)"
    by (auto simp: bit_simps intro!: bit_word_eqI)
  finally show ?thesis
    by (simp add: spx_add64_halves_def Let_def m lo_def hi_def)
qed

lemma rotr_mask:
  fixes x :: "'a::len word"
  assumes "c < LENGTH('a)"
  shows "drop_bit c x OR push_bit (LENGTH('a) - c) (x AND (push_bit c 1 - 1)) = word_rotr c x"
proof (rule bit_word_eqI)
  fix n assume n: "n < LENGTH('a)"
  have m: "x AND (push_bit c 1 - 1) = take_bit c x"
    by (simp add: take_bit_eq_mask mask_eq_exp_minus_1 push_bit_eq_mult)
  show "bit (drop_bit c x OR push_bit (LENGTH('a) - c) (x AND (push_bit c 1 - 1))) n
      = bit (word_rotr c x) n"
  proof (cases "n + c < LENGTH('a)")
    case True
    with n show ?thesis unfolding m by (auto simp: bit_simps bit_word_rotr_iff ac_simps)
  next
    case False
    with assms n show ?thesis unfolding m
      by (auto simp: bit_simps bit_word_rotr_iff mod_if ac_simps dest: bit_imp_le_length)
  qed
qed

lemma ROTR_32_rotr: "c < 32 \<Longrightarrow> ROTR_32 x c = word_rotr c x"
  using rotr_mask [of c x] by (simp add: ROTR_32_def)

lemma ROTR_64_rotr: "c < 64 \<Longrightarrow> ROTR_64 x c = word_rotr c x"
  using rotr_mask [of c x] by (simp add: ROTR_64_def)

section \<open>The compression functions in closed form\<close>

text \<open>The same computation with the schedule as a sequence and modular additions, over the tables above; the lane code of the other
  backends is compared with this form.  That it is what FIPS 180-4 defines is the subject of \<open>Sha2_Conformance\<close>.\<close>

function fips_W :: "('a::len word \<Rightarrow> 'a word) \<Rightarrow> ('a word \<Rightarrow> 'a word) \<Rightarrow> 'a word list \<Rightarrow> nat \<Rightarrow> 'a word" where
  "fips_W s0 s1 m t =
     (if t < 16 then m ! t
      else s1 (fips_W s0 s1 m (t - 2)) + fips_W s0 s1 m (t - 7) + s0 (fips_W s0 s1 m (t - 15)) + fips_W s0 s1 m (t - 16))"
  by pat_completeness auto
termination by (relation "measure (\<lambda>(s0, s1, m, t). t)") auto
declare fips_W.simps [simp del]

fun fips_round :: "('a::len word \<Rightarrow> 'a word) \<Rightarrow> ('a word \<Rightarrow> 'a word) \<Rightarrow> 'a word \<Rightarrow> 'a word
    \<Rightarrow> 'a word vars \<Rightarrow> 'a word vars" where
  "fips_round S0 S1 k w (a, b, c, d, e, f, g, h) =
     (let T1 = h + S1 e + Ch e f g + k + w; T2 = S0 a + Maj a b c
      in (T1 + T2, a, b, c, d + T1, e, f, g))"

fun fips_add :: "'a::len word vars \<Rightarrow> 'a word vars \<Rightarrow> 'a word vars" where
  "fips_add (a, b, c, d, e, f, g, h) (a', b', c', d', e', f', g', h') =
     (a + a', b + b', c + c', d + d', e + e', f + f', g + g', h + h')"

definition fips_compress_256 :: "u32 vars \<Rightarrow> u32 list \<Rightarrow> u32 vars" where
  "fips_compress_256 H m =
     (let W = fips_W (\<lambda>x. word_rotr 7 x XOR word_rotr 18 x XOR drop_bit 3 x)
                (\<lambda>x. word_rotr 17 x XOR word_rotr 19 x XOR drop_bit 10 x) m;
          rnd = fips_round (\<lambda>x. word_rotr 2 x XOR word_rotr 13 x XOR word_rotr 22 x)
                  (\<lambda>x. word_rotr 6 x XOR word_rotr 11 x XOR word_rotr 25 x)
      in fips_add (foldl (\<lambda>s t. rnd (K_32 ! t) (W t) s) H [0..<64]) H)"

definition fips_compress_512 :: "u64 vars \<Rightarrow> u64 list \<Rightarrow> u64 vars" where
  "fips_compress_512 H m =
     (let W = fips_W (\<lambda>x. word_rotr 1 x XOR word_rotr 8 x XOR drop_bit 7 x)
                (\<lambda>x. word_rotr 19 x XOR word_rotr 61 x XOR drop_bit 6 x) m;
          rnd = fips_round (\<lambda>x. word_rotr 28 x XOR word_rotr 34 x XOR word_rotr 39 x)
                  (\<lambda>x. word_rotr 14 x XOR word_rotr 18 x XOR word_rotr 41 x)
      in fips_add (foldl (\<lambda>s t. rnd (K_64 ! t) (W t) s) H [0..<80]) H)"

section \<open>The in-place schedule computes the FIPS schedule\<close>

text \<open>A window of sixteen schedule words slides over the FIPS sequence: after \<open>i\<close> of the sixteen
  assignments the first \<open>i\<close> variables hold the next sixteen positions.\<close>

locale sha2_schedule =
  fixes s0 s1 :: "'a::len word \<Rightarrow> 'a word"
    and M :: "'a word list \<Rightarrow> nat \<Rightarrow> nat \<Rightarrow> nat \<Rightarrow> nat \<Rightarrow> 'a word list"
  assumes M_step: "M w i0 i14 i9 i1 = w[i0 := s1 (w ! i14) + w ! i9 + s0 (w ! i1) + w ! i0]"
begin

definition window :: "'a word list \<Rightarrow> nat \<Rightarrow> nat \<Rightarrow> 'a word list" where
  "window m j i = map (\<lambda>k. fips_W s0 s1 m (if k < i then j + 16 + k else j + k)) [0..<16]"

lemma M_window:
  assumes "i < 16"
  shows "M (window m j i) i ((i + 14) mod 16) ((i + 9) mod 16) (Suc i mod 16) = window m j (Suc i)"
proof -
  have nth: "window m j i ! ((i + d) mod 16) = fips_W s0 s1 m (j + i + d)" if "d < 16" "d = 0 \<or> 0 < d" for d
  proof (cases "i + d < 16")
    case True then show ?thesis by (simp add: window_def ac_simps)
  next
    case False
    then have "(i + d) mod 16 = i + d - 16" using that assms by (simp add: mod_if)
    moreover have "i + d - 16 < i" "i + d - 16 < 16" using False that assms by simp_all
    ultimately show ?thesis using False by (simp add: window_def ac_simps)
  qed
  have "fips_W s0 s1 m (j + i + 16) = s1 (fips_W s0 s1 m (j + i + 14)) + fips_W s0 s1 m (j + i + 9)
     + s0 (fips_W s0 s1 m (j + i + 1)) + fips_W s0 s1 m (j + i)"
    by (subst fips_W.simps) (simp add: numeral_eq_Suc)
  with nth [of 14] nth [of 9] nth [of 1] nth [of 0] assms
  have "M (window m j i) i ((i + 14) mod 16) ((i + 9) mod 16) (Suc i mod 16)
      = (window m j i)[i := fips_W s0 s1 m (j + 16 + i)]"
    by (simp add: M_step ac_simps)
  also have "\<dots> = window m j (Suc i)"
    using assms by (intro nth_equalityI) (auto simp: window_def nth_list_update less_Suc_eq)
  finally show ?thesis .
qed

lemma expand_lines_eq:
  "expand_lines = map (\<lambda>i. (i, (i + 14) mod 16, (i + 9) mod 16, (i + 1) mod 16)) [0..<16]"
  by code_simp

lemma expand_window:
  "foldl (\<lambda>w (i0, i14, i9, i1). M w i0 i14 i9 i1) (window m j 0) expand_lines = window m (j + 16) 0"
proof -
  have "n \<le> 16 \<Longrightarrow> foldl (\<lambda>w (i0, i14, i9, i1). M w i0 i14 i9 i1) (window m j 0)
      (map (\<lambda>i. (i, (i + 14) mod 16, (i + 9) mod 16, (i + 1) mod 16)) [0..<n]) = window m j n" for n
    by (induction n) (simp_all add: M_window)
  from this [of 16] show ?thesis
    by (simp add: expand_lines_eq) (simp add: window_def ac_simps)
qed

lemma window_start: "length m = 16 \<Longrightarrow> window m 0 0 = m"
  by (rule nth_equalityI) (simp_all add: window_def fips_W.simps)

end

interpretation sched32: sha2_schedule sigma0_32 sigma1_32 M_32
  by unfold_locales (simp add: M_32_def spx_add32_4_def ac_simps)
interpretation sched64: sha2_schedule sigma0_64 sigma1_64 M_64
  by unfold_locales (simp add: M_64_def spx_add64_4_def ac_simps)

lemma fips_sigmas_32:
  "sigma0_32 = (\<lambda>x. word_rotr 7 x XOR word_rotr 18 x XOR drop_bit 3 x)"
  "sigma1_32 = (\<lambda>x. word_rotr 17 x XOR word_rotr 19 x XOR drop_bit 10 x)"
  "Sigma0_32 = (\<lambda>x. word_rotr 2 x XOR word_rotr 13 x XOR word_rotr 22 x)"
  "Sigma1_32 = (\<lambda>x. word_rotr 6 x XOR word_rotr 11 x XOR word_rotr 25 x)"
  by (auto simp: fun_eq_iff sigma0_32_def sigma1_32_def Sigma0_32_def Sigma1_32_def ROTR_32_rotr)

lemma fips_sigmas_64:
  "sigma0_64 = (\<lambda>x. word_rotr 1 x XOR word_rotr 8 x XOR drop_bit 7 x)"
  "sigma1_64 = (\<lambda>x. word_rotr 19 x XOR word_rotr 61 x XOR drop_bit 6 x)"
  "Sigma0_64 = (\<lambda>x. word_rotr 28 x XOR word_rotr 34 x XOR word_rotr 39 x)"
  "Sigma1_64 = (\<lambda>x. word_rotr 14 x XOR word_rotr 18 x XOR word_rotr 41 x)"
  by (auto simp: fun_eq_iff sigma0_64_def sigma1_64_def Sigma0_64_def Sigma1_64_def ROTR_64_rotr)

lemma vars_cases:
  obtains a b c d e f g h where "s = (a, b, c, d, e, f, g, h)"
  by (metis surj_pair)

lemma F_32_fips: "F_32 w k s = fips_round Sigma0_32 Sigma1_32 k w s"
  by (cases s rule: vars_cases) (simp add: spx_add32_5_def spx_add32_4_def Let_def ac_simps)

lemma F_64_fips: "F_64 w k s = fips_round Sigma0_64 Sigma1_64 k w s"
  by (cases s rule: vars_cases) (simp add: spx_add64_5_def spx_add64_4_def Let_def ac_simps)

lemma add_vars_fips: "add_vars_32 x y = fips_add x y" "add_vars_64 u v = fips_add u v"
  by (cases x rule: vars_cases; cases y rule: vars_cases; simp)
     (cases u rule: vars_cases; cases v rule: vars_cases; simp)

lemma zip_window:
  "j + n \<le> length K \<Longrightarrow>
    zip (map (\<lambda>k. f (j + k)) [0..<n]) (take n (drop j K)) = map (\<lambda>t. (f t, K ! t)) [j..<j + n]"
  by (rule nth_equalityI) auto

lemma length_K: "length K_32 = 64" "length K_64 = 80"
  by (simp_all add: K_32_def K_64_def)

lemma rounds_32_window:
  "j + 16 \<le> 64 \<Longrightarrow> rounds_32 (sched32.window m j 0) (take 16 (drop j K_32)) s =
    foldl (\<lambda>s t. F_32 (fips_W sigma0_32 sigma1_32 m t) (K_32 ! t) s) s [j..<j + 16]"
  by (simp add: rounds_32_def sched32.window_def zip_window length_K foldl_map)

lemma rounds_64_window:
  "j + 16 \<le> 80 \<Longrightarrow> rounds_64 (sched64.window m j 0) (take 16 (drop j K_64)) s =
    foldl (\<lambda>s t. F_64 (fips_W sigma0_64 sigma1_64 m t) (K_64 ! t) s) s [j..<j + 16]"
  by (simp add: rounds_64_def sched64.window_def zip_window length_K foldl_map)

lemma EXPAND_window:
  "EXPAND_32 (sched32.window m j 0) = sched32.window m (j + 16) 0"
  "EXPAND_64 (sched64.window m' j 0) = sched64.window m' (j + 16) 0"
  by (simp_all add: EXPAND_32_def EXPAND_64_def sched32.expand_window sched64.expand_window)

lemma block_sha256_fips:
  "block_sha256 state inp =
    fips_compress_256 state (map (\<lambda>i. load_bigendian_32 (drop (4 * i) inp)) [0..<16])"
proof -
  define m where "m = map (\<lambda>i. load_bigendian_32 (drop (4 * i) inp)) [0..<16]"
  have m: "m = sched32.window m 0 0" by (simp add: sched32.window_start m_def)
  let ?r = "\<lambda>s t. F_32 (fips_W sigma0_32 sigma1_32 m t) (K_32 ! t) s"
  have "[0..<64] = [0..<16] @ [16..<32] @ [32..<48] @ [48..<64::nat]"
    by code_simp
  then have "block_sha256 state inp = add_vars_32 (foldl ?r state [0..<64]) state"
    using rounds_32_window [of 0 m] rounds_32_window [of 16 m] rounds_32_window [of 32 m]
      rounds_32_window [of 48 m] EXPAND_window(1) [of m 0] EXPAND_window(1) [of m 16] EXPAND_window(1) [of m 32]
    unfolding block_sha256_def m_def [symmetric] Let_def by (simp flip: m)
  then show ?thesis
    by (simp add: fips_compress_256_def F_32_fips add_vars_fips fips_sigmas_32 m_def)
qed

lemma block_sha512_fips:
  "block_sha512 state inp =
    fips_compress_512 state (map (\<lambda>i. load_bigendian_64 (drop (8 * i) inp)) [0..<16])"
proof -
  define m where "m = map (\<lambda>i. load_bigendian_64 (drop (8 * i) inp)) [0..<16]"
  have m: "m = sched64.window m 0 0" by (simp add: sched64.window_start m_def)
  let ?r = "\<lambda>s t. F_64 (fips_W sigma0_64 sigma1_64 m t) (K_64 ! t) s"
  have "[0..<80] = [0..<16] @ [16..<32] @ [32..<48] @ [48..<64] @ [64..<80::nat]"
    by code_simp
  then have "block_sha512 state inp = add_vars_64 (foldl ?r state [0..<80]) state"
    using rounds_64_window [of 0 m] rounds_64_window [of 16 m] rounds_64_window [of 32 m]
      rounds_64_window [of 48 m] rounds_64_window [of 64 m]
      EXPAND_window(2) [of m 0] EXPAND_window(2) [of m 16] EXPAND_window(2) [of m 32] EXPAND_window(2) [of m 48]
    unfolding block_sha512_def m_def [symmetric] Let_def by (simp flip: m)
  then show ?thesis
    by (simp add: fips_compress_512_def F_64_fips add_vars_fips fips_sigmas_64 m_def)
qed

end
