(* ===== verification/Sha2_Inc.thy ===== *)
theory Sha2_Inc
  imports Sha2
begin

text \<open>
  The incremental SHA-256 and SHA-512 interface of \<open>sphincsplus/ref/sha2.c\<close>
  (\<open>sha256_inc_init\<close>, \<open>sha256_inc_blocks\<close>, \<open>sha256_inc_finalize\<close>, \<open>sha256\<close>, \<open>mgf1_256\<close> and the
  SHA-512 versions).  All of it calls the block function through the dispatcher's function pointer
  (\<open>spx_sha256_hashblocks_impl\<close>), so the block function is the argument \<open>hb\<close> of every definition.
  The contract the callers rely on is the locale \<open>hashblocks\<close>; the reference implementations
  are interpreted below.  The main result: absorbing a message in pieces and finalizing
  is hashing the padded whole message.
\<close>

text \<open>The SHA-256 functions return a \<open>size_t\<close>, the SHA-512 functions an \<open>int\<close>; no caller uses it.\<close>

type_synonym hashblocks_fn = "bytes \<Rightarrow> bytes \<Rightarrow> bytes \<times> nat"
type_synonym hashblocks512_fn = "bytes \<Rightarrow> bytes \<Rightarrow> bytes \<times> int"

section \<open>SHA-256\<close>

text \<open>The block function updates the first 32 bytes of the 40-byte state buffer.\<close>

definition crypto_hashblocks_sha256 :: "hashblocks_fn \<Rightarrow> bytes \<Rightarrow> bytes \<Rightarrow> bytes" where
  "crypto_hashblocks_sha256 hb statebytes inp = put_bytes 0 (fst (hb (take 32 statebytes) inp)) statebytes"

definition sha256_inc_init :: bytes where
  "sha256_inc_init = iv_256 @ replicate 8 0"

definition sha256_inc_blocks :: "hashblocks_fn \<Rightarrow> bytes \<Rightarrow> bytes \<Rightarrow> nat \<Rightarrow> bytes" where
  "sha256_inc_blocks hb state inp inblocks =
     (let bytes = load_bigendian_64 (drop 32 state);
          state = crypto_hashblocks_sha256 hb state (take (64 * inblocks) inp);
          bytes = bytes + of_nat (64 * inblocks)
      in put_bytes 32 (store_bigendian_64 bytes) state)"

text \<open>The eight length bytes \<open>padded[56..63]\<close> (or \<open>[120..127]\<close>).\<close>

definition sha256_length_bytes :: "u64 \<Rightarrow> bytes" where
  "sha256_length_bytes bytes =
     [ucast (drop_bit 53 bytes), ucast (drop_bit 45 bytes), ucast (drop_bit 37 bytes),
      ucast (drop_bit 29 bytes), ucast (drop_bit 21 bytes), ucast (drop_bit 13 bytes),
      ucast (drop_bit 5 bytes), ucast (push_bit 3 bytes)]"

text \<open>\<open>sha256_inc_finalize\<close>: the result is \<open>out\<close>; every caller discards the state afterwards.\<close>

definition sha256_inc_finalize :: "hashblocks_fn \<Rightarrow> bytes \<Rightarrow> bytes \<Rightarrow> bytes" where
  "sha256_inc_finalize hb state inp =
     (let bytes = load_bigendian_64 (drop 32 state) + of_nat (length inp);
          state = crypto_hashblocks_sha256 hb state inp;
          inlen = length inp mod 64;
          rest = drop (length inp - inlen) inp;
          state =
            (if inlen < 56
             then crypto_hashblocks_sha256 hb state
                    (rest @ [0x80] @ replicate (56 - (inlen + 1)) 0 @ sha256_length_bytes bytes)
             else crypto_hashblocks_sha256 hb state
                    (rest @ [0x80] @ replicate (120 - (inlen + 1)) 0 @ sha256_length_bytes bytes))
      in take 32 state)"

definition sha256 :: "hashblocks_fn \<Rightarrow> bytes \<Rightarrow> bytes" where
  "sha256 hb inp = sha256_inc_finalize hb sha256_inc_init inp"

section \<open>SHA-512\<close>

definition crypto_hashblocks_sha512 :: "hashblocks512_fn \<Rightarrow> bytes \<Rightarrow> bytes \<Rightarrow> bytes" where
  "crypto_hashblocks_sha512 hb statebytes inp = put_bytes 0 (fst (hb (take 64 statebytes) inp)) statebytes"

definition sha512_inc_init :: bytes where
  "sha512_inc_init = iv_512 @ replicate 8 0"

definition sha512_inc_blocks :: "hashblocks512_fn \<Rightarrow> bytes \<Rightarrow> bytes \<Rightarrow> nat \<Rightarrow> bytes" where
  "sha512_inc_blocks hb state inp inblocks =
     (let bytes = load_bigendian_64 (drop 64 state);
          state = crypto_hashblocks_sha512 hb state (take (128 * inblocks) inp);
          bytes = bytes + of_nat (128 * inblocks)
      in put_bytes 64 (store_bigendian_64 bytes) state)"

text \<open>The nine length bytes \<open>padded[119..127]\<close> (or \<open>[247..255]\<close>).\<close>

definition sha512_length_bytes :: "u64 \<Rightarrow> bytes" where
  "sha512_length_bytes bytes = ucast (drop_bit 61 bytes) # sha256_length_bytes bytes"

definition sha512_inc_finalize :: "hashblocks512_fn \<Rightarrow> bytes \<Rightarrow> bytes \<Rightarrow> bytes" where
  "sha512_inc_finalize hb state inp =
     (let bytes = load_bigendian_64 (drop 64 state) + of_nat (length inp);
          state = crypto_hashblocks_sha512 hb state inp;
          inlen = length inp mod 128;
          rest = drop (length inp - inlen) inp;
          state =
            (if inlen < 112
             then crypto_hashblocks_sha512 hb state
                    (rest @ [0x80] @ replicate (119 - (inlen + 1)) 0 @ sha512_length_bytes bytes)
             else crypto_hashblocks_sha512 hb state
                    (rest @ [0x80] @ replicate (247 - (inlen + 1)) 0 @ sha512_length_bytes bytes))
      in take 64 state)"

definition sha512 :: "hashblocks512_fn \<Rightarrow> bytes \<Rightarrow> bytes" where
  "sha512 hb inp = sha512_inc_finalize hb sha512_inc_init inp"

section \<open>MGF1\<close>

text \<open>The loop counter \<open>i\<close>, with the bytes written to \<open>out\<close> so far.\<close>

function mgf1_256_loop :: "hashblocks_fn \<Rightarrow> bytes \<Rightarrow> nat \<Rightarrow> nat \<Rightarrow> bytes \<Rightarrow> bytes" where
  "mgf1_256_loop hb inp outlen i out =
     (if (i + 1) * SPX_SHA256_OUTPUT_BYTES \<le> outlen
      then mgf1_256_loop hb inp outlen (i + 1) (out @ sha256 hb (inp @ u32_to_bytes (of_nat i)))
      else if outlen > i * SPX_SHA256_OUTPUT_BYTES
      then out @ take (outlen - i * SPX_SHA256_OUTPUT_BYTES) (sha256 hb (inp @ u32_to_bytes (of_nat i)))
      else out)"
  by pat_completeness auto
termination
  by (relation "measure (\<lambda>(hb, inp, outlen, i, out). outlen - i * 32)") auto

function mgf1_512_loop :: "hashblocks512_fn \<Rightarrow> bytes \<Rightarrow> nat \<Rightarrow> nat \<Rightarrow> bytes \<Rightarrow> bytes" where
  "mgf1_512_loop hb inp outlen i out =
     (if (i + 1) * SPX_SHA512_OUTPUT_BYTES \<le> outlen
      then mgf1_512_loop hb inp outlen (i + 1) (out @ sha512 hb (inp @ u32_to_bytes (of_nat i)))
      else if outlen > i * SPX_SHA512_OUTPUT_BYTES
      then out @ take (outlen - i * SPX_SHA512_OUTPUT_BYTES) (sha512 hb (inp @ u32_to_bytes (of_nat i)))
      else out)"
  by pat_completeness auto
termination
  by (relation "measure (\<lambda>(hb, inp, outlen, i, out). outlen - i * 64)") auto

declare mgf1_256_loop.simps [simp del]
declare mgf1_512_loop.simps [simp del]

definition mgf1_256 :: "hashblocks_fn \<Rightarrow> nat \<Rightarrow> bytes \<Rightarrow> bytes" where
  "mgf1_256 hb outlen inp = mgf1_256_loop hb inp outlen 0 []"

definition mgf1_512 :: "hashblocks512_fn \<Rightarrow> nat \<Rightarrow> bytes \<Rightarrow> bytes" where
  "mgf1_512 hb outlen inp = mgf1_512_loop hb inp outlen 0 []"

section \<open>The contract of a block function\<close>

text \<open>
  What the incremental interface relies on: a block function keeps the state's size, ignores a
  partial block, and consumes its input block after block.
\<close>

locale hashblocks =
  fixes hb :: "bytes \<Rightarrow> bytes \<Rightarrow> bytes \<times> 'n" and blk :: nat and slen :: nat
  assumes blk_pos: "0 < blk"
    and hb_length: "length st = slen \<Longrightarrow> length (fst (hb st inp)) = slen"
    and hb_short: "length st = slen \<Longrightarrow> length inp < blk \<Longrightarrow> fst (hb st inp) = st"
    and hb_block: "length st = slen \<Longrightarrow> length b = blk \<Longrightarrow>
        fst (hb st (b @ inp)) = fst (hb (fst (hb st b)) inp)"
begin

lemma hb_append:
  "length st = slen \<Longrightarrow> length xs = n * blk \<Longrightarrow>
    fst (hb st (xs @ ys)) = fst (hb (fst (hb st xs)) ys)"
proof (induction n arbitrary: st xs)
  case 0
  then show ?case using hb_short [of st "[]"] blk_pos by simp
next
  case (Suc n)
  define b r where "b = take blk xs" and "r = drop blk xs"
  have xs: "xs = b @ r" and b: "length b = blk" and r: "length r = n * blk"
    using Suc.prems by (simp_all add: b_def r_def)
  have "fst (hb st (xs @ ys)) = fst (hb (fst (hb st b)) (r @ ys))"
    by (simp add: xs hb_block [OF Suc.prems(1) b])
  also have "\<dots> = fst (hb (fst (hb (fst (hb st b)) r)) ys)"
    by (intro Suc.IH hb_length Suc.prems(1) r)
  also have "fst (hb (fst (hb st b)) r) = fst (hb st xs)"
    by (simp add: xs hb_block [OF Suc.prems(1) b])
  finally show ?case .
qed

lemma hb_rest:
  fixes inp :: bytes
  assumes "length st = slen"
  defines "k \<equiv> length inp - length inp mod blk"
  shows "fst (hb st inp) = fst (hb st (take k inp))"
proof -
  have k: "k = (length inp div blk) * blk"
    by (simp add: k_def minus_mod_eq_div_mult)
  have "fst (hb st (take k inp @ drop k inp)) = fst (hb (fst (hb st (take k inp))) (drop k inp))"
  proof (rule hb_append [OF assms(1)])
    show "length (take k inp) = length inp div blk * blk"
      using k div_times_less_eq_dividend [of "length inp" blk] by simp
  qed
  also have "\<dots> = fst (hb st (take k inp))"
  proof (rule hb_short)
    have "length (drop k inp) = length inp mod blk" by (simp add: k_def)
    then show "length (drop k inp) < blk" using blk_pos by simp
  qed (simp add: hb_length assms(1))
  finally show ?thesis by simp
qed

end

text \<open>The two uses: SHA-256 has 64-byte blocks and a 32-byte state, SHA-512 twice that.\<close>

locale sha256_backend = hashblocks hb 64 32 for hb :: hashblocks_fn

locale sha512_backend = hashblocks hb 128 64 for hb :: hashblocks512_fn

section \<open>Hashing the padded message\<close>

definition sha256_pad :: "bytes \<Rightarrow> bytes" where
  "sha256_pad m =
     m @ [0x80] @ replicate ((119 - length m mod 64) mod 64) 0 @ be_bytes 8 (of_nat (8 * length m))"

definition sha256_md :: "hashblocks_fn \<Rightarrow> bytes \<Rightarrow> bytes" where
  "sha256_md hb m = fst (hb iv_256 (sha256_pad m))"

text \<open>The incremental state after the whole blocks \<open>pre\<close>.\<close>

definition sha256_state :: "hashblocks_fn \<Rightarrow> bytes \<Rightarrow> bytes" where
  "sha256_state hb pre = fst (hb iv_256 pre) @ store_bigendian_64 (of_nat (length pre))"

definition sha512_pad :: "bytes \<Rightarrow> bytes" where
  "sha512_pad m =
     m @ [0x80] @ replicate ((239 - length m mod 128) mod 128 + 7) 0
       @ ucast (drop_bit 61 (of_nat (length m) :: u64)) # be_bytes 8 (of_nat (8 * length m))"

definition sha512_md :: "hashblocks512_fn \<Rightarrow> bytes \<Rightarrow> bytes" where
  "sha512_md hb m = fst (hb iv_512 (sha512_pad m))"

lemma length_iv [simp]: "length iv_256 = 32" "length iv_512 = 64"
  by (simp_all add: iv_256_def iv_512_def)

lemma sha256_length_bytes_be: "sha256_length_bytes b = be_bytes 8 (8 * b)"
proof -
  have "8 * b = push_bit 3 b" by (simp add: push_bit_eq_mult)
  then show ?thesis
    by (auto simp: sha256_length_bytes_def be_bytes_def upt_8 bit_simps intro!: bit_word_eqI)
qed

lemma store_bigendian_64_0: "store_bigendian_64 0 = replicate 8 0"
  by (simp add: store_bigendian_64_def Let_def numeral_eq_Suc)

context sha256_backend
begin

lemma sha256_state_init: "sha256_inc_init = sha256_state hb []"
  by (simp add: sha256_inc_init_def sha256_state_def hb_short store_bigendian_64_0)

lemma length_sha256_state: "length (sha256_state hb pre) = 40"
  by (simp add: sha256_state_def hb_length)

lemma sha256_inc_blocks_state:
  assumes "length pre = k * 64" "length inp = 64 * n"
  shows "sha256_inc_blocks hb (sha256_state hb pre) inp n = sha256_state hb (pre @ inp)"
proof -
  have "fst (hb iv_256 (pre @ inp)) = fst (hb (fst (hb iv_256 pre)) inp)"
    by (rule hb_append) (simp_all add: assms(1))
  then show ?thesis
    using assms
    by (simp add: sha256_inc_blocks_def crypto_hashblocks_sha256_def sha256_state_def Let_def
        hb_length put_bytes_def)
qed

lemma sha256_inc_finalize_state:
  assumes pre: "length pre = k * 64"
  shows "sha256_inc_finalize hb (sha256_state hb pre) inp = sha256_md hb (pre @ inp)"
proof -
  define r where "r = length inp mod 64"
  define body rest where "body = take (length inp - r) inp" and "rest = drop (length inp - r) inp"
  define bytes :: u64 where "bytes = of_nat (length pre) + of_nat (length inp)"
  have inp: "inp = body @ rest" and rest: "length rest = r"
    by (simp_all add: body_def rest_def r_def)
  have body: "length body = (length inp div 64) * 64"
    by (simp add: body_def r_def minus_mod_eq_div_mult)
  have lenb: "sha256_length_bytes bytes = be_bytes 8 (of_nat (8 * length (pre @ inp)))"
    by (simp add: sha256_length_bytes_be bytes_def algebra_simps)
  have r: "length (pre @ inp) mod 64 = r" "r < 64"
    by (simp_all add: r_def pre)
  have absorb: "fst (hb (fst (hb iv_256 pre)) inp) = fst (hb iv_256 (pre @ body))"
  proof -
    have "fst (hb (fst (hb iv_256 pre)) inp) = fst (hb (fst (hb iv_256 pre)) body)"
      using hb_rest [of "fst (hb iv_256 pre)" inp] by (simp add: hb_length body_def r_def)
    then show ?thesis using hb_append [of iv_256 pre k body] pre by simp
  qed
  have tail: "fst (hb (fst (hb iv_256 (pre @ body))) x) = fst (hb iv_256 (pre @ body @ x))" for x
    using hb_append [of iv_256 "pre @ body" "k + length inp div 64" x] pre body
    by (simp add: algebra_simps)
  have pad: "sha256_pad (pre @ inp) = pre @ body @ rest @ [0x80] @
      replicate (if r < 56 then 55 - r else 119 - r) 0 @ sha256_length_bytes bytes"
  proof -
    have "(119 - r) mod 64 = (if r < 56 then 55 - r else 119 - r)"
      using r(2) by (auto simp: mod_if)
    then show ?thesis
      unfolding sha256_pad_def r(1) lenb using inp by simp
  qed
  have z: "56 - (r + 1) = 55 - r" "120 - (r + 1) = 119 - r" by simp_all
  show ?thesis
    unfolding sha256_inc_finalize_def Let_def r_def [symmetric] rest_def [symmetric]
    by (simp add: sha256_state_def crypto_hashblocks_sha256_def hb_length put_bytes_def absorb tail
        flip: bytes_def) (simp add: sha256_md_def pad)
qed

lemma sha256_eq_md: "sha256 hb inp = sha256_md hb inp"
  using sha256_inc_finalize_state [of "[]" 0] by (simp add: sha256_def sha256_state_init)

lemma length_sha256_md: "length (sha256_md hb m) = 32"
  by (simp add: sha256_md_def hb_length)

end

context sha512_backend
begin

lemma sha512_eq_md: "sha512 hb inp = sha512_md hb inp"
proof -
  define r where "r = length inp mod 128"
  define body rest where "body = take (length inp - r) inp" and "rest = drop (length inp - r) inp"
  define bytes :: u64 where "bytes = of_nat (length inp)"
  have inp: "inp = body @ rest" and rest: "length rest = r" and r: "r < 128"
    by (simp_all add: body_def rest_def r_def)
  have body: "length body = (length inp div 128) * 128"
    by (simp add: body_def r_def minus_mod_eq_div_mult)
  have lenb: "sha512_length_bytes bytes =
      ucast (drop_bit 61 (of_nat (length inp) :: u64)) # be_bytes 8 (of_nat (8 * length inp))"
    by (simp add: sha512_length_bytes_def sha256_length_bytes_be bytes_def)
  have absorb: "fst (hb iv_512 inp) = fst (hb iv_512 body)"
    using hb_rest [of iv_512 inp] by (simp add: body_def r_def)
  have tail: "fst (hb (fst (hb iv_512 body)) x) = fst (hb iv_512 (body @ x))" for x
    using hb_append [of iv_512 body "length inp div 128" x] body by simp
  have pad: "sha512_pad inp = body @ rest @ [0x80] @
      replicate (if r < 112 then 118 - r else 246 - r) 0 @ sha512_length_bytes bytes"
  proof -
    have "(239 - r) mod 128 + 7 = (if r < 112 then 118 - r else 246 - r)"
      using r by (auto simp: mod_if)
    then show ?thesis
      unfolding sha512_pad_def r_def [symmetric] lenb using inp by simp
  qed
  have z: "119 - (r + 1) = 118 - r" "247 - (r + 1) = 246 - r" by simp_all
  have load0: "load_bigendian_64 (replicate 8 0) = 0"
    using load_store_64 [of 0] by (simp add: store_bigendian_64_0)
  show ?thesis
    unfolding sha512_def sha512_inc_finalize_def Let_def r_def [symmetric] rest_def [symmetric]
    by (simp add: sha512_inc_init_def crypto_hashblocks_sha512_def hb_length put_bytes_def
        absorb tail load0 flip: bytes_def) (simp add: sha512_md_def pad)
qed

lemma length_sha512_md: "length (sha512_md hb m) = 64"
  by (simp add: sha512_md_def hb_length)

end

section \<open>The reference block functions keep the contract\<close>

lemmas state_bytes_simps = load_state_32.simps load_state_64.simps
  store_state_32.simps store_state_64.simps

lemma load_bigendian_append:
  "4 \<le> length xs \<Longrightarrow> load_bigendian_32 (xs @ ys) = load_bigendian_32 xs"
  "8 \<le> length xs \<Longrightarrow> load_bigendian_64 (xs @ ys) = load_bigendian_64 xs"
  by (auto simp: load_bigendian_32_def load_bigendian_64_def nth_append)

lemma block_append:
  "64 \<le> length b \<Longrightarrow> block_sha256 s (b @ inp) = block_sha256 s b"
  "128 \<le> length b \<Longrightarrow> block_sha512 s' (b @ inp) = block_sha512 s' b"
  unfolding block_sha256_fips block_sha512_fips
  by (rule arg_cong [where f = "fips_compress_256 s"] arg_cong [where f = "fips_compress_512 s'"],
      rule map_cong; simp add: load_bigendian_append)+

lemma load_store_state [simp]:
  "load_state_32 (store_state_32 s) = s" "load_state_64 (store_state_64 t) = t"
  by (cases s rule: vars_cases; simp add: state_bytes_simps load_bigendian_append)
     (cases t rule: vars_cases; simp add: state_bytes_simps load_bigendian_append)

lemma store_load_state:
  "length x = 32 \<Longrightarrow> store_state_32 (load_state_32 x) = x"
  "length y = 64 \<Longrightarrow> store_state_64 (load_state_64 y) = y"
proof -
  assume x: "length x = 32"
  have "store_bigendian_32 (ucast (load_bigendian_32 (drop k x))) = get_bytes k 4 x" if "k + 4 \<le> 32" for k
    using store_load_32 [of "take 4 (drop k x)"] that x
    by (simp add: get_bytes_def load_bigendian_32_def)
  note e = this this [of 0, simplified]
  show "store_state_32 (load_state_32 x) = x"
    using concat_pieces [of x 4 8] x by (simp add: state_bytes_simps e upt_8)
next
  assume y: "length y = 64"
  have "store_bigendian_64 (load_bigendian_64 (drop k y)) = get_bytes k 8 y" if "k + 8 \<le> 64" for k
    using store_load_64 [of "take 8 (drop k y)"] that y
    by (simp add: get_bytes_def load_bigendian_64_def)
  note e = this this [of 0, simplified]
  show "store_state_64 (load_state_64 y) = y"
    using concat_pieces [of y 8 8] y by (simp add: state_bytes_simps e upt_8)
qed

lemma length_store_state [simp]:
  "length (store_state_32 s) = 32" "length (store_state_64 t) = 64"
  by (cases s rule: vars_cases; simp add: state_bytes_simps)
     (cases t rule: vars_cases; simp add: state_bytes_simps)

interpretation ref256: sha256_backend crypto_hashblocks_sha256_ref
proof unfold_locales
  fix st inp b :: bytes
  show "length st = 32 \<Longrightarrow> length (fst (crypto_hashblocks_sha256_ref st inp)) = 32"
    by (simp add: crypto_hashblocks_sha256_ref_def split: prod.split)
  show "length st = 32 \<Longrightarrow> length inp < 64 \<Longrightarrow> fst (crypto_hashblocks_sha256_ref st inp) = st"
    by (simp add: crypto_hashblocks_sha256_ref_def blocks_loop_sha256.simps store_load_state)
  show "length st = 32 \<Longrightarrow> length b = 64 \<Longrightarrow>
      fst (crypto_hashblocks_sha256_ref st (b @ inp)) =
      fst (crypto_hashblocks_sha256_ref (fst (crypto_hashblocks_sha256_ref st b)) inp)"
    by (simp add: crypto_hashblocks_sha256_ref_def blocks_loop_sha256.simps [of _ b]
        blocks_loop_sha256.simps [of _ "b @ inp"] blocks_loop_sha256.simps [of _ "[]"] block_append
        split: prod.split)
qed simp

interpretation ref512: sha512_backend crypto_hashblocks_sha512_ref
proof unfold_locales
  fix st inp b :: bytes
  show "length st = 64 \<Longrightarrow> length (fst (crypto_hashblocks_sha512_ref st inp)) = 64"
    by (simp add: crypto_hashblocks_sha512_ref_def split: prod.split)
  show "length st = 64 \<Longrightarrow> length inp < 128 \<Longrightarrow> fst (crypto_hashblocks_sha512_ref st inp) = st"
    by (simp add: crypto_hashblocks_sha512_ref_def blocks_loop_sha512.simps store_load_state)
  show "length st = 64 \<Longrightarrow> length b = 128 \<Longrightarrow>
      fst (crypto_hashblocks_sha512_ref st (b @ inp)) =
      fst (crypto_hashblocks_sha512_ref (fst (crypto_hashblocks_sha512_ref st b)) inp)"
    by (simp add: crypto_hashblocks_sha512_ref_def blocks_loop_sha512.simps [of _ b]
        blocks_loop_sha512.simps [of _ "b @ inp"] blocks_loop_sha512.simps [of _ "[]"] block_append
        split: prod.split)
qed simp

end
