(* ===== verification/Hash_Sha2.thy ===== *)
theory Hash_Sha2
  imports Address Sha2_Inc
begin

text \<open>
  The tweakable hash functions of the SHA-2 instantiation: \<open>spx_ctx\<close> (\<open>context.h\<close>),
  \<open>seed_state\<close> (\<open>sha2.c\<close>), \<open>prf_addr\<close>, \<open>gen_message_random\<close>, \<open>mgf1_X_cached\<close>, \<open>hash_message\<close>
  (\<open>hash_sha2.c\<close>) and \<open>thash\<close> (\<open>thash_sha2_simple.c\<close>).  They are shown to be the functions
  FIPS 205 names PRF, F/H/T, PRF_msg (an HMAC) and H_msg (an MGF1) over the hash, although the
  code never builds the strings these are defined on.  \<open>hb\<close> is the dispatched SHA-256 block
  function.
\<close>

section \<open>Context\<close>

record spx_ctx =
  pub_seed :: bytes
  sk_seed :: bytes
  state_seeded :: bytes

definition seed_state :: "hashblocks_fn \<Rightarrow> spx_ctx \<Rightarrow> spx_ctx" where
  "seed_state hb ctx =
     (let block = take SPX_N (pub_seed ctx) @ replicate (SPX_SHA512_BLOCK_BYTES - SPX_N) 0
      in ctx\<lparr>state_seeded := sha256_inc_blocks hb sha256_inc_init block 1\<rparr>)"

definition initialize_hash_function :: "hashblocks_fn \<Rightarrow> spx_ctx \<Rightarrow> spx_ctx" where
  "initialize_hash_function hb ctx = seed_state hb ctx"

section \<open>Keyed and tweakable hashes\<close>

definition prf_addr :: "hashblocks_fn \<Rightarrow> spx_ctx \<Rightarrow> spx_addr \<Rightarrow> bytes" where
  "prf_addr hb ctx addr =
     (let buf = take SPX_SHA256_ADDR_BYTES addr @ take SPX_N (sk_seed ctx);
          outbuf = sha256_inc_finalize hb (state_seeded ctx) buf
      in take SPX_N outbuf)"

definition thash :: "hashblocks_fn \<Rightarrow> bytes \<Rightarrow> nat \<Rightarrow> spx_ctx \<Rightarrow> spx_addr \<Rightarrow> bytes" where
  "thash hb inp inblocks ctx addr =
     (let buf = take SPX_SHA256_ADDR_BYTES addr @ take (inblocks * SPX_N) inp;
          outbuf = sha256_inc_finalize hb (state_seeded ctx) buf
      in take SPX_N outbuf)"

text \<open>\<open>gen_message_random\<close>; \<open>m\<close> is the message, \<open>mlen\<close> its length.\<close>

definition gen_message_random :: "hashblocks_fn \<Rightarrow> bytes \<Rightarrow> bytes \<Rightarrow> bytes \<Rightarrow> bytes" where
  "gen_message_random hb sk_prf optrand m =
     (let buf = map (\<lambda>i. 0x36 XOR sk_prf ! i) [0..<SPX_N]
                  @ replicate (SPX_SHA256_BLOCK_BYTES - SPX_N) 0x36;
          state = sha256_inc_blocks hb sha256_inc_init buf 1;
          inner =
            (if SPX_N + length m < SPX_SHA256_BLOCK_BYTES
             then sha256_inc_finalize hb state (take SPX_N optrand @ m)
             else (let buf = take SPX_N optrand @ take (SPX_SHA256_BLOCK_BYTES - SPX_N) m;
                       state = sha256_inc_blocks hb state buf 1
                   in sha256_inc_finalize hb state (drop (SPX_SHA256_BLOCK_BYTES - SPX_N) m)));
          buf = map (\<lambda>i. 0x5c XOR sk_prf ! i) [0..<SPX_N]
                  @ replicate (SPX_SHA256_BLOCK_BYTES - SPX_N) 0x5c @ inner
      in take SPX_N (sha256 hb buf))"

text \<open>The counter loop of \<open>mgf1_X_cached\<close>: \<open>tail\<close> is the partial last block of the input, the
  midstate \<open>seeded_state\<close> has absorbed the full blocks.\<close>

function mgf1_X_cached_loop :: "hashblocks_fn \<Rightarrow> bytes \<Rightarrow> bytes \<Rightarrow> nat \<Rightarrow> nat \<Rightarrow> bytes \<Rightarrow> bytes" where
  "mgf1_X_cached_loop hb seeded_state tail outlen i out =
     (if (i + 1) * SPX_SHA256_OUTPUT_BYTES \<le> outlen
      then mgf1_X_cached_loop hb seeded_state tail outlen (i + 1)
             (out @ sha256_inc_finalize hb seeded_state (tail @ u32_to_bytes (of_nat i)))
      else if outlen > i * SPX_SHA256_OUTPUT_BYTES
      then out @ take (outlen - i * SPX_SHA256_OUTPUT_BYTES)
             (sha256_inc_finalize hb seeded_state (tail @ u32_to_bytes (of_nat i)))
      else out)"
  by pat_completeness auto
termination
  by (relation "measure (\<lambda>(hb, st, tail, outlen, i, out). outlen - i * 32)") auto

declare mgf1_X_cached_loop.simps [simp del]

definition mgf1_X_cached :: "hashblocks_fn \<Rightarrow> nat \<Rightarrow> bytes \<Rightarrow> bytes" where
  "mgf1_X_cached hb outlen inp =
     (let inblocks = length inp div SPX_SHA256_BLOCK_BYTES;
          inrem_ptr = drop (inblocks * SPX_SHA256_BLOCK_BYTES) inp;
          seeded_state =
            (if inblocks > 0 then sha256_inc_blocks hb sha256_inc_init inp inblocks
             else sha256_inc_init)
      in mgf1_X_cached_loop hb seeded_state inrem_ptr outlen 0 [])"

definition SPX_INBLOCKS :: nat where
  [simp, spx_param]: "SPX_INBLOCKS =
     (SPX_N + SPX_PK_BYTES + SPX_SHA256_BLOCK_BYTES - 1) div SPX_SHA256_BLOCK_BYTES"

text \<open>\<open>hash_message\<close> returns the FORS digest, the tree index and the leaf index.\<close>

definition hash_message :: "hashblocks_fn \<Rightarrow> bytes \<Rightarrow> bytes \<Rightarrow> bytes \<Rightarrow> bytes \<times> u64 \<times> u32" where
  "hash_message hb R pk m =
     (let state = sha256_inc_init;
          inbuf = take SPX_N R @ take SPX_PK_BYTES pk;
          room = SPX_INBLOCKS * SPX_SHA256_BLOCK_BYTES - SPX_N - SPX_PK_BYTES;
          seed =
            (if SPX_N + SPX_PK_BYTES + length m < SPX_INBLOCKS * SPX_SHA256_BLOCK_BYTES
             then sha256_inc_finalize hb state (inbuf @ m)
             else (let state = sha256_inc_blocks hb state (inbuf @ take room m) SPX_INBLOCKS
                   in sha256_inc_finalize hb state (drop room m)));
          buf = mgf1_X_cached hb SPX_DGST_BYTES (take SPX_N R @ take SPX_N pk @ seed);
          digest = take SPX_FORS_MSG_BYTES buf;
          bufp = drop SPX_FORS_MSG_BYTES buf;
          tree =
            (if SPX_D = 1 then 0
             else bytes_to_ull bufp SPX_TREE_BYTES AND drop_bit (64 - SPX_TREE_BITS) (NOT 0));
          bufp = drop SPX_TREE_BYTES bufp;
          leaf_idx = ucast (bytes_to_ull bufp SPX_LEAF_BYTES) AND drop_bit (32 - SPX_LEAF_BITS) (NOT 0)
      in (digest, tree, leaf_idx))"

section \<open>The functions of FIPS 205\<close>

definition fips205_PRF :: "hashblocks_fn \<Rightarrow> bytes \<Rightarrow> bytes \<Rightarrow> spx_addr \<Rightarrow> bytes" where
  "fips205_PRF hb PKseed SKseed ADRS =
     take 16 (sha256_md hb (PKseed @ replicate (64 - 16) 0 @ take 22 ADRS @ SKseed))"

definition fips205_T :: "hashblocks_fn \<Rightarrow> bytes \<Rightarrow> spx_addr \<Rightarrow> bytes \<Rightarrow> bytes" where
  "fips205_T hb PKseed ADRS M =
     take 16 (sha256_md hb (PKseed @ replicate (64 - 16) 0 @ take 22 ADRS @ M))"

definition hmac_sha256 :: "hashblocks_fn \<Rightarrow> bytes \<Rightarrow> bytes \<Rightarrow> bytes" where
  "hmac_sha256 hb key m =
     (let K0 = key @ replicate (64 - length key) 0
      in sha256_md hb (map (\<lambda>b. b XOR 0x5c) K0 @ sha256_md hb (map (\<lambda>b. b XOR 0x36) K0 @ m)))"

definition fips205_H_msg :: "hashblocks_fn \<Rightarrow> bytes \<Rightarrow> bytes \<Rightarrow> bytes \<Rightarrow> bytes \<Rightarrow> bytes" where
  "fips205_H_msg hb R PKseed PKroot M =
     mgf1_256 hb SPX_DGST_BYTES (R @ PKseed @ sha256_md hb (R @ PKseed @ PKroot @ M))"

text \<open>A context the code has initialised: the midstate has absorbed the padded public seed.\<close>

definition ctx_seeded :: "hashblocks_fn \<Rightarrow> spx_ctx \<Rightarrow> bool" where
  "ctx_seeded hb ctx \<longleftrightarrow> length (pub_seed ctx) = 16 \<and>
     state_seeded ctx = sha256_state hb (pub_seed ctx @ replicate 48 0)"

lemma and_low_mask: "x AND drop_bit (LENGTH('a) - n) (NOT 0) = take_bit n x"
  if "n \<le> LENGTH('a)" for x :: "'a::len word"
  using that by (auto simp: bit_simps intro!: bit_word_eqI)

lemma unat_take_bit_less: "unat (take_bit n x) < 2 ^ n" for x :: "'a::len word"
  by (simp add: unsigned_take_bit_eq)

lemma hash_message_bounds:
  assumes "hash_message hb R pk m = (digest, tree, leaf)"
  shows "unat tree < 2 ^ 24" "unat leaf < 2 ^ 6"
proof -
  have "\<exists>x. tree = take_bit 24 x"
    using assms and_low_mask [of 24, where 'a = 64] by (auto simp: hash_message_def Let_def)
  moreover have "\<exists>x. leaf = take_bit 6 x"
    using assms and_low_mask [of 6, where 'a = 32] by (auto simp: hash_message_def Let_def)
  ultimately show "unat tree < 2 ^ 24" "unat leaf < 2 ^ 6"
    using unat_take_bit_less [of 24] unat_take_bit_less [of 6] by auto
qed

context sha256_backend
begin

lemma ctx_seeded_init:
  assumes "length (pub_seed ctx) = 16"
  shows "ctx_seeded hb (initialize_hash_function hb ctx)"
proof -
  have "sha256_inc_blocks hb (sha256_state hb []) (pub_seed ctx @ replicate 112 0) 1 =
      sha256_inc_blocks hb (sha256_state hb []) (pub_seed ctx @ replicate 48 0) 1"
    using assms by (simp add: sha256_inc_blocks_def)
  then show ?thesis
    using assms sha256_inc_blocks_state [of "[]" 0 "pub_seed ctx @ replicate 48 0" 1]
    by (simp add: ctx_seeded_def initialize_hash_function_def seed_state_def sha256_state_init)
qed

lemma seeded_finalize:
  "ctx_seeded hb ctx \<Longrightarrow> sha256_inc_finalize hb (state_seeded ctx) x
    = sha256_md hb (pub_seed ctx @ replicate 48 0 @ x)"
  using sha256_inc_finalize_state [of "pub_seed ctx @ replicate 48 0" 1 x] by (simp add: ctx_seeded_def)

lemma thash_T:
  "ctx_seeded hb ctx \<Longrightarrow> length inp = inblocks * 16 \<Longrightarrow>
    thash hb inp inblocks ctx addr = fips205_T hb (pub_seed ctx) addr inp"
  by (simp add: thash_def fips205_T_def seeded_finalize)

lemma prf_addr_PRF:
  "ctx_seeded hb ctx \<Longrightarrow> length (sk_seed ctx) = 16 \<Longrightarrow>
    prf_addr hb ctx addr = fips205_PRF hb (pub_seed ctx) (sk_seed ctx) addr"
  by (simp add: prf_addr_def fips205_PRF_def seeded_finalize)

lemma length_thash [simp]: "ctx_seeded hb ctx \<Longrightarrow> length (thash hb inp n ctx addr) = 16"
  by (simp add: thash_def seeded_finalize length_sha256_md)

lemma length_prf_addr [simp]: "ctx_seeded hb ctx \<Longrightarrow> length (prf_addr hb ctx addr) = 16"
  by (simp add: prf_addr_def seeded_finalize length_sha256_md)

lemma gen_message_random_hmac:
  assumes "length sk_prf = 16" "length optrand = 16"
  shows "gen_message_random hb sk_prf optrand m = take 16 (hmac_sha256 hb sk_prf (optrand @ m))"
proof -
  define ipad where "ipad = map (\<lambda>b. b XOR 0x36) (sk_prf @ replicate 48 0)"
  have ip: "map (\<lambda>i. 0x36 XOR sk_prf ! i) [0..<16] @ replicate 48 0x36 = ipad"
    and len: "length ipad = 64"
    using assms(1) by (auto simp: ipad_def xor.commute intro!: nth_equalityI)
  have op: "map (\<lambda>i. 0x5c XOR sk_prf ! i) [0..<16] = map (\<lambda>b. b XOR 0x5c) sk_prf"
    using assms(1) by (auto simp: xor.commute intro!: nth_equalityI)
  have st: "sha256_inc_blocks hb sha256_inc_init ipad (Suc 0) = sha256_state hb ipad"
    using sha256_inc_blocks_state [of "[]" 0 ipad 1] len by (simp add: sha256_state_init)
  have short: "sha256_inc_finalize hb (sha256_state hb ipad) (optrand @ m) = sha256_md hb (ipad @ optrand @ m)"
    using sha256_inc_finalize_state [of ipad 1 "optrand @ m"] len by simp
  have long: "sha256_inc_finalize hb (sha256_inc_blocks hb (sha256_state hb ipad) (optrand @ take 48 m) (Suc 0))
      (drop 48 m) = sha256_md hb (ipad @ optrand @ m)" if "\<not> length m < 48"
    using that len assms(2) sha256_inc_blocks_state [of ipad 1 "optrand @ take 48 m" 1]
      sha256_inc_finalize_state [of "ipad @ optrand @ take 48 m" 2 "drop 48 m"]
    by simp
  have "gen_message_random hb sk_prf optrand m =
      take 16 (sha256 hb (map (\<lambda>b. b XOR 0x5c) (sk_prf @ replicate 48 0) @ sha256_md hb (ipad @ optrand @ m)))"
    using short long assms(2) by (simp add: gen_message_random_def Let_def ip op st)
  then show ?thesis
    by (simp add: hmac_sha256_def Let_def assms(1) sha256_eq_md ipad_def)
qed

lemma mgf1_cached_loop_eq:
  assumes "\<And>x. sha256_inc_finalize hb st (tail @ x) = sha256 hb (inp @ x)"
  shows "mgf1_X_cached_loop hb st tail outlen i out = mgf1_256_loop hb inp outlen i out"
  using assms
proof (induction hb inp outlen i out rule: mgf1_256_loop.induct)
  case (1 hb inp outlen i out)
  then show ?case
    by (subst mgf1_X_cached_loop.simps, subst mgf1_256_loop.simps) simp
qed

lemma mgf1_X_cached_eq: "mgf1_X_cached hb outlen inp = mgf1_256 hb outlen inp"
proof -
  define n where "n = length inp div 64"
  have n: "n * 64 \<le> length inp" by (simp add: n_def)
  have st: "(if n > 0 then sha256_inc_blocks hb sha256_inc_init inp n else sha256_inc_init)
      = sha256_state hb (take (n * 64) inp)"
  proof (cases "n = 0")
    case False
    have "sha256_inc_blocks hb sha256_inc_init inp n = sha256_inc_blocks hb sha256_inc_init (take (64 * n) inp) n"
      by (simp add: sha256_inc_blocks_def)
    also have "\<dots> = sha256_state hb (take (64 * n) inp)"
      using sha256_inc_blocks_state [of "[]" 0 "take (64 * n) inp" n] n by (simp add: sha256_state_init)
    finally show ?thesis using False by (simp add: mult.commute)
  qed (simp add: sha256_state_init)
  have "sha256_inc_finalize hb (sha256_state hb (take (n * 64) inp)) (drop (n * 64) inp @ x) = sha256 hb (inp @ x)" for x
    using sha256_inc_finalize_state [of "take (n * 64) inp" n "drop (n * 64) inp @ x"] n
    by (simp add: sha256_eq_md flip: append_assoc)
  from mgf1_cached_loop_eq [OF this] show ?thesis
    by (simp add: mgf1_X_cached_def mgf1_256_def Let_def st flip: n_def)
qed

lemma hash_message_H_msg:
  fixes R pk m :: bytes
  assumes "length R = 16" "length pk = 32"
  defines "D \<equiv> fips205_H_msg hb R (take 16 pk) (drop 16 pk) m"
  shows "hash_message hb R pk m =
    (take 16 D, take_bit 24 (bytes_to_ull (drop 16 D) 3), take_bit 6 (ucast (bytes_to_ull (drop 19 D) 1)))"
proof -
  have short: "sha256_inc_finalize hb sha256_inc_init (R @ pk @ m) = sha256_md hb (R @ pk @ m)"
    using sha256_inc_finalize_state [of "[]" 0 "R @ pk @ m"] by (simp add: sha256_state_init)
  have long: "sha256_inc_finalize hb (sha256_inc_blocks hb sha256_inc_init (R @ pk @ take 16 m) (Suc 0))
      (drop 16 m) = sha256_md hb (R @ pk @ m)" if "\<not> length m < 16"
    using that assms(1,2) sha256_inc_blocks_state [of "[]" 0 "R @ pk @ take 16 m" 1]
      sha256_inc_finalize_state [of "R @ pk @ take 16 m" 1 "drop 16 m"]
    by (simp add: sha256_state_init)
  have tp: "take 16 pk @ drop 16 pk @ m = pk @ m" by (metis append_assoc append_take_drop_id)
  have D: "D = mgf1_256 hb 20 (R @ take 16 pk @ sha256_md hb (R @ pk @ m))"
    unfolding D_def fips205_H_msg_def tp by simp
  show ?thesis
    using short long assms(1,2) and_low_mask [of 24, where 'a = 64] and_low_mask [of 6, where 'a = 32]
    by (simp add: hash_message_def Let_def mgf1_X_cached_eq D)
qed

end

end
