(* ===== verification/Tree_Hash.thy ===== *)
theory Tree_Hash
  imports Hash_Sha2
begin

text \<open>
  Merkle trees: \<open>compute_root\<close> and \<open>treehash\<close> (\<open>sphincsplus/ref/utils.c\<close>) and \<open>treehashx1\<close>
  (\<open>utilsx1.c\<close>).  The loops keep the node stack, the running address and the authentication
  path in flat buffers, as the code does.  The specification is the recursive tree
  \<open>merkle_node\<close>; the theorems show that the stack algorithms compute its root and the
  authentication path of the selected leaf, and that \<open>compute_root\<close> recomputes the root from
  a leaf and such a path.  A leaf generator is a function of the (offset) leaf index and its own
  info structure; the locale \<open>leaf_generator\<close> is the contract the callers discharge.
\<close>

section \<open>compute_root\<close>

function compute_root_loop :: "hashblocks_fn \<Rightarrow> spx_ctx \<Rightarrow> u32 \<Rightarrow> u32 \<Rightarrow> u32 \<Rightarrow> u32 \<Rightarrow> bytes \<Rightarrow> bytes
    \<Rightarrow> spx_addr \<Rightarrow> u32 \<times> u32 \<times> bytes \<times> spx_addr" where
  "compute_root_loop hb ctx tree_height i leaf_idx idx_offset buffer auth_path addr =
     (if i < tree_height - 1
      then (let leaf_idx = drop_bit 1 leaf_idx;
                idx_offset = drop_bit 1 idx_offset;
                addr = set_tree_height addr (i + 1);
                addr = set_tree_index addr (leaf_idx + idx_offset);
                buffer =
                  (if leaf_idx AND 1 \<noteq> 0
                   then put_bytes 0 (take SPX_N auth_path)
                          (put_bytes SPX_N (thash hb buffer 2 ctx addr) buffer)
                   else put_bytes SPX_N (take SPX_N auth_path)
                          (put_bytes 0 (thash hb buffer 2 ctx addr) buffer))
            in compute_root_loop hb ctx tree_height (i + 1) leaf_idx idx_offset buffer
                 (drop SPX_N auth_path) addr)
      else (leaf_idx, idx_offset, buffer, addr))"
  by pat_completeness auto
termination
  by (relation "measure (\<lambda>(hb, ctx, th, i, r). unat (th - 1) - unat i)")
    (auto intro: word_count_up)

declare compute_root_loop.simps [simp del]

definition compute_root :: "hashblocks_fn \<Rightarrow> bytes \<Rightarrow> u32 \<Rightarrow> u32 \<Rightarrow> bytes \<Rightarrow> u32 \<Rightarrow> spx_ctx \<Rightarrow> spx_addr
    \<Rightarrow> bytes \<times> spx_addr" where
  "compute_root hb leaf leaf_idx idx_offset auth_path tree_height ctx addr =
     (let buffer =
            (if leaf_idx AND 1 \<noteq> 0 then take SPX_N auth_path @ take SPX_N leaf
             else take SPX_N leaf @ take SPX_N auth_path);
          (leaf_idx, idx_offset, buffer, addr) =
            compute_root_loop hb ctx tree_height 0 leaf_idx idx_offset buffer
              (drop SPX_N auth_path) addr;
          leaf_idx = drop_bit 1 leaf_idx;
          idx_offset = drop_bit 1 idx_offset;
          addr = set_tree_height addr tree_height;
          addr = set_tree_index addr (leaf_idx + idx_offset)
      in (thash hb buffer 2 ctx addr, addr))"

text \<open>Only \<open>tree_height\<close> nodes of the authentication path are read.\<close>

lemma compute_root_loop_prefix:
  "16 * (unat (tree_height - 1) - unat i) \<le> length a \<Longrightarrow>
    compute_root_loop hb ctx tree_height i leaf_idx idx_offset buffer (a @ rest) addr =
    compute_root_loop hb ctx tree_height i leaf_idx idx_offset buffer a addr"
proof (induction "unat (tree_height - 1) - unat i" arbitrary: i leaf_idx idx_offset buffer a addr)
  case 0
  then have "\<not> i < tree_height - 1" by (simp add: word_less_nat_alt)
  then show ?case by (simp add: compute_root_loop.simps)
next
  case (Suc n)
  then have lt: "i < tree_height - 1" by (simp add: word_less_nat_alt)
  note u = unat_plus_one [OF lt]
  have "compute_root_loop hb ctx tree_height (i + 1) l o' b (drop 16 a @ rest) x =
      compute_root_loop hb ctx tree_height (i + 1) l o' b (drop 16 a) x" for l o' b x
    using Suc.hyps(2) Suc.prems u by (intro Suc.hyps(1)) auto
  moreover have "16 \<le> length a" using Suc.hyps(2) Suc.prems by simp
  ultimately show ?case
    using lt by (subst (1 2) compute_root_loop.simps) (simp add: Let_def)
qed

lemma compute_root_prefix:
  assumes "0 < tree_height" "16 * unat tree_height \<le> length a"
  shows "compute_root hb leaf leaf_idx idx_offset (a @ rest) tree_height ctx addr =
    compute_root hb leaf leaf_idx idx_offset a tree_height ctx addr"
proof -
  have u: "unat (tree_height - 1) = unat tree_height - 1" "0 < unat tree_height"
    using assms(1) by (simp_all add: unat_minus_one word_gt_0 unat_gt_0)
  then have "16 \<le> length a" "16 * (unat (tree_height - 1) - unat (0 :: u32)) \<le> length (drop 16 a)"
    using assms(2) by auto
  then show ?thesis
    using compute_root_loop_prefix [of tree_height 0 "drop 16 a"] by (simp add: compute_root_def)
qed

section \<open>treehashx1\<close>

text \<open>The inner loop either reaches the top of the tree, which returns the root from the function,
  or breaks at a left child at height \<open>h\<close> with the node in the second half of \<open>current\<close>.\<close>

datatype climb_result =
    Returned bytes bytes spx_addr
  | Broke u32 bytes bytes spx_addr

function treehashx1_climb :: "hashblocks_fn \<Rightarrow> spx_ctx \<Rightarrow> u32 \<Rightarrow> u32 \<Rightarrow> u32 \<Rightarrow> bytes \<Rightarrow> u32 \<Rightarrow> u32 \<Rightarrow> u32 \<Rightarrow> u32
    \<Rightarrow> bytes \<Rightarrow> bytes \<Rightarrow> spx_addr \<Rightarrow> climb_result" where
  "treehashx1_climb hb ctx tree_height max_idx idx stack h internal_idx internal_leaf
       internal_idx_offset current auth_path tree_addr =
     (if h = tree_height then Returned (get_bytes SPX_N SPX_N current) auth_path tree_addr
      else
        let auth_path =
              (if internal_idx XOR internal_leaf = 1
               then put_bytes (unat h * SPX_N) (get_bytes SPX_N SPX_N current) auth_path
               else auth_path)
        in if internal_idx AND 1 = 0 \<and> idx < max_idx then Broke h current auth_path tree_addr
           else
             let internal_idx_offset = drop_bit 1 internal_idx_offset;
                 tree_addr = set_tree_height tree_addr (h + 1);
                 tree_addr = set_tree_index tree_addr (internal_idx div 2 + internal_idx_offset);
                 current = put_bytes 0 (get_bytes (unat h * SPX_N) SPX_N stack) current;
                 current = put_bytes SPX_N (thash hb current 2 ctx tree_addr) current
             in treehashx1_climb hb ctx tree_height max_idx idx stack (h + 1)
                  (drop_bit 1 internal_idx) (drop_bit 1 internal_leaf) internal_idx_offset
                  current auth_path tree_addr)"
  by pat_completeness auto
termination
  by (relation "measure (\<lambda>(hb, ctx, th, mi, i, st, h, r). unat (th - h))")
    (auto intro: word_count_to)

declare treehashx1_climb.simps [simp del]

lemma treehashx1_climb_Broke:
  "treehashx1_climb hb ctx th max_idx idx stack h ii il io current auth_path addr = Broke h' c a t \<Longrightarrow>
    idx < max_idx"
proof (induction hb ctx th max_idx idx stack h ii il io current auth_path addr
    rule: treehashx1_climb.induct)
  case (1 hb ctx th max_idx idx stack h ii il io current auth_path addr)
  show ?case
    using 1 by (subst (asm) (2) treehashx1_climb.simps) (auto simp: Let_def split: if_splits)
qed

text \<open>A leaf generator maps the leaf index and its info to the leaf and the updated info.\<close>

type_synonym 'i gen_leaf = "u32 \<Rightarrow> 'i \<Rightarrow> bytes \<times> 'i"

function treehashx1_loop :: "hashblocks_fn \<Rightarrow> spx_ctx \<Rightarrow> u32 \<Rightarrow> u32 \<Rightarrow> u32 \<Rightarrow> 'i gen_leaf \<Rightarrow> u32 \<Rightarrow> u32
    \<Rightarrow> bytes \<Rightarrow> bytes \<Rightarrow> spx_addr \<Rightarrow> 'i \<Rightarrow> bytes \<times> bytes \<times> spx_addr \<times> 'i" where
  "treehashx1_loop hb ctx leaf_idx idx_offset tree_height gen_leaf max_idx idx stack auth_path tree_addr info =
     (let (leaf, info) = gen_leaf (idx + idx_offset) info;
          current = replicate SPX_N 0 @ leaf
      in case treehashx1_climb hb ctx tree_height max_idx idx stack 0 idx leaf_idx idx_offset
                current auth_path tree_addr of
           Returned root auth_path tree_addr \<Rightarrow> (root, auth_path, tree_addr, info)
         | Broke h current auth_path tree_addr \<Rightarrow>
             treehashx1_loop hb ctx leaf_idx idx_offset tree_height gen_leaf max_idx (idx + 1)
               (put_bytes (unat h * SPX_N) (get_bytes SPX_N SPX_N current) stack)
               auth_path tree_addr info)"
  by pat_completeness auto
termination
  by (relation "measure (\<lambda>(hb, ctx, li, io, th, g, max_idx, idx, r). unat max_idx - unat idx)")
    (auto intro: word_count_up dest!: treehashx1_climb_Broke)

declare treehashx1_loop.simps [simp del]

text \<open>\<open>treehashx1\<close> returns the root, the authentication path, the address and the generator's info.
  The stack is a local array whose initial contents are never read; it starts as zeros here, as
  does the first half of \<open>current\<close>.\<close>

definition treehashx1 :: "hashblocks_fn \<Rightarrow> bytes \<Rightarrow> spx_ctx \<Rightarrow> u32 \<Rightarrow> u32 \<Rightarrow> u32 \<Rightarrow> 'i gen_leaf
    \<Rightarrow> spx_addr \<Rightarrow> 'i \<Rightarrow> bytes \<times> bytes \<times> spx_addr \<times> 'i" where
  "treehashx1 hb auth_path ctx leaf_idx idx_offset tree_height gen_leaf tree_addr info =
     (let stack = replicate (unat tree_height * SPX_N) 0;
          max_idx = push_bit (unat tree_height) 1 - 1
      in treehashx1_loop hb ctx leaf_idx idx_offset tree_height gen_leaf max_idx 0 stack
           auth_path tree_addr info)"

section \<open>The Merkle tree\<close>

definition node_addr :: "spx_addr \<Rightarrow> u32 \<Rightarrow> nat \<Rightarrow> nat \<Rightarrow> spx_addr" where
  "node_addr addr off h i =
     set_tree_index (set_tree_height addr (of_nat h)) (of_nat i + drop_bit h off)"

primrec merkle_node :: "hashblocks_fn \<Rightarrow> spx_ctx \<Rightarrow> spx_addr \<Rightarrow> u32 \<Rightarrow> (nat \<Rightarrow> bytes) \<Rightarrow> nat \<Rightarrow> nat \<Rightarrow> bytes" where
  "merkle_node hb ctx addr off L 0 i = L i"
| "merkle_node hb ctx addr off L (Suc h) i =
     thash hb (merkle_node hb ctx addr off L h (2 * i) @ merkle_node hb ctx addr off L h (2 * i + 1)) 2
       ctx (node_addr addr off (Suc h) i)"

text \<open>The sibling of the ancestor of \<open>leaf\<close> at height \<open>h\<close>, and the authentication path of \<open>leaf\<close>.\<close>

definition sibling :: "u32 \<Rightarrow> nat \<Rightarrow> nat" where
  "sibling leaf h = unat (drop_bit h leaf XOR 1)"

definition auth_path_of :: "hashblocks_fn \<Rightarrow> spx_ctx \<Rightarrow> spx_addr \<Rightarrow> u32 \<Rightarrow> (nat \<Rightarrow> bytes) \<Rightarrow> nat \<Rightarrow> u32 \<Rightarrow> bytes" where
  "auth_path_of hb ctx addr off L th leaf =
     concat (map (\<lambda>h. merkle_node hb ctx addr off L h (sibling leaf h)) [0..<th])"

text \<open>The tree does not depend on what the address holds in its node fields.\<close>

lemma merkle_node_addr_cong:
  "agree_except node_fields a b \<Longrightarrow> merkle_node hb ctx a off L h i = merkle_node hb ctx b off L h i"
  by (induction h arbitrary: i) (simp_all add: node_addr_def node_addr_unique [of a b])

lemma auth_path_of_addr_cong:
  "agree_except node_fields a b \<Longrightarrow> auth_path_of hb ctx a off L th leaf = auth_path_of hb ctx b off L th leaf"
  unfolding auth_path_of_def by (simp add: merkle_node_addr_cong [of a b])

text \<open>A seeded hash context: what every tree operation runs in.\<close>

locale seeded = sha256_backend hb for hb :: hashblocks_fn +
  fixes ctx :: spx_ctx
  assumes seeded: "ctx_seeded hb ctx"
begin

lemma thash_len [simp]: "length (thash hb inp n ctx addr) = 16"
  by (simp add: seeded)

lemma prf_len [simp]: "length (prf_addr hb ctx addr) = 16"
  by (simp add: seeded)

lemma length_merkle_node:
  "(\<And>i. length (L i) = 16) \<Longrightarrow> length (merkle_node hb ctx addr off L h i) = 16"
  by (cases h) simp_all

lemma length_auth_path_of:
  "(\<And>i. length (L i) = 16) \<Longrightarrow> length (auth_path_of hb ctx addr off L th leaf) = 16 * th"
  unfolding auth_path_of_def
  by (subst length_concat_const [where k = 16]) (simp_all add: length_merkle_node)

lemma get_auth_path_of:
  "(\<And>i. length (L i) = 16) \<Longrightarrow> h < th \<Longrightarrow>
    get_bytes (16 * h) 16 (auth_path_of hb ctx addr off L th leaf)
      = merkle_node hb ctx addr off L h (sibling leaf h)"
  unfolding auth_path_of_def by (rule get_bytes_concat_map) (simp_all add: length_merkle_node)

end

section \<open>The stack invariant\<close>

text \<open>\<open>N h i\<close> is the node at height \<open>h\<close> and index \<open>i\<close>.  After \<open>k\<close> leaves the stack holds, for every bit
  \<open>h\<close> set in \<open>k\<close>, the complete subtree left of it; the authentication path holds the siblings
  whose subtrees are complete.  \<open>done_at leaf k j h\<close> additionally allows subtrees that end
  with leaf \<open>k\<close> below height \<open>j\<close>, which the inner loop has already passed.\<close>

definition stack_ok :: "(nat \<Rightarrow> nat \<Rightarrow> bytes) \<Rightarrow> nat \<Rightarrow> nat \<Rightarrow> bytes \<Rightarrow> bool" where
  "stack_ok N th k stack \<longleftrightarrow> length stack = 16 * th \<and>
     (\<forall>h<th. odd (k div 2 ^ h) \<longrightarrow> get_bytes (16 * h) 16 stack = N h (k div 2 ^ h - 1))"

definition done_at :: "u32 \<Rightarrow> nat \<Rightarrow> nat \<Rightarrow> nat \<Rightarrow> bool" where
  "done_at leaf k j h \<longleftrightarrow> Suc (sibling leaf h) * 2 ^ h \<le> k \<or> h < j \<and> Suc (sibling leaf h) * 2 ^ h = Suc k"

definition auth_ok :: "(nat \<Rightarrow> nat \<Rightarrow> bytes) \<Rightarrow> nat \<Rightarrow> u32 \<Rightarrow> (nat \<Rightarrow> bool) \<Rightarrow> bytes \<Rightarrow> bool" where
  "auth_ok N th leaf Q auth_path \<longleftrightarrow> length auth_path = 16 * th \<and>
     (\<forall>h<th. Q h \<longrightarrow> get_bytes (16 * h) 16 auth_path = N h (sibling leaf h))"

lemma stack_ok_step:
  assumes "stack_ok N th k stack" "j < th" "length (N j (k div 2 ^ j)) = 16"
    and "2 ^ j dvd Suc k" "even (k div 2 ^ j)"
  shows "stack_ok N th (Suc k) (put_bytes (16 * j) (N j (k div 2 ^ j)) stack)"
  unfolding stack_ok_def
proof (intro conjI allI impI)
  show "length (put_bytes (16 * j) (N j (k div 2 ^ j)) stack) = 16 * th"
    using assms by (simp add: stack_ok_def)
  fix h assume h: "h < th" "odd (Suc k div 2 ^ h)"
  from bits_Suc [OF assms(4,5) h(2)]
  show "get_bytes (16 * h) 16 (put_bytes (16 * j) (N j (k div 2 ^ j)) stack) = N h (Suc k div 2 ^ h - 1)"
    using assms h by (auto simp: get_put_piece [of _ 16 _ th] stack_ok_def Suc_div_dvd)
qed

lemma auth_ok_step:
  assumes "auth_ok N th leaf (done_at leaf k h) auth_path" "h < th" "length (N h (k div 2 ^ h)) = 16"
  shows "auth_ok N th leaf (done_at leaf k (Suc h))
    (if k div 2 ^ h = sibling leaf h then put_bytes (16 * h) (N h (k div 2 ^ h)) auth_path else auth_path)"
  unfolding auth_ok_def
proof (intro conjI allI impI)
  let ?a = "if k div 2 ^ h = sibling leaf h then put_bytes (16 * h) (N h (k div 2 ^ h)) auth_path else auth_path"
  show "length ?a = 16 * th" using assms by (auto simp: auth_ok_def)
  fix j assume j: "j < th" "done_at leaf k (Suc h) j"
  have "k div 2 ^ h = sibling leaf h" if "Suc (sibling leaf h) * 2 ^ h = Suc k"
    using div_of_Suc_mult [of k "2 ^ h" "Suc (sibling leaf h)"] that by (simp add: mult.commute)
  then show "get_bytes (16 * j) 16 ?a = N j (sibling leaf j)"
    using assms j by (auto simp: get_put_piece [of _ 16 _ th] auth_ok_def done_at_def less_Suc_eq)
qed

lemma auth_ok_mono:
  "auth_ok N th leaf Q auth_path \<Longrightarrow> (\<And>h. h < th \<Longrightarrow> R h \<Longrightarrow> Q h) \<Longrightarrow> auth_ok N th leaf R auth_path"
  by (simp add: auth_ok_def)

lemma xor_sibling: "unat (drop_bit h i) = sibling leaf h \<longleftrightarrow> drop_bit h i XOR drop_bit h leaf = 1"
proof -
  have cancel: "(a XOR b) XOR b = a" "b XOR (a XOR b) = a" for a b :: u32
    by (simp add: xor.assoc) (simp add: xor.left_commute)
  have "a XOR b = 1 \<longleftrightarrow> a = b XOR 1" for a b :: u32
    using cancel [of a b] cancel [of 1 b] by (metis xor.commute)
  then show ?thesis by (simp add: sibling_def word_unat_eq_iff)
qed

lemma sibling_less:
  assumes "unat leaf < 2 ^ th" "h < th"
  shows "sibling leaf h < 2 ^ (th - h)"
proof -
  have "unat (drop_bit h leaf) < 2 ^ (th - h)"
    using assms by (simp add: unat_drop_bit less_mult_imp_div_less flip: power_add)
  moreover have "(1::nat) < 2 ^ (th - h)" using assms(2) by (intro one_less_power) auto
  ultimately have "take_bit (th - h) (unat (drop_bit h leaf) XOR 1) = unat (drop_bit h leaf) XOR 1"
    by (simp only: take_bit_xor take_bit_nat_eq_self)
  then have "unat (drop_bit h leaf) XOR 1 < 2 ^ (th - h)"
    by (simp only: take_bit_nat_eq_self_iff)
  then show ?thesis
    by (simp add: sibling_def unsigned_xor_eq)
qed

lemma sibling_cases:
  "sibling leaf h = (let m = unat leaf div 2 ^ h in if odd m then m - 1 else m + 1)"
  by (simp add: sibling_def unsigned_xor_eq unat_drop_bit xor_Suc_0_eq Let_def)

lemma auth_complete:
  assumes "auth_ok (merkle_node hb ctx addr off L) th leaf (\<lambda>h. Suc (sibling leaf h) * 2 ^ h \<le> 2 ^ th) auth" "unat leaf < 2 ^ th"
  shows "auth = auth_path_of hb ctx addr off L th leaf"
proof -
  have "Suc (sibling leaf h) * 2 ^ h \<le> 2 ^ th" if "h < th" for h
    using sibling_less [OF assms(2) that] that
    by (metis Suc_leI le_add_diff_inverse2 less_imp_le mult_le_mono1 power_add)
  then have pieces: "get_bytes (16 * h) 16 auth = merkle_node hb ctx addr off L h (sibling leaf h)" if "h < th" for h
    using assms(1) that by (simp add: auth_ok_def)
  have "auth_path_of hb ctx addr off L th leaf = concat (map (\<lambda>h. get_bytes (16 * h) 16 auth) [0..<th])"
    unfolding auth_path_of_def by (intro arg_cong [where f = concat] map_cong refl) (simp add: pieces)
  then show ?thesis
    using concat_pieces [of auth 16 th] assms(1) by (simp add: auth_ok_def)
qed

section \<open>treehashx1 computes the Merkle tree\<close>

text \<open>The contract of a leaf generator: called for the leaves in order, it returns leaf \<open>L k\<close> and
  keeps an invariant \<open>P\<close> of its info that may depend on how many leaves it has produced.\<close>

locale leaf_generator = seeded hb ctx for hb :: hashblocks_fn and ctx :: spx_ctx +
  fixes gen :: "'i gen_leaf" and L :: "nat \<Rightarrow> bytes" and P :: "nat \<Rightarrow> 'i \<Rightarrow> bool"
    and off :: u32 and th :: nat
  assumes th_small: "th < 32"
    and length_L: "length (L i) = 16"
    and gen_L: "k < 2 ^ th \<Longrightarrow> P k info \<Longrightarrow> fst (gen (of_nat k + off) info) = L k"
    and gen_P: "k < 2 ^ th \<Longrightarrow> P k info \<Longrightarrow> P (Suc k) (snd (gen (of_nat k + off) info))"
begin

lemma length_node: "length (merkle_node hb ctx addr off L h i) = 16"
  by (rule length_merkle_node) (rule length_L)

lemma th_pow: "2 ^ th < (2::nat) ^ 32"
  using th_small by (metis one_less_numeral_iff power_strict_increasing_iff semiring_norm(76))

lemma unat_max_idx: "unat (2 ^ th - 1 :: u32) = 2 ^ th - 1"
proof -
  have "unat (of_nat (2 ^ th - 1) :: u32) = 2 ^ th - 1"
    using th_pow by (intro unat_of_nat_small) simp
  then show ?thesis by simp
qed

lemma climb_combine:
  assumes "agree_except node_fields addr addr0" "length c = 16"
    and "stack_ok (merkle_node hb ctx addr0 off L) th k stack" "h < th" "odd (k div 2 ^ h)" "k < 2 ^ th"
  defines "addr' \<equiv> set_tree_index (set_tree_height addr (of_nat h + 1))
      (drop_bit h (of_nat k) div 2 + drop_bit 1 (drop_bit h off))"
    and "cur \<equiv> put_bytes 0 (get_bytes (unat (of_nat h :: u32) * SPX_N) SPX_N stack)
      (c @ merkle_node hb ctx addr0 off L h (k div 2 ^ h))"
  shows "put_bytes SPX_N (thash hb cur 2 ctx addr') cur
      = merkle_node hb ctx addr0 off L h (k div 2 ^ h - 1) @ merkle_node hb ctx addr0 off L (Suc h) (k div 2 ^ Suc h)"
    and "agree_except node_fields addr' addr0"
proof -
  let ?N = "merkle_node hb ctx addr0 off L"
  have k: "unat (of_nat k :: u32) = k"
    using assms(6) th_pow by (intro unat_of_nat_small) simp
  have h: "unat (of_nat h :: u32) = h"
    using assms(4) th_small by (intro unat_of_nat_small) simp
  have left: "get_bytes (h * 16) 16 stack = ?N h (k div 2 ^ h - 1)"
    using assms by (simp add: stack_ok_def mult.commute)
  have cur: "cur = ?N h (k div 2 ^ h - 1) @ ?N h (k div 2 ^ h)"
    using assms(2) by (simp add: cur_def h left length_node put_bytes_append)
  have "k div 2 ^ Suc h < 2 ^ 32"
    using assms(6) th_pow by (meson div_le_dividend le_less_trans less_trans)
  then have u: "unat (of_nat (k div 2 ^ Suc h) :: u32) = k div 2 ^ Suc h"
    by (simp add: unat_of_nat_small)
  have idx: "drop_bit h (of_nat k) div 2 = (of_nat (k div 2 ^ Suc h) :: u32)"
    by (rule word_eq_unatI) (simp only: u unat_div unat_drop_bit k, simp add: div_mult2_eq mult.commute [of 2])
  have addr: "addr' = node_addr addr0 off (Suc h) (k div 2 ^ Suc h)"
    unfolding addr'_def node_addr_def idx
    using node_addr_unique [OF assms(1)] by (simp add: add.commute)
  have pair: "2 * (k div 2 ^ Suc h) = k div 2 ^ h - 1" "Suc (k div 2 ^ h - 1) = k div 2 ^ h"
    using assms(5) by (auto elim!: oddE simp: div_mult2_eq mult.commute [of 2])
  show "put_bytes SPX_N (thash hb cur 2 ctx addr') cur
      = ?N h (k div 2 ^ h - 1) @ ?N (Suc h) (k div 2 ^ Suc h)"
    using pair by (simp add: cur addr put_bytes_def length_node)
  show "agree_except node_fields addr' addr0"
    unfolding addr'_def by (rule agree_node_set) (rule assms(1))
qed

definition climb_ok :: "spx_addr \<Rightarrow> u32 \<Rightarrow> nat \<Rightarrow> climb_result \<Rightarrow> bool" where
  "climb_ok addr0 leaf k r = (let N = merkle_node hb ctx addr0 off L in
     case r of
       Returned root auth_path addr \<Rightarrow> Suc k = 2 ^ th \<and> root = N th 0 \<and>
         auth_ok N th leaf (\<lambda>h. Suc (sibling leaf h) * 2 ^ h \<le> Suc k) auth_path \<and>
         agree_except node_fields addr addr0
     | Broke h cur auth_path addr \<Rightarrow> Suc k < 2 ^ th \<and>
         (\<exists>j c. j < th \<and> h = of_nat j \<and> 2 ^ j dvd Suc k \<and> even (k div 2 ^ j) \<and>
            cur = c @ N j (k div 2 ^ j) \<and> length c = 16) \<and>
         auth_ok N th leaf (\<lambda>h. Suc (sibling leaf h) * 2 ^ h \<le> Suc k) auth_path \<and>
         agree_except node_fields addr addr0)"

lemma climb_correct:
  assumes "k < 2 ^ th" "h \<le> th" "2 ^ h dvd Suc k" "length c = 16"
    and "stack_ok (merkle_node hb ctx addr0 off L) th k stack"
    and "auth_ok (merkle_node hb ctx addr0 off L) th leaf (done_at leaf k h) auth_path"
    and "agree_except node_fields addr addr0"
  shows "climb_ok addr0 leaf k (treehashx1_climb hb ctx (of_nat th) (2 ^ th - 1) (of_nat k) stack
    (of_nat h) (drop_bit h (of_nat k)) (drop_bit h leaf) (drop_bit h off)
    (c @ merkle_node hb ctx addr0 off L h (k div 2 ^ h)) auth_path addr)"
  using assms(2-4,6,7)
proof (induction "th - h" arbitrary: h c auth_path addr)
  let ?N = "merkle_node hb ctx addr0 off L"
  case 0
  then have "h = th" by simp
  moreover have "Suc k = 2 ^ th"
    using 0 assms(1) by (metis Suc_leI \<open>h = th\<close> dvd_imp_le le_antisym zero_less_Suc)
  ultimately show ?case
    using 0 by (auto simp: treehashx1_climb.simps climb_ok_def get_bytes_append2 length_node done_at_def
        intro: auth_ok_mono)
next
  let ?N = "merkle_node hb ctx addr0 off L"
  case (Suc n)
  then have h: "h < th" by simp
  have uh: "unat (of_nat h :: u32) = h" "unat (of_nat th :: u32) = th"
    using h th_small by (simp_all add: unat_of_nat_small)
  then have ne: "(of_nat h :: u32) \<noteq> of_nat th" using h by (metis less_irrefl)
  have uk: "unat (of_nat k :: u32) = k"
    using assms(1) th_pow by (simp add: unat_of_nat_small)
  then have ud: "unat (drop_bit h (of_nat k :: u32)) = k div 2 ^ h" by (simp add: unat_drop_bit)
  let ?cur = "c @ ?N h (k div 2 ^ h)"
  let ?auth = "if k div 2 ^ h = sibling leaf h then put_bytes (16 * h) (?N h (k div 2 ^ h)) auth_path else auth_path"
  have node: "get_bytes 16 16 ?cur = ?N h (k div 2 ^ h)"
    using Suc.prems(3) by (simp add: get_bytes_append2 length_node)
  have auth: "auth_ok ?N th leaf (done_at leaf k (Suc h)) ?auth"
    using Suc.prems(4) h by (rule auth_ok_step) (rule length_node)
  show ?case
  proof (cases "even (k div 2 ^ h) \<and> Suc k < 2 ^ th")
    case True
    have "auth_ok ?N th leaf (\<lambda>j. Suc (sibling leaf j) * 2 ^ j \<le> Suc k) ?auth"
      using auth
    proof (rule auth_ok_mono)
      fix j assume "Suc (sibling leaf j) * 2 ^ j \<le> Suc k"
      moreover have "Suc (sibling leaf j) * 2 ^ j \<noteq> Suc k" if "h < j"
        using zero_bit_ndvd [of k h j] True that by (metis dvd_triv_right)
      ultimately show "done_at leaf k (Suc h) j"
        by (auto simp: done_at_def le_Suc_eq less_Suc_eq_le intro: leI)
    qed
    then have "climb_ok addr0 leaf k (Broke (of_nat h) ?cur ?auth addr)"
      using True Suc.prems h by (auto simp: climb_ok_def Let_def intro!: exI [of _ h])
    moreover have "(drop_bit h (of_nat k :: u32)) AND 1 = 0" "(of_nat k :: u32) < 2 ^ th - 1"
      using True by (simp_all add: word_and_1_eq_0 ud word_less_nat_alt uk unat_max_idx less_diff_conv)
    ultimately show ?thesis
      using ne node uh xor_sibling [of h "of_nat k" leaf]
      by (subst treehashx1_climb.simps) (auto simp: Let_def ud mult.commute [of h 16] split: if_splits)
  next
    case False
    have odd: "odd (k div 2 ^ h)"
    proof (rule ccontr)
      assume "\<not> odd (k div 2 ^ h)"
      with False assms(1) zero_bit_ndvd [of k h th] h show False by (simp add: not_less le_Suc_eq)
    qed
    let ?addr = "set_tree_index (set_tree_height addr (of_nat h + 1))
      (drop_bit h (of_nat k) div 2 + drop_bit 1 (drop_bit h off))"
    let ?c = "?N h (k div 2 ^ h - 1)"
    note comb = climb_combine [OF Suc.prems(5,3) assms(5) h odd assms(1)]
    have "climb_ok addr0 leaf k (treehashx1_climb hb ctx (of_nat th) (2 ^ th - 1) (of_nat k) stack
        (of_nat (Suc h)) (drop_bit (Suc h) (of_nat k)) (drop_bit (Suc h) leaf) (drop_bit (Suc h) off)
        (?c @ ?N (Suc h) (k div 2 ^ Suc h)) ?auth ?addr)"
      using Suc.hyps(2) h ones_step [OF Suc.prems(2) odd] auth comb(2)
      by (intro Suc.hyps(1)) (simp_all add: length_node)
    moreover have "(drop_bit h (of_nat k :: u32)) AND 1 \<noteq> 0"
      using odd by (simp add: word_and_1_eq_0 ud)
    ultimately show ?thesis
      using ne node uh xor_sibling [of h "of_nat k" leaf] comb(1)
      by (subst treehashx1_climb.simps)
        (auto simp: Let_def ud mult.commute [of h 16] add.commute [of 1] split: if_splits simp del: merkle_node.simps)
  qed
qed

lemma treehashx1_loop_correct:
  assumes "k < 2 ^ th" "stack_ok (merkle_node hb ctx addr0 off L) th k stack"
    and "auth_ok (merkle_node hb ctx addr0 off L) th leaf (\<lambda>h. Suc (sibling leaf h) * 2 ^ h \<le> k) auth_path"
    and "agree_except node_fields addr addr0" "P k info"
  shows "case treehashx1_loop hb ctx leaf off (of_nat th) gen (2 ^ th - 1) (of_nat k) stack auth_path addr info of
      (root, auth', addr', info') \<Rightarrow> root = merkle_node hb ctx addr0 off L th 0 \<and>
        auth_ok (merkle_node hb ctx addr0 off L) th leaf (\<lambda>h. Suc (sibling leaf h) * 2 ^ h \<le> 2 ^ th) auth' \<and>
        agree_except node_fields addr' addr0 \<and> P (2 ^ th) info'"
  using assms
proof (induction "2 ^ th - k" arbitrary: k stack auth_path addr info)
  case (Suc n)
  let ?N = "merkle_node hb ctx addr0 off L"
  obtain info1 where gen: "gen (of_nat k + off) info = (L k, info1)" and P1: "P (Suc k) info1"
    using gen_L [OF Suc.prems(1,5)] gen_P [OF Suc.prems(1,5)] by (metis prod.collapse)
  let ?r = "treehashx1_climb hb ctx (of_nat th) (2 ^ th - 1) (of_nat k) stack 0 (of_nat k) leaf off
    (replicate 16 0 @ L k) auth_path addr"
  have "climb_ok addr0 leaf k ?r"
    using climb_correct [of k 0 "replicate 16 0" addr0 stack leaf auth_path addr] Suc.prems
    by (simp add: done_at_def [abs_def])
  then show ?case
  proof (cases ?r)
    case (Broke h cur auth' addr')
    with \<open>climb_ok addr0 leaf k ?r\<close> obtain j c where b: "Suc k < 2 ^ th" "j < th" "h = of_nat j"
      "2 ^ j dvd Suc k" "even (k div 2 ^ j)" "cur = c @ ?N j (k div 2 ^ j)" "length c = 16"
      "auth_ok ?N th leaf (\<lambda>h. Suc (sibling leaf h) * 2 ^ h \<le> Suc k) auth'"
      "agree_except node_fields addr' addr0"
      by (auto simp: climb_ok_def Let_def)
    have "unat h = j" using b(2,3) th_small by (simp add: unat_of_nat_small)
    moreover have "get_bytes 16 16 cur = ?N j (k div 2 ^ j)"
      using b(6,7) by (simp add: get_bytes_append2 length_node)
    ultimately have st: "stack_ok ?N th (Suc k) (put_bytes (unat h * 16) (get_bytes 16 16 cur) stack)"
      using stack_ok_step [OF Suc.prems(2) b(2) length_node b(4,5)] by (simp add: mult.commute)
    have suc: "(of_nat (Suc k) :: u32) = of_nat k + 1" by simp
    from Suc.hyps(1) [OF _ b(1) st b(8,9) P1, unfolded suc] Suc.hyps(2) show ?thesis
      by (subst treehashx1_loop.simps) (simp add: gen Broke)
  qed (subst treehashx1_loop.simps, use P1 in \<open>auto simp: gen climb_ok_def Let_def\<close>)
qed simp

theorem treehashx1_correct:
  assumes "length auth_path = 16 * th" "valid_addr addr" "P 0 info"
  shows "\<exists>auth' addr' info'. treehashx1 hb auth_path ctx leaf off (of_nat th) gen addr info =
      (merkle_node hb ctx addr off L th 0, auth', addr', info') \<and>
      agree_except node_fields addr' addr \<and> P (2 ^ th) info' \<and> length auth' = 16 * th \<and>
      (unat leaf < 2 ^ th \<longrightarrow> auth' = auth_path_of hb ctx addr off L th leaf)"
proof -
  let ?N = "merkle_node hb ctx addr off L"
  have uth: "unat (of_nat th :: u32) = th" using th_small by (simp add: unat_of_nat_small)
  obtain root auth' addr' info' where r: "treehashx1_loop hb ctx leaf off (of_nat th) gen (2 ^ th - 1) 0
      (replicate (th * 16) 0) auth_path addr info = (root, auth', addr', info')"
    by (metis prod_cases4)
  have "root = ?N th 0 \<and> auth_ok ?N th leaf (\<lambda>h. Suc (sibling leaf h) * 2 ^ h \<le> 2 ^ th) auth' \<and>
      agree_except node_fields addr' addr \<and> P (2 ^ th) info'"
    using treehashx1_loop_correct [of 0 addr "replicate (th * 16) 0" leaf auth_path addr info] assms r
    by (simp add: stack_ok_def auth_ok_def agree_except_refl)
  then show ?thesis
    using r auth_complete [of hb ctx addr off L th leaf auth'] by (auto simp: treehashx1_def uth auth_ok_def)
qed

end

section \<open>compute_root recomputes the root\<close>

lemma loop_guard: "h < th \<Longrightarrow> th < 32 \<Longrightarrow> (of_nat h :: u32) < of_nat th - 1 \<longleftrightarrow> Suc h < th"
proof -
  assume h: "h < th" "th < 32"
  then have "unat (of_nat th :: u32) = th" by (simp add: unat_of_nat_small)
  then have "unat ((of_nat th :: u32) - 1) = th - 1"
    using h by (subst unat_minus_one) auto
  with h show ?thesis
    by (simp only: word_less_nat_alt) (simp add: unat_of_nat_small less_diff_conv)
qed

context seeded
begin

text \<open>The two children, at height \<open>h\<close>, of the ancestor of leaf \<open>n\<close>.\<close>

definition child_pair :: "spx_addr \<Rightarrow> u32 \<Rightarrow> (nat \<Rightarrow> bytes) \<Rightarrow> nat \<Rightarrow> nat \<Rightarrow> bytes" where
  "child_pair addr off L n h =
     merkle_node hb ctx addr off L h (2 * (n div 2 ^ Suc h)) @
     merkle_node hb ctx addr off L h (2 * (n div 2 ^ Suc h) + 1)"

lemma child_pair_parity:
  "child_pair addr off L n h = (let m = n div 2 ^ h; N = merkle_node hb ctx addr off L in
     if odd m then N h (m - 1) @ N h m else N h m @ N h (m + 1))"
  unfolding child_pair_def Let_def
  by (auto simp: div_mult2_eq mult.commute [of 2 "2 ^ h"] elim!: evenE oddE)

lemma child_pair_sibling:
  "child_pair addr off L (unat leaf) h = (let m = unat leaf div 2 ^ h; N = merkle_node hb ctx addr off L in
     if odd m then N h (sibling leaf h) @ N h m else N h m @ N h (sibling leaf h))"
  by (simp add: child_pair_parity sibling_cases Let_def)

lemma compute_root_loop_correct:
  assumes len: "\<And>i. length (L i) = 16" and th: "h < th" "th < 32"
    and auth: "auth_path = auth_path_of hb ctx addr0 off L th leaf"
    and addr: "agree_except node_fields addr addr0"
  shows "\<exists>addr'. compute_root_loop hb ctx (of_nat th) (of_nat h) (drop_bit h leaf) (drop_bit h off)
      (child_pair addr0 off L (unat leaf) h) (drop (16 * Suc h) auth_path) addr =
      (drop_bit (th - 1) leaf, drop_bit (th - 1) off, child_pair addr0 off L (unat leaf) (th - 1), addr')
      \<and> agree_except node_fields addr' addr0"
  using th(1) addr
proof (induction "th - Suc h" arbitrary: h addr)
  case 0
  then have "h = th - 1" by simp
  moreover have "\<not> (of_nat h :: u32) < of_nat th - 1"
    using loop_guard [of h th] \<open>h = th - 1\<close> 0 th(2) by simp
  ultimately show ?case
    using 0 by (simp add: compute_root_loop.simps)
next
  let ?N = "merkle_node hb ctx addr0 off L"
  case (Suc n)
  then have h: "Suc h < th" by simp
  define l where "l = drop_bit (Suc h) leaf"
  define a where "a = set_tree_index (set_tree_height addr (of_nat h + 1)) (l + drop_bit (Suc h) off)"
  have a: "a = node_addr addr0 off (Suc h) (unat l)" "agree_except node_fields a addr0"
    unfolding a_def node_addr_def
    using node_addr_unique [OF Suc.prems(2)] agree_node_set [OF Suc.prems(2)] by (simp_all add: add.commute)
  have node: "thash hb (child_pair addr0 off L (unat leaf) h) 2 ctx a = ?N (Suc h) (unat l)"
    by (simp add: a(1) child_pair_def l_def unat_drop_bit)
  have nxt: "take 16 (drop (16 * Suc h) auth_path) = ?N (Suc h) (sibling leaf (Suc h))"
    using get_auth_path_of [of L "Suc h" th] len h by (simp add: auth get_bytes_def)
  have buf: "length (child_pair addr0 off L (unat leaf) h) = 32"
    by (simp add: child_pair_def length_merkle_node len)
  have ul: "unat leaf div 2 ^ Suc h = unat l" by (simp add: l_def unat_drop_bit)
  have step: "(if l AND 1 \<noteq> 0
      then put_bytes 0 (?N (Suc h) (sibling leaf (Suc h))) (put_bytes 16 (?N (Suc h) (unat l)) (child_pair addr0 off L (unat leaf) h))
      else put_bytes 16 (?N (Suc h) (sibling leaf (Suc h))) (put_bytes 0 (?N (Suc h) (unat l)) (child_pair addr0 off L (unat leaf) h)))
      = child_pair addr0 off L (unat leaf) (Suc h)"
    unfolding child_pair_sibling [of _ _ _ _ "Suc h"] ul word_and_1_eq_0
    using buf length_merkle_node [of L, OF len] by (simp add: put_bytes_def Let_def)
  have "\<exists>addr'. compute_root_loop hb ctx (of_nat th) (of_nat (Suc h)) l (drop_bit (Suc h) off)
      (child_pair addr0 off L (unat leaf) (Suc h)) (drop (16 * Suc (Suc h)) auth_path) a =
      (drop_bit (th - 1) leaf, drop_bit (th - 1) off, child_pair addr0 off L (unat leaf) (th - 1), addr')
      \<and> agree_except node_fields addr' addr0"
    unfolding l_def using Suc.hyps(2) h a(2) by (intro Suc.hyps(1)) simp_all
  moreover have "compute_root_loop hb ctx (of_nat th) (of_nat h) (drop_bit h leaf) (drop_bit h off)
      (child_pair addr0 off L (unat leaf) h) (drop (16 * Suc h) auth_path) addr =
      compute_root_loop hb ctx (of_nat th) (of_nat (Suc h)) l (drop_bit (Suc h) off)
      (child_pair addr0 off L (unat leaf) (Suc h)) (drop (16 * Suc (Suc h)) auth_path) a"
    using loop_guard [of h th] h th(2) node nxt step
    by (subst compute_root_loop.simps)
      (auto simp: Let_def add.commute [of 1] add.commute [of 16] simp del: merkle_node.simps
        simp flip: l_def a_def split: if_splits)
  ultimately show ?case by simp
qed

lemma compute_root_correct:
  assumes len: "\<And>i. length (L i) = 16" and th: "0 < th" "th < 32"
    and addr: "agree_except node_fields addr addr0" and leaf: "unat leaf < 2 ^ th"
  shows "\<exists>addr'. compute_root hb (L (unat leaf)) leaf off (auth_path_of hb ctx addr0 off L th leaf) (of_nat th) ctx addr
      = (merkle_node hb ctx addr0 off L th 0, addr') \<and> agree_except node_fields addr' addr0"
proof -
  let ?A = "auth_path_of hb ctx addr0 off L th leaf"
  have "take 16 ?A = L (sibling leaf 0)"
    using get_auth_path_of [of L 0 th] len th(1) by (simp add: get_bytes_def)
  then have buf: "(if leaf AND 1 \<noteq> 0 then take 16 ?A @ take 16 (L (unat leaf)) else take 16 (L (unat leaf)) @ take 16 ?A)
      = child_pair addr0 off L (unat leaf) 0"
    by (simp add: child_pair_sibling word_and_1_eq_0 len)
  obtain addr1 where loop: "compute_root_loop hb ctx (of_nat th) 0 leaf off (child_pair addr0 off L (unat leaf) 0)
      (drop 16 ?A) addr = (drop_bit (th - 1) leaf, drop_bit (th - 1) off, child_pair addr0 off L (unat leaf) (th - 1), addr1)"
    and addr1: "agree_except node_fields addr1 addr0"
    using compute_root_loop_correct [where L = L and h = 0 and leaf = leaf and off = off, OF len th refl addr]
    by auto
  have top: "unat leaf div 2 ^ Suc (th - 1) = 0" using leaf th(1) by simp
  then have "drop_bit th leaf = 0" using leaf by (intro word_eq_unatI) (simp add: unat_drop_bit)
  then have a: "set_tree_index (set_tree_height addr1 (of_nat th)) (drop_bit th leaf + drop_bit th off) = node_addr addr0 off th 0"
    using node_addr_unique [OF addr1] by (simp add: node_addr_def)
  have "merkle_node hb ctx addr0 off L th 0 = thash hb (child_pair addr0 off L (unat leaf) (th - 1)) 2 ctx (node_addr addr0 off th 0)"
    unfolding child_pair_def top using th(1) by (cases th) simp_all
  moreover have "agree_except node_fields (node_addr addr0 off th 0) addr0"
    unfolding node_addr_def by (rule agree_node_set) (use addr in \<open>auto simp: agree_except_def\<close>)
  ultimately show ?thesis
    using th(1) a by (simp only: compute_root_def SPX_N_def buf Let_def loop prod.case) (simp add: a)
qed

end

section \<open>The contexts of the reference hash\<close>

text \<open>Every public seed is the big-endian bytes of a 128-bit word.\<close>

definition seed_bytes :: "128 word \<Rightarrow> bytes" where
  "seed_bytes w = map (\<lambda>i. ucast (drop_bit (8 * (15 - i)) w)) [0..<16]"

definition ref_ctx :: "128 word \<Rightarrow> bytes \<Rightarrow> spx_ctx" where
  "ref_ctx w s = initialize_hash_function crypto_hashblocks_sha256_ref
     \<lparr>pub_seed = seed_bytes w, sk_seed = s, state_seeded = []\<rparr>"

lemma length_seed_bytes [simp]: "length (seed_bytes w) = 16"
  by (simp add: seed_bytes_def)

interpretation ref_seeded: seeded crypto_hashblocks_sha256_ref "ref_ctx w s" for w s
  unfolding ref_ctx_def by unfold_locales (rule ref256.ctx_seeded_init, simp)

section \<open>Every node of a tree has its own address\<close>

text \<open>The hashes see the first 22 bytes of an address; height and index of a node are among them.\<close>

lemma node_addr_fields:
  assumes "valid_addr a" "valid_addr b" "take 22 (node_addr a off h i) = take 22 (node_addr b off' h' i')" "h < 256" "h' < 256"
  shows "h = h'" "of_nat i + drop_bit h off = of_nat i' + drop_bit h' off'"
proof -
  let ?x = "node_addr a off h i" and ?y = "node_addr b off' h' i'"
  have nth: "?x ! j = ?y ! j" if "j < 22" for j using that assms(3) by (metis nth_take)
  have "(ucast (of_nat h :: u32) :: u8) = ucast (of_nat h' :: u32)"
    using nth [of 17] assms(1,2) by (simp add: node_addr_def addr_nth addr_len)
  moreover have "unat (ucast (of_nat n :: u32) :: u8) = n" if "n < 256" for n
    using that by (simp add: unsigned_ucast_eq unat_of_nat take_bit_nat_eq_self take_bit_nat_def)
  ultimately show "h = h'" using assms(4,5) by metis
  have "u32_to_bytes (of_nat i + drop_bit h off) ! k = u32_to_bytes (of_nat i' + drop_bit h' off') ! k" if "k < 4" for k
    using nth [of "18 + k"] that assms(1,2) by (simp add: node_addr_def addr_nth addr_len)
  then have "u32_to_bytes (of_nat i + drop_bit h off) = u32_to_bytes (of_nat i' + drop_bit h' off')"
    by (auto intro: nth_equalityI)
  then show "of_nat i + drop_bit h off = of_nat i' + drop_bit h' off'"
    by (metis load_store_32 store_bigendian_32_u32)
qed

end
