(* ===== verification/Fors.thy ===== *)
theory Fors
  imports Tree_Hash "HOL-Library.Multiset"
begin

text \<open>
  FORS+C few-time signatures: \<open>sphincsplus/ref/fors.c\<close> (scalar path), including the pthread worker
  pool of test and benchmark builds.  What the pool depends on outside the source is a record
  \<open>fors_threads\<close>: the environment variable, which \<open>pthread_create\<close> calls succeed, and in which order
  the launched workers' tree computations take effect.  The theorems: the index extraction reads
  16-bit little-endian words, the partition covers the trees once, the signature does not depend
  on the pool, and the public key recomputed from a signature is the signer's.
\<close>

section \<open>Leaves\<close>

definition fors_gen_sk :: "hashblocks_fn \<Rightarrow> spx_ctx \<Rightarrow> spx_addr \<Rightarrow> bytes" where
  "fors_gen_sk hb ctx fors_leaf_addr = prf_addr hb ctx fors_leaf_addr"

definition fors_sk_to_leaf :: "hashblocks_fn \<Rightarrow> bytes \<Rightarrow> spx_ctx \<Rightarrow> spx_addr \<Rightarrow> bytes" where
  "fors_sk_to_leaf hb sk ctx fors_leaf_addr = thash hb sk 1 ctx fors_leaf_addr"

text \<open>The info structure is the leaf address.\<close>

record fors_gen_leaf_info =
  leaf_addrx :: spx_addr

definition fors_gen_leafx1 :: "hashblocks_fn \<Rightarrow> spx_ctx \<Rightarrow> u32 \<Rightarrow> fors_gen_leaf_info \<Rightarrow> bytes \<times> fors_gen_leaf_info" where
  "fors_gen_leafx1 hb ctx addr_idx info =
     (let fors_leaf_addr = leaf_addrx info;
          fors_leaf_addr = set_tree_index fors_leaf_addr addr_idx;
          fors_leaf_addr = set_type fors_leaf_addr SPX_ADDR_TYPE_FORSPRF;
          leaf = fors_gen_sk hb ctx fors_leaf_addr;
          fors_leaf_addr = set_type fors_leaf_addr SPX_ADDR_TYPE_FORSTREE;
          leaf = fors_sk_to_leaf hb leaf ctx fors_leaf_addr
      in (leaf, info\<lparr>leaf_addrx := fors_leaf_addr\<rparr>))"

section \<open>Indices\<close>

text \<open>The inner loop: \<open>n\<close> bits are left, \<open>offset\<close> is the bit position in \<open>m\<close>, \<open>j\<close> the one in the index.\<close>

fun index_loop :: "bytes \<Rightarrow> nat \<Rightarrow> nat \<Rightarrow> nat \<Rightarrow> u32 \<Rightarrow> u32 \<times> nat" where
  "index_loop m 0 offset j idx = (idx, offset)"
| "index_loop m (Suc n) offset j idx =
     index_loop m n (offset + 1) (j + 1)
       (idx XOR push_bit j (ucast (drop_bit (offset AND 7) (m ! drop_bit 3 offset)) AND 1))"

fun message_to_indices_loop :: "bytes \<Rightarrow> nat \<Rightarrow> nat \<Rightarrow> u32 list \<Rightarrow> u32 list" where
  "message_to_indices_loop m 0 offset indices = indices"
| "message_to_indices_loop m (Suc n) offset indices =
     (let (idx, offset) = index_loop m SPX_FORS_HEIGHT offset 0 0
      in message_to_indices_loop m n offset (indices @ [idx]))"

definition message_to_indices :: "bytes \<Rightarrow> u32 list" where
  "message_to_indices m = message_to_indices_loop m SPX_FORS_SIG_TREES 0 []"

section \<open>One tree\<close>

definition SPX_FORS_TREE_SIG_BYTES :: nat where
  [simp, spx_param]: "SPX_FORS_TREE_SIG_BYTES = (SPX_FORS_HEIGHT + 1) * SPX_N"

text \<open>\<open>fors_sign_tree\<close> fills the tree's part \<open>sig_tree\<close> of the signature and returns the root.\<close>

definition fors_sign_tree :: "hashblocks_fn \<Rightarrow> bytes \<Rightarrow> spx_ctx \<Rightarrow> spx_addr \<Rightarrow> u32 \<Rightarrow> u32 \<Rightarrow> bytes \<times> bytes" where
  "fors_sign_tree hb sig_tree ctx fors_addr leaf_idx tree_num =
     (let idx_offset = tree_num * push_bit SPX_FORS_HEIGHT 1;
          fors_tree_addr = copy_keypair_addr zero_addr fors_addr;
          fors_info = \<lparr>leaf_addrx = copy_keypair_addr zero_addr fors_addr\<rparr>;
          fors_tree_addr = set_tree_height fors_tree_addr 0;
          fors_tree_addr = set_tree_index fors_tree_addr (leaf_idx + idx_offset);
          fors_tree_addr = set_type fors_tree_addr SPX_ADDR_TYPE_FORSPRF;
          sk = fors_gen_sk hb ctx fors_tree_addr;
          fors_tree_addr = set_type fors_tree_addr SPX_ADDR_TYPE_FORSTREE;
          (root, auth, fors_tree_addr, fors_info) =
            treehashx1 hb (drop SPX_N sig_tree) ctx leaf_idx idx_offset (of_nat SPX_FORS_HEIGHT)
              (fors_gen_leafx1 hb ctx) fors_tree_addr fors_info
      in (sk @ auth, root))"

section \<open>The worker pool\<close>

text \<open>\<open>strtoul (s, NULL, 10)\<close> for a 64-bit \<open>unsigned long\<close>: leading white space and a sign are
  skipped, digits are read up to the first other character, and an overflow saturates.\<close>

fun strtoul_digits :: "string \<Rightarrow> nat \<Rightarrow> nat" where
  "strtoul_digits [] acc = acc"
| "strtoul_digits (c # cs) acc =
     (let d = (of_char c :: nat)
      in if 48 \<le> d \<and> d \<le> 57 then strtoul_digits cs (10 * acc + (d - 48)) else acc)"

definition strtoul :: "string \<Rightarrow> u64" where
  "strtoul s =
     (let cs = dropWhile (\<lambda>c. (of_char c :: nat) \<in> {9, 10, 11, 12, 13, 32}) s;
          neg = (cs \<noteq> [] \<and> hd cs = CHR ''-'');
          cs = (if cs \<noteq> [] \<and> (hd cs = CHR ''-'' \<or> hd cs = CHR ''+'') then tl cs else cs);
          v = strtoul_digits cs 0
      in if 2 ^ 64 \<le> v then NOT 0 else if neg then - of_nat v else of_nat v)"

text \<open>The pool's surroundings: \<open>SPX_RUNTIME_ENV_KNOBS_ENABLED\<close>, \<open>getenv ("SPX_FORS_THREADS")\<close>, whether
  the \<open>t\<close>-th \<open>pthread_create\<close> returns 0, and the order in which the trees of the launched workers
  are written.\<close>

record fors_threads =
  ft_knobs :: bool
  ft_env :: "string option"
  ft_spawn :: "nat \<Rightarrow> bool"
  ft_order :: "nat list list \<Rightarrow> nat list"

text \<open>\<open>pthread_join\<close> returns when the worker has finished: every launched tree is written once.\<close>

definition joins_all :: "fors_threads \<Rightarrow> bool" where
  "joins_all rt \<longleftrightarrow> (\<forall>ls. mset (ft_order rt ls) = mset (concat ls))"

definition fors_sign_worker_count :: "fors_threads \<Rightarrow> u32" where
  "fors_sign_worker_count rt =
     (let workers = 1;
          workers =
            (if ft_knobs rt
             then (case ft_env rt of
                     None \<Rightarrow> workers
                   | Some env_threads \<Rightarrow>
                       (if env_threads \<noteq> []
                        then (let configured = strtoul env_threads
                              in if configured > 0 then ucast configured else workers)
                        else workers))
             else workers);
          workers = (if workers > of_nat SPX_FORS_SIG_TREES then of_nat SPX_FORS_SIG_TREES else workers);
          workers = (if workers = 0 then 1 else workers)
      in workers)"

text \<open>The launch loop: the ranges of the launched workers, the first tree not handed out, and whether a
  launch failed.\<close>

function fors_launch_loop :: "fors_threads \<Rightarrow> u32 \<Rightarrow> u32 \<Rightarrow> u32 \<Rightarrow> (nat \<times> nat) list \<Rightarrow> (nat \<times> nat) list \<times> u32 \<times> bool" where
  "fors_launch_loop rt workers t start args =
     (if t < workers
      then (let remaining_trees = of_nat SPX_FORS_SIG_TREES - start;
                remaining_workers = workers - t;
                share = (remaining_trees + remaining_workers - 1) div remaining_workers;
                last = start + share
            in if ft_spawn rt (unat t)
               then fors_launch_loop rt workers (t + 1) last (args @ [(unat start, unat last)])
               else (args, start, True))
      else (args, start, False))"
  by pat_completeness auto
termination
  by (relation "measure (\<lambda>(rt, workers, t, r). unat workers - unat t)") (auto intro: word_count_up)

declare fors_launch_loop.simps [simp del]

text \<open>One iteration of the tree loops: tree \<open>i\<close> writes its part of the signature and its root.\<close>

definition fors_tree_step :: "hashblocks_fn \<Rightarrow> spx_ctx \<Rightarrow> spx_addr \<Rightarrow> u32 list \<Rightarrow> bytes \<times> bytes \<Rightarrow> nat \<Rightarrow> bytes \<times> bytes" where
  "fors_tree_step hb ctx fors_addr indices = (\<lambda>(sig, roots) i.
     let (sig_tree, root_out) =
           fors_sign_tree hb (get_bytes (i * SPX_FORS_TREE_SIG_BYTES) SPX_FORS_TREE_SIG_BYTES sig)
             ctx fors_addr (indices ! i) (of_nat i)
     in (put_bytes (i * SPX_FORS_TREE_SIG_BYTES) sig_tree sig, put_bytes (i * SPX_N) root_out roots))"

text \<open>A worker signs the trees of its range; the scheduler interleaves the workers' trees.\<close>

definition fors_sign_worker :: "nat \<times> nat \<Rightarrow> nat list" where
  "fors_sign_worker = (\<lambda>(first, last). [first..<last])"

section \<open>Signing and verification\<close>

definition fors_sign :: "hashblocks_fn \<Rightarrow> fors_threads \<Rightarrow> bytes \<Rightarrow> bytes \<Rightarrow> spx_ctx \<Rightarrow> spx_addr \<Rightarrow> bytes \<times> bytes" where
  "fors_sign hb rt sig m ctx fors_addr =
     (let roots = replicate (SPX_FORS_SIG_TREES * SPX_N) 0;
          fors_pk_addr = copy_keypair_addr zero_addr fors_addr;
          fors_pk_addr = set_type fors_pk_addr SPX_ADDR_TYPE_FORSPK;
          indices = message_to_indices m;
          step = fors_tree_step hb ctx fors_addr indices;
          workers = fors_sign_worker_count rt;
          (state, scalar_start) =
            (if workers > 1
             then (let (args, start, spawn_failed) = fors_launch_loop rt workers 0 0 []
                   in (foldl step (sig, roots) (ft_order rt (map fors_sign_worker args)), unat start))
             else ((sig, roots), 0));
          (sig, roots) = foldl step state [scalar_start..<SPX_FORS_SIG_TREES]
      in (sig, thash hb roots SPX_FORS_SIG_TREES ctx fors_pk_addr))"

definition fors_pk_step :: "hashblocks_fn \<Rightarrow> spx_ctx \<Rightarrow> u32 list \<Rightarrow> bytes \<times> bytes \<times> spx_addr \<Rightarrow> nat
    \<Rightarrow> bytes \<times> bytes \<times> spx_addr" where
  "fors_pk_step hb ctx indices = (\<lambda>(roots, sig, fors_tree_addr) i.
     let idx_offset = of_nat i * push_bit SPX_FORS_HEIGHT 1;
         fors_tree_addr = set_tree_height fors_tree_addr 0;
         fors_tree_addr = set_tree_index fors_tree_addr (indices ! i + idx_offset);
         leaf = fors_sk_to_leaf hb sig ctx fors_tree_addr;
         sig = drop SPX_N sig;
         (root, fors_tree_addr) =
           compute_root hb leaf (indices ! i) idx_offset sig (of_nat SPX_FORS_HEIGHT) ctx fors_tree_addr;
         sig = drop (SPX_N * SPX_FORS_HEIGHT) sig
     in (roots @ root, sig, fors_tree_addr))"

definition fors_pk_from_sig :: "hashblocks_fn \<Rightarrow> bytes \<Rightarrow> bytes \<Rightarrow> spx_ctx \<Rightarrow> spx_addr \<Rightarrow> bytes" where
  "fors_pk_from_sig hb sig m ctx fors_addr =
     (let fors_tree_addr = copy_keypair_addr zero_addr fors_addr;
          fors_pk_addr = copy_keypair_addr zero_addr fors_addr;
          fors_tree_addr = set_type fors_tree_addr SPX_ADDR_TYPE_FORSTREE;
          fors_pk_addr = set_type fors_pk_addr SPX_ADDR_TYPE_FORSPK;
          indices = message_to_indices m;
          (roots, sig, fors_tree_addr) =
            foldl (fors_pk_step hb ctx indices) ([], sig, fors_tree_addr) [0..<SPX_FORS_SIG_TREES]
      in thash hb roots SPX_FORS_SIG_TREES ctx fors_pk_addr)"

section \<open>Index extraction\<close>

lemma index_bit:
  "bit (push_bit j (ucast (drop_bit (off AND 7) (b :: u8)) AND 1) :: u32) k \<longleftrightarrow> k = j \<and> k < 32 \<and> bit b (off mod 8)"
proof -
  have "off AND 7 = off mod 8" using take_bit_eq_mask [of 3 off] by (simp add: mask_eq_exp_minus_1 take_bit_eq_mod)
  then show ?thesis
    by (auto simp: bit_simps bit_1_iff)
qed

lemma index_loop_offset: "snd (index_loop m n off j idx) = off + n"
  by (induction n arbitrary: off j idx) simp_all

lemma index_loop_bit:
  "k < 32 \<Longrightarrow> bit (fst (index_loop m n off j idx)) k \<longleftrightarrow>
     (if j \<le> k \<and> k < j + n then bit idx k \<noteq> bit (m ! ((off + (k - j)) div 8)) ((off + (k - j)) mod 8)
      else bit idx k)"
proof (induction n arbitrary: off j idx)
  case (Suc n)
  define X where "X = (push_bit j (ucast (drop_bit (off AND 7) (m ! drop_bit 3 off)) AND 1) :: u32)"
  have X: "bit (idx XOR X) k \<longleftrightarrow> (bit idx k \<noteq> (k = j \<and> bit (m ! (off div 8)) (off mod 8)))"
    using Suc.prems unfolding X_def bit_xor_iff index_bit by (auto simp: drop_bit_eq_div)
  have step: "index_loop m (Suc n) off j idx = index_loop m n (off + 1) (j + 1) (idx XOR X)"
    by (simp add: X_def)
  have shift: "off + 1 + (k - (j + 1)) = off + (k - j)" if "j < k" using that by simp
  show ?case
    unfolding step Suc.IH [OF Suc.prems] X using shift by (cases "k = j"; cases "j < k") auto
qed auto

lemma unat_two_bytes: "unat (push_bit 8 (ucast h) OR ucast l :: u32) = unat l + 256 * unat h" for h l :: u8
proof -
  have h: "unat h < 2 ^ LENGTH(8)" and l: "unat l < 2 ^ LENGTH(8)" by (rule unsigned_less)+
  have "(push_bit 8 (ucast h) AND ucast l :: u32) = 0"
    by (rule bit_word_eqI) (auto simp: bit_simps dest: bit_imp_le_length)
  then have "unat (push_bit 8 (ucast h) OR ucast l :: u32) = unat (push_bit 8 (ucast h) + ucast l :: u32)"
    by (simp add: disjunctive_add_eq_or)
  moreover have "unat (ucast h :: u32) = unat h" "unat (ucast l :: u32) = unat l"
    using h l by (simp_all add: unsigned_ucast_eq take_bit_nat_eq_self)
  moreover from this(1) have "unat (push_bit 8 (ucast h) :: u32) = 256 * unat h"
    unfolding unsigned_push_bit_eq using h by (simp add: push_bit_eq_mult take_bit_nat_eq_self)
  ultimately show ?thesis
    using h l by (simp add: unat_word_ariths take_bit_nat_eq_self)
qed

lemma index_word:
  assumes "length m = 16" "i < 8"
  shows "unat (fst (index_loop m 16 (16 * i) 0 0)) = unat (m ! (2 * i)) + 256 * unat (m ! (2 * i + 1))"
proof -
  let ?r = "fst (index_loop m 16 (16 * i) 0 0)"
  have div: "(16 * i + k) div 8 = 2 * i + k div 8" "(16 * i + k) mod 8 = k mod 8" for k by presburger+
  have "?r = push_bit 8 (ucast (m ! (2 * i + 1))) OR ucast (m ! (2 * i))"
  proof (rule bit_word_eqI)
    fix k assume "k < LENGTH(32)"
    then have "k < 32" by simp
    then have "bit ?r k \<longleftrightarrow> k < 16 \<and> bit (m ! (2 * i + k div 8)) (k mod 8)"
      by (simp add: index_loop_bit div)
    note bit_r = this
    consider "k < 8" | "8 \<le> k" "k < 16" | "16 \<le> k" by linarith
    then show "bit ?r k = bit (push_bit 8 (ucast (m ! (2 * i + 1))) OR ucast (m ! (2 * i)) :: u32) k"
    proof cases
      case 2
      then have "k div 8 = 1" "k mod 8 = k - 8" by (auto simp: le_div_geq le_mod_geq)
      with 2 bit_r show ?thesis by (auto simp: bit_simps dest: bit_imp_le_length)
    next
      case 3
      with bit_r show ?thesis by (auto simp: bit_simps dest: bit_imp_le_length)
    qed (use bit_r in \<open>auto simp: bit_simps\<close>)
  qed
  then show ?thesis by (simp add: unat_two_bytes)
qed

lemma message_to_indices_loop_map:
  "message_to_indices_loop m n off out = out @ map (\<lambda>i. fst (index_loop m 16 (off + 16 * i) 0 0)) [0..<n]"
proof (induction n arbitrary: off out)
  case (Suc n)
  have "[0..<Suc n] = 0 # map Suc [0..<n]" by (simp add: map_Suc_upt upt_conv_Cons)
  then show ?case
    using index_loop_offset [of m 16 off 0 0]
    by (simp add: Suc.IH case_prod_beta comp_def add.assoc)
qed simp

lemma message_to_indices_map:
  "message_to_indices m = map (\<lambda>i. fst (index_loop m 16 (16 * i) 0 0)) [0..<7]"
  by (simp add: message_to_indices_def message_to_indices_loop_map)

lemma message_to_indices_word:
  assumes "length m = 16" "i < 7"
  shows "unat (message_to_indices m ! i) = unat (m ! (2 * i)) + 256 * unat (m ! (2 * i + 1))"
  using assms index_word [of m i] by (simp add: message_to_indices_map)

lemma message_to_indices_less:
  assumes "i < 7"
  shows "unat (message_to_indices m ! i) < 2 ^ 16"
proof -
  let ?x = "fst (index_loop m 16 (16 * i) 0 0)"
  have "take_bit 16 ?x = ?x"
    by (rule bit_word_eqI) (auto simp: bit_take_bit_iff index_loop_bit)
  then have "unat ?x < 2 ^ 16" by (metis unat_take_bit_less)
  then show ?thesis using assms by (simp add: message_to_indices_map)
qed

section \<open>The trees of a key pair\<close>

text \<open>\<open>fors_base\<close> is the address of the key pair; leaf \<open>i\<close> of tree \<open>t\<close> has index \<open>i + t 2\<^sup>1\<^sup>6\<close> in it.\<close>

definition fors_base :: "spx_addr \<Rightarrow> spx_addr" where
  "fors_base fors_addr = copy_keypair_addr zero_addr fors_addr"

definition fors_sk :: "hashblocks_fn \<Rightarrow> spx_ctx \<Rightarrow> spx_addr \<Rightarrow> u32 \<Rightarrow> bytes" where
  "fors_sk hb ctx fors_addr x =
     prf_addr hb ctx (set_type (set_tree_index (fors_base fors_addr) x) SPX_ADDR_TYPE_FORSPRF)"

definition fors_leaf :: "hashblocks_fn \<Rightarrow> spx_ctx \<Rightarrow> spx_addr \<Rightarrow> u32 \<Rightarrow> bytes" where
  "fors_leaf hb ctx fors_addr x =
     thash hb (fors_sk hb ctx fors_addr x) 1 ctx (set_type (set_tree_index (fors_base fors_addr) x) SPX_ADDR_TYPE_FORSTREE)"

definition fors_off :: "nat \<Rightarrow> u32" where
  "fors_off t = of_nat t * 2 ^ 16"

definition fors_root :: "hashblocks_fn \<Rightarrow> spx_ctx \<Rightarrow> spx_addr \<Rightarrow> nat \<Rightarrow> bytes" where
  "fors_root hb ctx fors_addr t =
     merkle_node hb ctx (set_type (fors_base fors_addr) SPX_ADDR_TYPE_FORSTREE) (fors_off t)
       (\<lambda>i. fors_leaf hb ctx fors_addr (of_nat i + fors_off t)) 16 0"

definition fors_tree_sig :: "hashblocks_fn \<Rightarrow> spx_ctx \<Rightarrow> spx_addr \<Rightarrow> nat \<Rightarrow> u32 \<Rightarrow> bytes" where
  "fors_tree_sig hb ctx fors_addr t idx =
     fors_sk hb ctx fors_addr (idx + fors_off t) @
     auth_path_of hb ctx (set_type (fors_base fors_addr) SPX_ADDR_TYPE_FORSTREE) (fors_off t)
       (\<lambda>i. fors_leaf hb ctx fors_addr (of_nat i + fors_off t)) 16 idx"

definition fors_info_inv :: "spx_addr \<Rightarrow> nat \<Rightarrow> fors_gen_leaf_info \<Rightarrow> bool" where
  "fors_info_inv fors_addr k info \<longleftrightarrow> agree_except ({9} \<union> {18..<22}) (leaf_addrx info) (fors_base fors_addr)"

lemma fors_addr_unique:
  assumes "agree_except ({9} \<union> {18..<22}) a b"
  shows "set_type (set_tree_index a x) y = set_type (set_tree_index b x) y"
    "agree_except ({9} \<union> {18..<22}) (set_type (set_tree_index a x) y) b"
  using assms by (auto intro!: addr_eqI simp: agree_except_def addr_nth addr_len)

lemma set_type_twice: "set_type (set_type a y) z = set_type a z"
  by (simp add: set_type_def)

lemma fors_gen_leafx1_run:
  assumes "fors_info_inv fors_addr k info"
  shows "fst (fors_gen_leafx1 hb ctx x info) = fors_leaf hb ctx fors_addr x"
    "fors_info_inv fors_addr k' (snd (fors_gen_leafx1 hb ctx x info))"
  using fors_addr_unique [OF assms [unfolded fors_info_inv_def]]
  by (simp_all add: fors_gen_leafx1_def fors_leaf_def fors_sk_def fors_gen_sk_def fors_sk_to_leaf_def
      fors_info_inv_def set_type_twice Let_def)

locale fors_tree = seeded hb ctx for hb :: hashblocks_fn and ctx :: spx_ctx +
  fixes fors_addr :: spx_addr and t :: nat
  assumes fors_addr: "valid_addr fors_addr"

sublocale fors_tree \<subseteq> tree: leaf_generator hb ctx "fors_gen_leafx1 hb ctx"
    "\<lambda>i. fors_leaf hb ctx fors_addr (of_nat i + fors_off t)" "fors_info_inv fors_addr" "fors_off t" 16
  by unfold_locales (simp_all add: fors_gen_leafx1_run fors_leaf_def)

context fors_tree
begin

lemma base_addr: "valid_addr (fors_base fors_addr)" "fors_base fors_addr ! 17 = 0"
  using fors_addr by (simp_all add: fors_base_def addr_len addr_nth zero_addr_def)

lemma node_addr_start:
  "agree_except node_fields (set_type (set_tree_index (set_tree_height (fors_base fors_addr) 0) x) SPX_ADDR_TYPE_FORSTREE)
     (set_type (fors_base fors_addr) SPX_ADDR_TYPE_FORSTREE)"
  "set_type (set_tree_index (set_tree_height (fors_base fors_addr) 0) x) y = set_type (set_tree_index (fors_base fors_addr) x) y"
  using base_addr by (auto intro!: addr_eqI simp: agree_except_def addr_nth addr_len)

lemma fors_sign_tree_run:
  assumes "length sig_tree = 272" "unat idx < 2 ^ 16"
  shows "fors_sign_tree hb sig_tree ctx fors_addr idx (of_nat t) =
    (fors_tree_sig hb ctx fors_addr t idx, fors_root hb ctx fors_addr t)"
proof -
  let ?L = "\<lambda>i. fors_leaf hb ctx fors_addr (of_nat i + fors_off t)"
  let ?a = "set_type (set_tree_index (set_tree_height (fors_base fors_addr) 0) (idx + fors_off t)) SPX_ADDR_TYPE_FORSTREE"
  have off: "of_nat t * push_bit SPX_FORS_HEIGHT 1 = fors_off t" by (simp add: fors_off_def)
  have a: "valid_addr ?a" using base_addr(1) by (simp add: addr_len)
  have inv: "fors_info_inv fors_addr 0 \<lparr>leaf_addrx = fors_base fors_addr\<rparr>"
    using base_addr(1) by (simp add: fors_info_inv_def agree_except_refl)
  obtain auth' addr' info' where r: "treehashx1 hb (drop 16 sig_tree) ctx idx (fors_off t) 16 (fors_gen_leafx1 hb ctx) ?a
      \<lparr>leaf_addrx = fors_base fors_addr\<rparr> =
      (merkle_node hb ctx ?a (fors_off t) ?L 16 0, auth_path_of hb ctx ?a (fors_off t) ?L 16 idx, addr', info')"
    using tree.treehashx1_correct [OF _ a inv, of "drop 16 sig_tree" idx] assms by auto
  have sk: "fors_gen_sk hb ctx (set_type (set_tree_index (set_tree_height (fors_base fors_addr) 0) (idx + fors_off t)) SPX_ADDR_TYPE_FORSPRF)
      = fors_sk hb ctx fors_addr (idx + fors_off t)"
    unfolding fors_gen_sk_def fors_sk_def node_addr_start(2) ..
  have th: "of_nat SPX_FORS_HEIGHT = (16 :: u32)" "SPX_N = 16" by simp_all
  show ?thesis
    unfolding fors_sign_tree_def Let_def off fors_base_def [symmetric] set_type_twice sk th r prod.case
    by (simp only: fors_tree_sig_def fors_root_def merkle_node_addr_cong [OF node_addr_start(1)]
        auth_path_of_addr_cong [OF node_addr_start(1)])
qed

lemma fors_pk_leaf:
  assumes "agree_except node_fields a (set_type (fors_base fors_addr) SPX_ADDR_TYPE_FORSTREE)"
  shows "fors_sk_to_leaf hb (fors_tree_sig hb ctx fors_addr t idx @ rest) ctx (set_tree_index (set_tree_height a 0) (idx + fors_off t))
    = fors_leaf hb ctx fors_addr (idx + fors_off t)"
proof -
  have "set_tree_index (set_tree_height a 0) (idx + fors_off t) =
      set_type (set_tree_index (fors_base fors_addr) (idx + fors_off t)) SPX_ADDR_TYPE_FORSTREE"
    using assms base_addr by (auto intro!: addr_eqI simp: agree_except_def addr_nth addr_len)
  moreover have "take 16 (fors_tree_sig hb ctx fors_addr t idx @ rest) = fors_sk hb ctx fors_addr (idx + fors_off t)"
    by (simp add: fors_tree_sig_def fors_sk_def)
  ultimately show ?thesis
    by (simp add: fors_sk_to_leaf_def fors_leaf_def thash_def fors_sk_def)
qed

lemma fors_pk_step_run:
  assumes "agree_except node_fields a (set_type (fors_base fors_addr) SPX_ADDR_TYPE_FORSTREE)"
    and "unat (indices ! t) < 2 ^ 16"
  shows "\<exists>a'. fors_pk_step hb ctx indices (roots, fors_tree_sig hb ctx fors_addr t (indices ! t) @ rest, a) t =
      (roots @ fors_root hb ctx fors_addr t, rest, a')
      \<and> agree_except node_fields a' (set_type (fors_base fors_addr) SPX_ADDR_TYPE_FORSTREE)"
proof -
  let ?idx = "indices ! t"
  let ?L = "\<lambda>i. fors_leaf hb ctx fors_addr (of_nat i + fors_off t)"
  let ?B = "set_type (fors_base fors_addr) SPX_ADDR_TYPE_FORSTREE"
  let ?A = "auth_path_of hb ctx ?B (fors_off t) ?L 16 ?idx"
  have off: "of_nat t * push_bit SPX_FORS_HEIGHT 1 = fors_off t" by (simp add: fors_off_def)
  have th: "of_nat SPX_FORS_HEIGHT = (16 :: u32)" "SPX_N * SPX_FORS_HEIGHT = 256" "SPX_N = 16" by simp_all
  have len: "length ?A = 16 * 16" by (rule length_auth_path_of) (simp add: fors_leaf_def)
  have d: "drop 16 (fors_tree_sig hb ctx fors_addr t ?idx @ rest) = ?A @ rest"
    by (simp add: fors_tree_sig_def fors_sk_def)
  let ?a = "set_tree_index (set_tree_height a 0) (?idx + fors_off t)"
  have "compute_root hb (?L (unat ?idx)) ?idx (fors_off t) (?A @ rest) 16 ctx ?a =
      compute_root hb (?L (unat ?idx)) ?idx (fors_off t) ?A 16 ctx ?a"
    using len by (intro compute_root_prefix) simp_all
  moreover obtain a' where "compute_root hb (?L (unat ?idx)) ?idx (fors_off t) ?A 16 ctx ?a = (fors_root hb ctx fors_addr t, a')"
    and a': "agree_except node_fields a' ?B"
    using compute_root_correct [of ?L 16 ?a ?B ?idx "fors_off t"] agree_node_set [OF assms(1)] assms(2)
    by (auto simp: fors_root_def fors_leaf_def)
  moreover have "drop 256 (?A @ rest) = rest" using len by simp
  ultimately show ?thesis
    unfolding fors_pk_step_def prod.case Let_def off th fors_pk_leaf [OF assms(1)] d by simp
qed

end

section \<open>The pool signs every tree once\<close>

lemma ceil_share:
  fixes rt rw :: nat
  assumes "0 < rw"
  shows "(rt + rw - 1) div rw \<le> rt" "rw = 1 \<Longrightarrow> (rt + rw - 1) div rw = rt"
proof -
  have "rt + rw - 1 < Suc rt * rw" using assms by (cases rw) auto
  then show "(rt + rw - 1) div rw \<le> rt" by (meson less_Suc_eq_le less_mult_imp_div_less)
qed simp

lemma fors_launch_share:
  fixes start workers t :: u32
  assumes "unat start \<le> 7" "unat workers \<le> 7" "t < workers"
  defines "share \<equiv> (7 - start + (workers - t) - 1) div (workers - t)"
  shows "unat (start + share) = unat start + ((7 - unat start) + (unat workers - unat t) - 1) div (unat workers - unat t)"
    "unat (start + share) \<le> 7"
proof -
  have a: "unat (7 - start) = 7 - unat start" using assms(1) by (subst unat_sub) (simp_all add: word_le_nat_alt)
  have b: "unat (workers - t) = unat workers - unat t"
    using assms(3) by (subst unat_sub) (simp_all add: word_le_nat_alt word_less_nat_alt)
  have pos: "0 < unat workers - unat t" using assms(3) by (simp add: word_less_nat_alt)
  have c: "unat (7 - start + (workers - t)) = (7 - unat start) + (unat workers - unat t)"
    unfolding a [symmetric] b [symmetric]
    using a b assms(2) by (intro unat_add_lem [THEN iffD1]) simp
  have "7 - start + (workers - t) \<noteq> 0" using c pos by (metis add_gr_0 less_irrefl unat_0)
  then have d: "unat (7 - start + (workers - t) - 1) = (7 - unat start) + (unat workers - unat t) - 1"
    by (metis c unat_minus_one)
  have s: "unat share = ((7 - unat start) + (unat workers - unat t) - 1) div (unat workers - unat t)"
    unfolding share_def unat_div d b ..
  have le: "unat share \<le> 7 - unat start" unfolding s by (rule ceil_share(1)) (rule pos)
  then have e: "unat (start + share) = unat start + unat share"
    using assms(1) by (intro unat_add_lem [THEN iffD1]) simp
  show "unat (start + share) = unat start + ((7 - unat start) + (unat workers - unat t) - 1) div (unat workers - unat t)"
    unfolding e s ..
  show "unat (start + share) \<le> 7" unfolding e using le assms(1) by simp
qed

lemma fors_launch_loop_inv:
  assumes "unat start \<le> 7" "unat workers \<le> 7" "concat (map fors_sign_worker args) = [0..<unat start]"
    and "fors_launch_loop rt workers t start args = (args', start', failed)"
  shows "concat (map fors_sign_worker args') = [0..<unat start']" "unat start' \<le> 7"
    "\<not> failed \<Longrightarrow> t < workers \<or> unat start = 7 \<Longrightarrow> unat start' = 7"
proof -
  have "concat (map fors_sign_worker args') = [0..<unat start'] \<and> unat start' \<le> 7 \<and>
      (\<not> failed \<longrightarrow> t < workers \<or> unat start = 7 \<longrightarrow> unat start' = 7)"
    using assms
  proof (induction "unat workers - unat t" arbitrary: t start args)
    case 0
    then have "\<not> t < workers" by (simp add: word_less_nat_alt)
    with 0 show ?case by (subst (asm) fors_launch_loop.simps) auto
  next
    case (Suc n)
    then have lt: "t < workers" by (simp add: word_less_nat_alt)
    define last where "last = start + (7 - start + (workers - t) - 1) div (workers - t)"
    define q where "q = ((7 - unat start) + (unat workers - unat t) - 1) div (unat workers - unat t)"
    have sh: "unat last = unat start + q" "unat last \<le> 7"
      unfolding last_def q_def by (rule fors_launch_share [OF Suc.prems(1,2) lt])+
    show ?case
    proof (cases "ft_spawn rt (unat t)")
      case True
      have l: "fors_launch_loop rt workers (t + 1) last (args @ [(unat start, unat last)]) = (args', start', failed)"
        using Suc.prems(4) True lt unfolding last_def by (subst (asm) fors_launch_loop.simps) (simp add: Let_def)
      have c: "concat (map fors_sign_worker (args @ [(unat start, unat last)])) = [0..<unat last]"
        using Suc.prems(3) upt_add_eq_append [of 0 "unat start" q] by (simp add: fors_sign_worker_def sh(1))
      have "t + 1 < workers \<or> unat last = 7"
      proof (cases "t + 1 < workers")
        case False
        then have "unat workers - unat t = 1" using Suc.hyps(2) lt
          by (simp add: word_less_nat_alt unat_plus_one [OF lt])
        then show ?thesis using sh(1) Suc.prems(1) by (simp add: q_def)
      qed simp
      then show ?thesis
        using Suc.hyps(1) [OF _ sh(2) Suc.prems(2) c l] Suc.hyps(2) unat_plus_one [OF lt] by simp
    next
      case False
      then show ?thesis
        using Suc.prems lt by (subst (asm) fors_launch_loop.simps) (auto simp: Let_def)
    qed
  qed
  then show "concat (map fors_sign_worker args') = [0..<unat start']" "unat start' \<le> 7"
    "\<not> failed \<Longrightarrow> t < workers \<or> unat start = 7 \<Longrightarrow> unat start' = 7" by blast+
qed

lemma fors_sign_worker_count_bounds:
  "1 \<le> unat (fors_sign_worker_count rt)" "unat (fors_sign_worker_count rt) \<le> 7"
  by (auto simp: fors_sign_worker_count_def Let_def word_less_nat_alt word_le_nat_alt Suc_le_eq unat_gt_0
      split: option.splits if_splits)

section \<open>Signing\<close>

definition fors_sig :: "hashblocks_fn \<Rightarrow> spx_ctx \<Rightarrow> spx_addr \<Rightarrow> u32 list \<Rightarrow> bytes" where
  "fors_sig hb ctx fors_addr indices = concat (map (\<lambda>t. fors_tree_sig hb ctx fors_addr t (indices ! t)) [0..<7])"

definition fors_pk :: "hashblocks_fn \<Rightarrow> spx_ctx \<Rightarrow> spx_addr \<Rightarrow> bytes" where
  "fors_pk hb ctx fors_addr =
     thash hb (concat (map (fors_root hb ctx fors_addr) [0..<7])) 7 ctx (set_type (fors_base fors_addr) SPX_ADDR_TYPE_FORSPK)"

text \<open>The trees in \<open>D\<close> have been written.\<close>

definition fors_written :: "hashblocks_fn \<Rightarrow> spx_ctx \<Rightarrow> spx_addr \<Rightarrow> u32 list \<Rightarrow> nat set \<Rightarrow> bytes \<times> bytes \<Rightarrow> bool" where
  "fors_written hb ctx fors_addr indices D = (\<lambda>(sig, roots). length sig = 272 * 7 \<and> length roots = 16 * 7 \<and>
     (\<forall>t\<in>D. t < 7 \<longrightarrow> get_bytes (272 * t) 272 sig = fors_tree_sig hb ctx fors_addr t (indices ! t) \<and>
        get_bytes (16 * t) 16 roots = fors_root hb ctx fors_addr t))"

lemma fors_written_all:
  assumes "fors_written hb ctx fors_addr indices D (sig, roots)" "{0..<7} \<subseteq> D"
  shows "sig = fors_sig hb ctx fors_addr indices" "roots = concat (map (fors_root hb ctx fors_addr) [0..<7])"
proof -
  have p: "get_bytes (272 * t) 272 sig = fors_tree_sig hb ctx fors_addr t (indices ! t)"
    "get_bytes (16 * t) 16 roots = fors_root hb ctx fors_addr t" if "t < 7" for t
    using assms that by (auto simp: fors_written_def)
  have l: "length sig = 272 * 7" "length roots = 16 * 7" using assms(1) by (simp_all add: fors_written_def)
  have "concat (map (\<lambda>t. get_bytes (272 * t) 272 sig) [0..<7]) = fors_sig hb ctx fors_addr indices"
    unfolding fors_sig_def by (intro arg_cong [where f = concat] map_cong refl) (simp add: p)
  then show "sig = fors_sig hb ctx fors_addr indices" using concat_pieces [OF l(1)] by simp
  have "concat (map (\<lambda>t. get_bytes (16 * t) 16 roots) [0..<7]) = concat (map (fors_root hb ctx fors_addr) [0..<7])"
    by (intro arg_cong [where f = concat] map_cong refl) (simp add: p)
  then show "roots = concat (map (fors_root hb ctx fors_addr) [0..<7])" using concat_pieces [OF l(2)] by simp
qed

context seeded
begin

lemma length_fors_tree_sig: "length (fors_tree_sig hb ctx fors_addr t idx) = 272"
  by (simp add: fors_tree_sig_def fors_sk_def length_auth_path_of fors_leaf_def)

lemma length_fors_root: "length (fors_root hb ctx fors_addr t) = 16"
  by (simp add: fors_root_def length_merkle_node fors_leaf_def)

lemma length_fors_sig: "length (fors_sig hb ctx fors_addr indices) = 1904"
  unfolding fors_sig_def by (subst length_concat_const [where k = 272]) (simp_all add: length_fors_tree_sig)

lemma fors_treeI: "valid_addr fors_addr \<Longrightarrow> fors_tree hb ctx fors_addr"
  by unfold_locales

lemma fors_tree_step_written:
  assumes "valid_addr fors_addr" "fors_written hb ctx fors_addr indices D st" "t < 7" "unat (indices ! t) < 2 ^ 16"
  shows "fors_written hb ctx fors_addr indices (insert t D) (fors_tree_step hb ctx fors_addr indices st t)"
proof -
  obtain sig roots where st: "st = (sig, roots)" by (cases st)
  have l: "length sig = 272 * 7" "length roots = 16 * 7" using assms(2) by (simp_all add: fors_written_def st)
  have "length (get_bytes (t * 272) 272 sig) = 272" using l(1) assms(3) by simp
  from fors_tree.fors_sign_tree_run [OF fors_treeI [OF assms(1)] this assms(4)]
  have step: "fors_tree_step hb ctx fors_addr indices st t =
      (put_bytes (272 * t) (fors_tree_sig hb ctx fors_addr t (indices ! t)) sig,
       put_bytes (16 * t) (fors_root hb ctx fors_addr t) roots)"
    by (simp add: st fors_tree_step_def mult.commute)
  show ?thesis
    using assms(2,3) l unfolding step
    unfolding fors_written_def st
    by (simp add: get_put_piece [where n = 7] length_put_piece [where n = 7] length_fors_tree_sig length_fors_root)
qed

lemma fors_tree_fold_written:
  assumes "valid_addr fors_addr" "\<And>t. t < 7 \<Longrightarrow> unat (indices ! t) < 2 ^ 16"
    and "fors_written hb ctx fors_addr indices D st" "set ts \<subseteq> {0..<7}"
  shows "fors_written hb ctx fors_addr indices (D \<union> set ts) (foldl (fors_tree_step hb ctx fors_addr indices) st ts)"
  using assms(3,4)
proof (induction ts arbitrary: D st)
  case (Cons t ts)
  then show ?case
    using Cons.IH [OF fors_tree_step_written [OF assms(1) Cons.prems(1)]] assms(2) by simp
qed simp

theorem fors_sign_correct:
  assumes "valid_addr fors_addr" "joins_all rt" "length sig = 1904"
  shows "fors_sign hb rt sig m ctx fors_addr =
    (fors_sig hb ctx fors_addr (message_to_indices m), fors_pk hb ctx fors_addr)"
proof -
  let ?ix = "message_to_indices m"
  let ?step = "fors_tree_step hb ctx fors_addr ?ix"
  let ?W = "fors_written hb ctx fors_addr ?ix"
  note ix = message_to_indices_less [of _ m]
  define pool where "pool = (if fors_sign_worker_count rt > 1
     then (let (args, start, spawn_failed) = fors_launch_loop rt (fors_sign_worker_count rt) 0 0 []
           in (foldl ?step (sig, replicate 112 0) (ft_order rt (map fors_sign_worker args)), unat start))
     else ((sig, replicate 112 0), 0))"
  have w0: "?W {} (sig, replicate 112 0)" using assms(3) by (simp add: fors_written_def)
  have "\<exists>D. ?W D (fst pool) \<and> {0..<snd pool} \<subseteq> D"
  proof (cases "fors_sign_worker_count rt > 1")
    case True
    obtain args start failed where l: "fors_launch_loop rt (fors_sign_worker_count rt) 0 0 [] = (args, start, failed)"
      by (metis prod_cases3)
    have inv: "concat (map fors_sign_worker args) = [0..<unat start]" "unat start \<le> 7"
      using fors_launch_loop_inv(1,2) [OF _ fors_sign_worker_count_bounds(2) _ l] by simp_all
    have "set (ft_order rt (map fors_sign_worker args)) = set (concat (map fors_sign_worker args))"
      using assms(2) unfolding joins_all_def by (metis set_mset_mset)
    then have s: "set (ft_order rt (map fors_sign_worker args)) = {0..<unat start}" unfolding inv(1) by simp
    then have "?W ({} \<union> {0..<unat start}) (foldl ?step (sig, replicate 112 0) (ft_order rt (map fors_sign_worker args)))"
      using fors_tree_fold_written [OF assms(1) ix w0, of "ft_order rt (map fors_sign_worker args)"] inv(2)
      by (simp del: Un_empty_left)
    then show ?thesis using True l by (auto simp: pool_def)
  qed (use w0 in \<open>auto simp: pool_def\<close>)
  then obtain D where D: "?W D (fst pool)" "{0..<snd pool} \<subseteq> D" by blast
  have "?W (D \<union> set [snd pool..<7]) (foldl ?step (fst pool) [snd pool..<7])"
    by (intro fors_tree_fold_written [OF assms(1) ix D(1)]) auto
  moreover have "{0..<7} \<subseteq> D \<union> set [snd pool..<7]" using D(2) by auto
  ultimately have "foldl ?step (fst pool) [snd pool..<7] =
      (fors_sig hb ctx fors_addr ?ix, concat (map (fors_root hb ctx fors_addr) [0..<7]))"
    using fors_written_all by (metis prod.collapse)
  moreover have "fors_sign hb rt sig m ctx fors_addr =
      (case foldl ?step (fst pool) [snd pool..<7] of (sig, roots) \<Rightarrow>
        (sig, thash hb roots 7 ctx (set_type (fors_base fors_addr) SPX_ADDR_TYPE_FORSPK)))"
    by (simp add: fors_sign_def pool_def fors_base_def Let_def case_prod_beta split del: if_split)
  ultimately show ?thesis by (simp add: fors_pk_def)
qed

lemma fors_pk_fold:
  assumes "valid_addr fors_addr" "\<And>t. t < 7 \<Longrightarrow> unat (indices ! t) < 2 ^ 16" "n \<le> 7"
  shows "\<exists>a. foldl (fors_pk_step hb ctx indices)
      ([], concat (map (\<lambda>t. fors_tree_sig hb ctx fors_addr t (indices ! t)) [0..<n]) @ rest,
       set_type (fors_base fors_addr) SPX_ADDR_TYPE_FORSTREE) [0..<n] =
      (concat (map (fors_root hb ctx fors_addr) [0..<n]), rest, a)
      \<and> agree_except node_fields a (set_type (fors_base fors_addr) SPX_ADDR_TYPE_FORSTREE)"
  using assms(3)
proof (induction n arbitrary: rest)
  case 0
  have "valid_addr (set_type (fors_base fors_addr) SPX_ADDR_TYPE_FORSTREE)"
    using assms(1) by (simp add: fors_base_def addr_len)
  then show ?case by (simp add: agree_except_refl)
next
  case (Suc n)
  let ?sig = "\<lambda>n. concat (map (\<lambda>t. fors_tree_sig hb ctx fors_addr t (indices ! t)) [0..<n])"
  let ?R = "\<lambda>n. concat (map (fors_root hb ctx fors_addr) [0..<n])"
  let ?B = "set_type (fors_base fors_addr) SPX_ADDR_TYPE_FORSTREE"
  have n: "n < 7" "n \<le> 7" using Suc.prems by simp_all
  obtain a where "foldl (fors_pk_step hb ctx indices) ([], ?sig n @ fors_tree_sig hb ctx fors_addr n (indices ! n) @ rest, ?B) [0..<n]
      = (?R n, fors_tree_sig hb ctx fors_addr n (indices ! n) @ rest, a)" and a: "agree_except node_fields a ?B"
    using Suc.IH [OF n(2)] by blast
  moreover obtain a' where "fors_pk_step hb ctx indices (?R n, fors_tree_sig hb ctx fors_addr n (indices ! n) @ rest, a) n
      = (?R n @ fors_root hb ctx fors_addr n, rest, a')" "agree_except node_fields a' ?B"
    using fors_tree.fors_pk_step_run [OF fors_treeI [OF assms(1)] a assms(2) [OF n(1)]] by blast
  ultimately show ?case by (intro exI [of _ a']) simp
qed

theorem fors_pk_from_sig_correct:
  assumes "valid_addr fors_addr"
  shows "fors_pk_from_sig hb (fors_sig hb ctx fors_addr (message_to_indices m) @ rest) m ctx fors_addr
    = fors_pk hb ctx fors_addr"
proof -
  obtain a where "foldl (fors_pk_step hb ctx (message_to_indices m))
      ([], fors_sig hb ctx fors_addr (message_to_indices m) @ rest, set_type (fors_base fors_addr) SPX_ADDR_TYPE_FORSTREE) [0..<7]
      = (concat (map (fors_root hb ctx fors_addr) [0..<7]), rest, a)"
    using fors_pk_fold [OF assms message_to_indices_less [of _ m] order_refl] unfolding fors_sig_def by blast
  moreover have "SPX_FORS_SIG_TREES = 7" by simp
  ultimately show ?thesis
    by (simp only: fors_pk_from_sig_def Let_def fors_base_def [symmetric] prod.case fors_pk_def)
qed

end

section \<open>The FORS trees of the reference hash\<close>

interpretation ref_fors: fors_tree crypto_hashblocks_sha256_ref "ref_ctx w s" "set_keypair_addr zero_addr k" t for w s k t
  by unfold_locales (simp add: addr_len)

section \<open>The nodes of all FORS trees have distinct addresses\<close>

lemma fors_node_index:
  assumes "t < 7" "h \<le> 16" "i < 2 ^ (16 - h)"
  shows "unat (of_nat i + drop_bit h (fors_off t)) = i + t * 2 ^ (16 - h)"
proof -
  have p: "2 ^ (16 - h) \<le> (2 :: nat) ^ 16" using assms(2) by (intro power_increasing) auto
  have "i + t * 2 ^ (16 - h) < 2 ^ (16 - h) + 6 * 2 ^ (16 - h)"
    using assms(1,3) by (intro add_less_le_mono mult_right_mono) auto
  also have "\<dots> \<le> 7 * 2 ^ 16" using p by simp
  finally have b: "i + t * 2 ^ (16 - h) < 2 ^ 32" by simp
  have "unat (fors_off t) = t * 2 ^ 16"
    using assms(1) by (simp add: fors_off_def unat_word_ariths unat_of_nat)
  also have "(2 :: nat) ^ 16 = 2 ^ (16 - h) * 2 ^ h"
    using assms(2) by (metis le_add_diff_inverse2 power_add)
  finally have "unat (fors_off t) = t * 2 ^ (16 - h) * 2 ^ h" by (simp only: mult.assoc)
  then have "unat (drop_bit h (fors_off t)) = t * 2 ^ (16 - h)"
    unfolding unat_drop_bit by (simp add: drop_bit_eq_div)
  moreover have "unat (of_nat i :: u32) = i" using b by (intro unat_of_nat_small) simp
  ultimately show ?thesis using b by (simp add: unat_word_ariths)
qed

lemma fors_node_addr_inj:
  assumes "valid_addr a" "t < 7" "t' < 7" "h \<le> 16" "h' \<le> 16" "i < 2 ^ (16 - h)" "i' < 2 ^ (16 - h')"
    and "take 22 (node_addr a (fors_off t) h i) = take 22 (node_addr a (fors_off t') h' i')"
  shows "t = t' \<and> h = h' \<and> i = i'"
proof -
  note f = node_addr_fields [OF assms(1,1,8)]
  have h: "h = h'" using f(1) assms(4,5) by simp
  have "unat (of_nat i + drop_bit h (fors_off t)) = unat (of_nat i' + drop_bit h' (fors_off t'))"
    using f(2) assms(4,5) by simp
  then have e: "i + t * 2 ^ (16 - h) = i' + t' * 2 ^ (16 - h)"
    using fors_node_index assms(2-7) h by simp
  then have "(i + t * 2 ^ (16 - h)) div 2 ^ (16 - h) = (i' + t' * 2 ^ (16 - h)) div 2 ^ (16 - h)" by simp
  then have "t = t'" using assms(6,7) h by simp
  with e h show ?thesis by simp
qed

end
