(* ===== verification/Sign_Stats.thy ===== *)
theory Sign_Stats
  imports Spx_Params
begin

text \<open>
  Signing limits and statistics: \<open>sphincsplus/ref/sign_stats.c\<close>, \<open>sign_stats.h\<close> and
  \<open>include/libbitcoinpqc/sign_stats.h\<close>.  The thread-local pointer \<open>g_sign_stats\<close> and the record
  it points to are one optional record: \<open>None\<close> is the null pointer.  The two limits are compile-time
  settings, so they are a build configuration that the operations take as an argument.
\<close>

section \<open>Build configuration\<close>

record build_config =
  FORSC_MAX_GRIND_ATTEMPTS :: u32
  WOTSC_MAX_COUNTER :: u32

definition default_config :: build_config where
  "default_config = \<lparr>FORSC_MAX_GRIND_ATTEMPTS = 1835008, WOTSC_MAX_COUNTER = 0xFFFF\<rparr>"

text \<open>The \<open>#error\<close> conditions of the header.\<close>

definition valid_config :: "build_config \<Rightarrow> bool" where
  "valid_config cfg \<longleftrightarrow> 1 \<le> FORSC_MAX_GRIND_ATTEMPTS cfg \<and> WOTSC_MAX_COUNTER cfg \<le> 0xFFFF"

definition BITCOINPQC_SIGN_LIMIT_EXCEEDED :: int where
  [simp]: "BITCOINPQC_SIGN_LIMIT_EXCEEDED = -100"

lemma valid_default_config: "valid_config default_config"
  by (simp add: valid_config_def default_config_def)

section \<open>The statistics record\<close>

definition BITCOIN_PQC_SIGN_WOTSC_LAYERS :: u32 where [simp]: "BITCOIN_PQC_SIGN_WOTSC_LAYERS = 5"
definition BITCOIN_PQC_SIGN_LIMIT_NONE :: u32 where [simp]: "BITCOIN_PQC_SIGN_LIMIT_NONE = 0"
definition BITCOIN_PQC_SIGN_LIMIT_FORSC :: u32 where [simp]: "BITCOIN_PQC_SIGN_LIMIT_FORSC = 1"
definition BITCOIN_PQC_SIGN_LIMIT_WOTSC :: u32 where [simp]: "BITCOIN_PQC_SIGN_LIMIT_WOTSC = 2"

record bitcoin_pqc_sign_stats_t =
  forsc_attempts :: u32
  forsc_max_attempts :: u32
  wotsc_attempts :: "u32 list"
  wotsc_layer_count :: u32
  wotsc_max_attempts :: u32
  wotsc_max_observed_attempts :: u32
  cap_exceeded :: u32

type_synonym stats_ptr = "bitcoin_pqc_sign_stats_t option"

definition zero_stats :: bitcoin_pqc_sign_stats_t where
  "zero_stats = \<lparr>forsc_attempts = 0, forsc_max_attempts = 0,
     wotsc_attempts = replicate (unat BITCOIN_PQC_SIGN_WOTSC_LAYERS) 0, wotsc_layer_count = 0,
     wotsc_max_attempts = 0, wotsc_max_observed_attempts = 0, cap_exceeded = 0\<rparr>"

section \<open>Operations\<close>

definition bitcoin_pqc_sign_stats_begin :: "build_config \<Rightarrow> stats_ptr \<Rightarrow> stats_ptr" where
  "bitcoin_pqc_sign_stats_begin cfg stats =
     (case stats of
        None \<Rightarrow> None
      | Some _ \<Rightarrow> Some (zero_stats\<lparr>forsc_max_attempts := FORSC_MAX_GRIND_ATTEMPTS cfg,
          wotsc_max_attempts := WOTSC_MAX_COUNTER cfg + 1,
          cap_exceeded := BITCOIN_PQC_SIGN_LIMIT_NONE\<rparr>))"

definition bitcoin_pqc_sign_stats_end :: "stats_ptr \<Rightarrow> stats_ptr" where
  "bitcoin_pqc_sign_stats_end g = None"

definition bitcoin_pqc_sign_stats_record_forsc_attempts :: "u32 \<Rightarrow> stats_ptr \<Rightarrow> stats_ptr" where
  "bitcoin_pqc_sign_stats_record_forsc_attempts attempts g =
     (case g of None \<Rightarrow> None | Some s \<Rightarrow> Some (s\<lparr>forsc_attempts := attempts\<rparr>))"

definition bitcoin_pqc_sign_stats_record_forsc_cap :: "stats_ptr \<Rightarrow> stats_ptr" where
  "bitcoin_pqc_sign_stats_record_forsc_cap g =
     (case g of None \<Rightarrow> None
      | Some s \<Rightarrow> Some (s\<lparr>cap_exceeded := cap_exceeded s OR BITCOIN_PQC_SIGN_LIMIT_FORSC\<rparr>))"

definition bitcoin_pqc_sign_stats_record_wotsc_attempts :: "u32 \<Rightarrow> stats_ptr \<Rightarrow> stats_ptr" where
  "bitcoin_pqc_sign_stats_record_wotsc_attempts attempts g =
     (case g of
        None \<Rightarrow> None
      | Some s \<Rightarrow>
          (let layer = wotsc_layer_count s;
               s = (if layer < BITCOIN_PQC_SIGN_WOTSC_LAYERS
                    then s\<lparr>wotsc_attempts := (wotsc_attempts s)[unat layer := attempts]\<rparr> else s);
               s = s\<lparr>wotsc_layer_count := layer + 1\<rparr>;
               s = (if attempts > wotsc_max_observed_attempts s
                    then s\<lparr>wotsc_max_observed_attempts := attempts\<rparr> else s)
           in Some s))"

definition bitcoin_pqc_sign_stats_record_wotsc_cap :: "stats_ptr \<Rightarrow> stats_ptr" where
  "bitcoin_pqc_sign_stats_record_wotsc_cap g =
     (case g of None \<Rightarrow> None
      | Some s \<Rightarrow> Some (s\<lparr>cap_exceeded := cap_exceeded s OR BITCOIN_PQC_SIGN_LIMIT_WOTSC\<rparr>))"

lemmas stats_defs = bitcoin_pqc_sign_stats_record_forsc_attempts_def
  bitcoin_pqc_sign_stats_record_forsc_cap_def bitcoin_pqc_sign_stats_record_wotsc_attempts_def
  bitcoin_pqc_sign_stats_record_wotsc_cap_def

section \<open>Recording never opens or closes a session\<close>

lemma record_keeps_session [simp]:
  "bitcoin_pqc_sign_stats_record_forsc_attempts a g = None \<longleftrightarrow> g = None"
  "bitcoin_pqc_sign_stats_record_forsc_cap g = None \<longleftrightarrow> g = None"
  "bitcoin_pqc_sign_stats_record_wotsc_attempts a g = None \<longleftrightarrow> g = None"
  "bitcoin_pqc_sign_stats_record_wotsc_cap g = None \<longleftrightarrow> g = None"
  by (auto simp: stats_defs Let_def split: option.splits)

section \<open>The record describes the signing run\<close>

text \<open>Invariant of a session in which \<open>ws\<close> are the attempt counts of the WOTS+C layers so far.\<close>

definition stats_inv :: "build_config \<Rightarrow> u32 list \<Rightarrow> bitcoin_pqc_sign_stats_t \<Rightarrow> bool" where
  "stats_inv cfg ws s \<longleftrightarrow> length ws \<le> 5 \<and>
     wotsc_attempts s = ws @ replicate (5 - length ws) 0 \<and>
     wotsc_layer_count s = of_nat (length ws) \<and>
     wotsc_max_observed_attempts s = fold max ws 0 \<and>
     forsc_max_attempts s = FORSC_MAX_GRIND_ATTEMPTS cfg \<and>
     wotsc_max_attempts s = WOTSC_MAX_COUNTER cfg + 1"

lemma stats_inv_begin:
  "\<exists>s. bitcoin_pqc_sign_stats_begin cfg (Some x) = Some s \<and> stats_inv cfg [] s \<and> cap_exceeded s = 0
     \<and> forsc_attempts s = 0"
  by (simp add: bitcoin_pqc_sign_stats_begin_def stats_inv_def zero_stats_def)

lemma stats_inv_wotsc:
  assumes "stats_inv cfg ws s" "length ws < 5"
  shows "\<exists>s'. bitcoin_pqc_sign_stats_record_wotsc_attempts a (Some s) = Some s' \<and>
    stats_inv cfg (ws @ [a]) s' \<and> cap_exceeded s' = cap_exceeded s \<and> forsc_attempts s' = forsc_attempts s"
proof -
  have u: "unat (of_nat (length ws) :: u32) = length ws"
    using assms(2) by (simp add: unat_of_nat_small)
  then have "(of_nat (length ws) :: u32) < 5" using assms(2) by (simp add: word_less_nat_alt)
  moreover have "replicate (5 - length ws) 0 = (0::u32) # replicate (5 - Suc (length ws)) 0"
    using assms(2) by (metis Suc_diff_Suc replicate_Suc)
  ultimately show ?thesis
    using assms u
    by (auto simp: stats_defs Let_def stats_inv_def list_update_append max_def add.commute)
qed

lemma stats_inv_cap:
  "stats_inv cfg ws s \<Longrightarrow> \<exists>s'. bitcoin_pqc_sign_stats_record_wotsc_cap (Some s) = Some s' \<and> stats_inv cfg ws s' \<and>
     cap_exceeded s' = cap_exceeded s OR 2 \<and> forsc_attempts s' = forsc_attempts s"
  by (simp add: stats_defs stats_inv_def)

lemma stats_inv_forsc:
  "stats_inv cfg ws s \<Longrightarrow> \<exists>s'. bitcoin_pqc_sign_stats_record_forsc_attempts a (Some s) = Some s' \<and> stats_inv cfg ws s' \<and>
     cap_exceeded s' = cap_exceeded s \<and> forsc_attempts s' = a"
  by (simp add: stats_defs stats_inv_def)

lemma stats_inv_forsc_cap:
  "stats_inv cfg ws s \<Longrightarrow> \<exists>s'. bitcoin_pqc_sign_stats_record_forsc_cap (Some s) = Some s' \<and> stats_inv cfg ws s' \<and>
     cap_exceeded s' = cap_exceeded s OR 1 \<and> forsc_attempts s' = forsc_attempts s"
  by (simp add: stats_defs stats_inv_def)

end
