(* ===== verification/Wots.thy ===== *)
theory Wots
  imports Tree_Hash Sign_Stats
begin

text \<open>
  WOTS+C one-time signatures: \<open>sphincsplus/ref/wots.c\<close> and the scalar leaf generator of
  \<open>wotsx1.c\<close>.  The chains are shown to be iterations of the tweakable hash, the message
  compression to return the first counter whose base-256 digits have the target checksum within
  its limit, and the public key recomputed from a signature to be the one the signer's
  leaf is made of.  \<open>g\<close> is the thread-local statistics pointer of \<open>Sign_Stats\<close>, \<open>cfg\<close> the build
  configuration.
\<close>

section \<open>Chains and digits\<close>

function gen_chain_loop :: "hashblocks_fn \<Rightarrow> spx_ctx \<Rightarrow> u32 \<Rightarrow> u32 \<Rightarrow> bytes \<Rightarrow> spx_addr \<Rightarrow> bytes \<times> spx_addr" where
  "gen_chain_loop hb ctx lim i out addr =
     (if i < lim \<and> i < of_nat SPX_WOTS_W
      then (let addr = set_hash_addr addr i
            in gen_chain_loop hb ctx lim (i + 1) (thash hb out 1 ctx addr) addr)
      else (out, addr))"
  by pat_completeness auto
termination
  by (relation "measure (\<lambda>(hb, ctx, lim, i, r). unat lim - unat i)") (auto intro: word_count_up)

declare gen_chain_loop.simps [simp del]

definition gen_chain :: "hashblocks_fn \<Rightarrow> bytes \<Rightarrow> u32 \<Rightarrow> u32 \<Rightarrow> spx_ctx \<Rightarrow> spx_addr \<Rightarrow> bytes \<times> spx_addr" where
  "gen_chain hb inp start steps ctx addr = gen_chain_loop hb ctx (start + steps) start (take SPX_N inp) addr"

text \<open>The loop of \<open>base_w\<close>: \<open>n\<close> digits are left to produce, \<open>tot\<close> (the source's \<open>total\<close>) is the byte being split and \<open>bits\<close>
  the number of its bits not yet used.\<close>

fun base_w_loop :: "bytes \<Rightarrow> nat \<Rightarrow> nat \<Rightarrow> u8 \<Rightarrow> nat \<Rightarrow> u32 list \<Rightarrow> u32 list" where
  "base_w_loop input 0 inp tot bits out = out"
| "base_w_loop input (Suc n) inp tot bits out =
     (let (tot, inp, bits) =
            (if bits = 0 then (input ! inp, inp + 1, bits + 8) else (tot, inp, bits));
          bits = bits - SPX_WOTS_LOGW
      in base_w_loop input n inp tot bits
           (out @ [ucast (drop_bit bits tot) AND (of_nat SPX_WOTS_W - 1)]))"

definition base_w :: "nat \<Rightarrow> bytes \<Rightarrow> u32 list" where
  "base_w out_len input = base_w_loop input out_len 0 0 0 []"

section \<open>Message compression\<close>

definition wotsc_checksum :: "u32 list \<Rightarrow> u32" where
  "wotsc_checksum lengths = foldl (\<lambda>c l. c + (of_nat SPX_WOTS_W - 1 - l)) 0 lengths"

definition wotsc_hash_counter :: "hashblocks_fn \<Rightarrow> bytes \<Rightarrow> u32 \<Rightarrow> bytes \<times> u32" where
  "wotsc_hash_counter hb msg counter =
     (let hash_in = take SPX_N msg @ [ucast (drop_bit 8 counter), ucast counter];
          hash_out = sha256 hb hash_in;
          compressed_msg = take SPX_N hash_out;
          lengths = base_w SPX_WOTS_LEN1 compressed_msg
      in (compressed_msg, wotsc_checksum lengths))"

text \<open>Success returns the compressed message, the counter and the checksum.\<close>

function wotsc_search :: "hashblocks_fn \<Rightarrow> bytes \<Rightarrow> u32 \<Rightarrow> u32 \<Rightarrow> stats_ptr
    \<Rightarrow> (int + bytes \<times> u32 \<times> u32) \<times> stats_ptr" where
  "wotsc_search hb msg max_counter counter g =
     (let attempts = counter + 1;
          (compressed_msg, checksum) = wotsc_hash_counter hb msg counter
      in if checksum = of_nat SPX_WOTSC_TARGET
         then (Inr (compressed_msg, counter, checksum),
               bitcoin_pqc_sign_stats_record_wotsc_attempts attempts g)
         else if counter = max_counter
         then (Inl BITCOINPQC_SIGN_LIMIT_EXCEEDED,
               bitcoin_pqc_sign_stats_record_wotsc_cap
                 (bitcoin_pqc_sign_stats_record_wotsc_attempts attempts g))
         else wotsc_search hb msg max_counter (counter + 1) g)"
  by pat_completeness auto
termination
  by (relation "measure (\<lambda>(hb, msg, max_counter, counter, g). unat (max_counter - counter))")
    (auto intro: word_count_to)

declare wotsc_search.simps [simp del]

definition wotsc_compress_message_checked_bounded :: "hashblocks_fn \<Rightarrow> bytes \<Rightarrow> u32 \<Rightarrow> stats_ptr
    \<Rightarrow> (int + bytes \<times> u32 \<times> u32) \<times> stats_ptr" where
  "wotsc_compress_message_checked_bounded hb msg max_counter g = wotsc_search hb msg max_counter 0 g"

definition wotsc_compress_message_checked :: "build_config \<Rightarrow> hashblocks_fn \<Rightarrow> bytes \<Rightarrow> stats_ptr
    \<Rightarrow> (int + bytes \<times> u32 \<times> u32) \<times> stats_ptr" where
  "wotsc_compress_message_checked cfg hb msg g =
     (let max_counter = (if g \<noteq> None then WOTSC_MAX_COUNTER cfg else 0xFFFF)
      in wotsc_compress_message_checked_bounded hb msg max_counter g)"

definition chain_lengths :: "build_config \<Rightarrow> hashblocks_fn \<Rightarrow> bytes \<Rightarrow> stats_ptr
    \<Rightarrow> (int + u32 list) \<times> stats_ptr" where
  "chain_lengths cfg hb msg g =
     (case wotsc_compress_message_checked cfg hb msg g of
        (Inl result, g) \<Rightarrow> (Inl result, g)
      | (Inr (compressed_msg, counter, checksum), g) \<Rightarrow> (Inr (base_w SPX_WOTS_LEN1 compressed_msg), g))"

section \<open>Public key from a signature\<close>

definition wots_pk_chain :: "hashblocks_fn \<Rightarrow> spx_ctx \<Rightarrow> bytes \<Rightarrow> u32 list \<Rightarrow> bytes \<times> spx_addr \<Rightarrow> nat
    \<Rightarrow> bytes \<times> spx_addr" where
  "wots_pk_chain hb ctx sig lengths = (\<lambda>(pk, addr) i.
     let addr = set_chain_addr addr (of_nat i);
         (out, addr) = gen_chain hb (drop (i * SPX_N) sig) (lengths ! i)
           (of_nat SPX_WOTS_W - 1 - lengths ! i) ctx addr
     in (pk @ out, addr))"

definition wots_pk_from_sig :: "build_config \<Rightarrow> hashblocks_fn \<Rightarrow> bytes \<Rightarrow> bytes \<Rightarrow> spx_ctx \<Rightarrow> spx_addr
    \<Rightarrow> stats_ptr \<Rightarrow> (int + bytes) \<times> spx_addr \<times> stats_ptr" where
  "wots_pk_from_sig cfg hb sig msg ctx addr g =
     (case chain_lengths cfg hb msg g of
        (Inl _, g) \<Rightarrow> (Inl (-1), addr, g)
      | (Inr lengths, g) \<Rightarrow>
          (let (pk, addr) = foldl (wots_pk_chain hb ctx sig lengths) ([], addr) [0..<SPX_WOTS_LEN]
           in (Inr pk, addr, g)))"

section \<open>Leaf generation\<close>

record leaf_info_x1 =
  wots_sig :: "bytes option"
  wots_sign_leaf :: u32
  wots_steps :: "u32 list option"
  leaf_addr :: spx_addr
  pk_addr :: spx_addr

text \<open>One chain: \<open>k\<close> steps have been taken; the value at position \<open>wots_k\<close> is copied into the signature.\<close>

function wots_leaf_chain :: "hashblocks_fn \<Rightarrow> spx_ctx \<Rightarrow> bool \<Rightarrow> u32 \<Rightarrow> nat \<Rightarrow> u32 \<Rightarrow> bytes \<Rightarrow> bytes option
    \<Rightarrow> spx_addr \<Rightarrow> bytes \<times> bytes option \<times> spx_addr" where
  "wots_leaf_chain hb ctx do_sign wots_k i k buffer sig addr =
     (let sig = (if do_sign \<and> k = wots_k then map_option (put_bytes (i * SPX_N) buffer) sig else sig)
      in if k = of_nat SPX_WOTS_W - 1 then (buffer, sig, addr)
         else (let addr = set_hash_addr addr k
               in wots_leaf_chain hb ctx do_sign wots_k i (k + 1) (thash hb buffer 1 ctx addr) sig addr))"
  by pat_completeness auto
termination
  by (relation "measure (\<lambda>(hb, ctx, do_sign, wots_k, i, k, r). unat ((of_nat SPX_WOTS_W - 1) - k))")
    (auto intro: word_count_to [of _ "255::u32", simplified])

declare wots_leaf_chain.simps [simp del]

definition wots_leaf_step :: "hashblocks_fn \<Rightarrow> spx_ctx \<Rightarrow> bool \<Rightarrow> u32 list option
    \<Rightarrow> bytes \<times> bytes option \<times> spx_addr \<Rightarrow> nat \<Rightarrow> bytes \<times> bytes option \<times> spx_addr" where
  "wots_leaf_step hb ctx do_sign steps = (\<lambda>(pk_buffer, sig, addr) i.
     let wots_k = (if do_sign then the steps ! i else SPX_NO_SIGN_LEAF);
         addr = set_chain_addr addr (of_nat i);
         addr = set_hash_addr addr 0;
         addr = set_type addr SPX_ADDR_TYPE_WOTSPRF;
         buffer = prf_addr hb ctx addr;
         addr = set_type addr SPX_ADDR_TYPE_WOTS;
         (buffer, sig, addr) = wots_leaf_chain hb ctx do_sign wots_k i 0 buffer sig addr
     in (pk_buffer @ buffer, sig, addr))"

definition wots_gen_leafx1_scalar :: "hashblocks_fn \<Rightarrow> spx_ctx \<Rightarrow> u32 \<Rightarrow> leaf_info_x1 \<Rightarrow> bytes \<times> leaf_info_x1" where
  "wots_gen_leafx1_scalar hb ctx leaf_idx info =
     (let do_sign = (wots_steps info \<noteq> None \<and> wots_sig info \<noteq> None \<and>
            wots_sign_leaf info \<noteq> SPX_NO_SIGN_LEAF \<and> leaf_idx = wots_sign_leaf info);
          la = set_keypair_addr (leaf_addr info) leaf_idx;
          pa = set_keypair_addr (pk_addr info) leaf_idx;
          (pk_buffer, sig, la) =
            foldl (wots_leaf_step hb ctx do_sign (wots_steps info)) ([], wots_sig info, la) [0..<SPX_WOTS_LEN]
      in (thash hb pk_buffer SPX_WOTS_LEN ctx pa,
          info\<lparr>wots_sig := sig, leaf_addr := la, pk_addr := pa\<rparr>))"

text \<open>The dispatcher \<open>wots_gen_leafx1\<close> without the AVX2 unit.\<close>

definition wots_gen_leafx1 :: "hashblocks_fn \<Rightarrow> spx_ctx \<Rightarrow> u32 \<Rightarrow> leaf_info_x1 \<Rightarrow> bytes \<times> leaf_info_x1" where
  "wots_gen_leafx1 hb ctx leaf_idx info = wots_gen_leafx1_scalar hb ctx leaf_idx info"

section \<open>Digits and the counter search\<close>

lemma ucast_and_255: "(ucast (b :: u8) :: u32) AND 255 = ucast b"
proof -
  have "(ucast b :: u32) AND 255 = take_bit 8 (ucast b)" by (simp add: take_bit_eq_mask mask_eq_exp_minus_1)
  also have "\<dots> = ucast b"
    by (rule bit_word_eqI) (auto simp: bit_simps dest: bit_imp_le_length)
  finally show ?thesis .
qed

lemma base_w_loop_bytes:
  "inp + n \<le> length input \<Longrightarrow>
    base_w_loop input n inp tot 0 out = out @ map ucast (take n (drop inp input))"
proof (induction n arbitrary: inp tot out)
  case (Suc n)
  then have "take (Suc n) (drop inp input) = input ! inp # take n (drop (Suc inp) input)"
    by (simp add: take_Suc_conv_app_nth Cons_nth_drop_Suc [symmetric])
  with Suc show ?case by (simp add: ucast_and_255)
qed simp

lemma base_w_bytes: "n \<le> length input \<Longrightarrow> base_w n input = map ucast (take n input)"
  by (simp add: base_w_def base_w_loop_bytes)

definition wotsc_good :: "hashblocks_fn \<Rightarrow> bytes \<Rightarrow> u32 \<Rightarrow> bool" where
  "wotsc_good hb msg c \<longleftrightarrow> snd (wotsc_hash_counter hb msg c) = of_nat SPX_WOTSC_TARGET"

lemma wotsc_search_found:
  assumes "wotsc_good hb msg c" "c0 \<le> c" "c \<le> max_counter"
    and "\<And>c'. c0 \<le> c' \<Longrightarrow> c' < c \<Longrightarrow> \<not> wotsc_good hb msg c'"
  shows "wotsc_search hb msg max_counter c0 g =
    (Inr (fst (wotsc_hash_counter hb msg c), c, of_nat SPX_WOTSC_TARGET),
     bitcoin_pqc_sign_stats_record_wotsc_attempts (c + 1) g)"
  using assms(2,4)
proof (induction "unat c - unat c0" arbitrary: c0)
  case 0
  then have "c0 = c" by (simp add: word_le_nat_alt word_eq_unatI)
  then show ?case
    using assms(1) by (simp add: wotsc_search.simps [of _ _ _ c] wotsc_good_def Let_def case_prod_beta)
next
  case (Suc n)
  then have lt: "c0 < c" by (metis diff_is_0_eq nat.distinct(1) not_le word_le_nat_alt)
  have le: "c0 + 1 \<le> c" using lt by (metis Suc_leI unat_plus_one word_le_nat_alt word_less_nat_alt)
  have "\<not> wotsc_good hb msg c0" using Suc.prems(2) [of c0] lt by simp
  moreover have "c0 \<noteq> max_counter" using lt assms(3) by auto
  moreover have "wotsc_search hb msg max_counter (c0 + 1) g =
      (Inr (fst (wotsc_hash_counter hb msg c), c, of_nat SPX_WOTSC_TARGET),
       bitcoin_pqc_sign_stats_record_wotsc_attempts (c + 1) g)"
    using Suc.hyps(2) unat_plus_one [OF lt] Suc.prems(2) le lt
    by (intro Suc.hyps(1)) (auto simp: word_le_nat_alt)
  ultimately show ?case
    by (subst wotsc_search.simps) (simp add: wotsc_good_def Let_def case_prod_beta)
qed

lemma wotsc_search_capped:
  assumes "c0 \<le> max_counter" "\<And>c. c0 \<le> c \<Longrightarrow> c \<le> max_counter \<Longrightarrow> \<not> wotsc_good hb msg c"
  shows "wotsc_search hb msg max_counter c0 g =
    (Inl BITCOINPQC_SIGN_LIMIT_EXCEEDED,
     bitcoin_pqc_sign_stats_record_wotsc_cap
       (bitcoin_pqc_sign_stats_record_wotsc_attempts (max_counter + 1) g))"
  using assms
proof (induction "unat max_counter - unat c0" arbitrary: c0)
  case 0
  then have "c0 = max_counter" by (simp add: word_le_nat_alt word_eq_unatI)
  moreover have "\<not> wotsc_good hb msg c0" using 0 by simp
  ultimately show ?case
    by (subst wotsc_search.simps) (simp add: wotsc_good_def Let_def case_prod_beta)
next
  case (Suc n)
  then have lt: "c0 < max_counter" by (metis diff_is_0_eq nat.distinct(1) not_le word_le_nat_alt)
  have le: "c0 + 1 \<le> max_counter" using lt by (metis Suc_leI unat_plus_one word_le_nat_alt word_less_nat_alt)
  have "\<not> wotsc_good hb msg c0" using Suc.prems by simp
  moreover have "wotsc_search hb msg max_counter (c0 + 1) g = (Inl BITCOINPQC_SIGN_LIMIT_EXCEEDED,
      bitcoin_pqc_sign_stats_record_wotsc_cap
        (bitcoin_pqc_sign_stats_record_wotsc_attempts (max_counter + 1) g))"
    using Suc.hyps(2) unat_plus_one [OF lt] Suc.prems(2) le lt
    by (intro Suc.hyps(1)) (auto simp: word_le_nat_alt)
  ultimately show ?case
    using lt by (subst wotsc_search.simps) (auto simp: wotsc_good_def Let_def case_prod_beta)
qed

text \<open>The least good counter within the limit, if there is one.\<close>

lemma least_good:
  assumes "wotsc_good hb msg c" "c \<le> max_counter"
  obtains d where "wotsc_good hb msg d" "d \<le> max_counter" "\<And>c'. c' < d \<Longrightarrow> \<not> wotsc_good hb msg c'"
proof
  let ?d = "LEAST d. wotsc_good hb msg d"
  show "wotsc_good hb msg ?d" using assms(1) by (rule LeastI)
  show "?d \<le> max_counter" using assms Least_le order_trans by metis
  show "\<And>c'. c' < ?d \<Longrightarrow> \<not> wotsc_good hb msg c'" by (rule not_less_Least)
qed

lemma wotsc_compress_cases:
  obtains (found) d where "wotsc_good hb msg d" "d \<le> max_counter" "\<And>c. c < d \<Longrightarrow> \<not> wotsc_good hb msg c"
      "\<And>g. wotsc_compress_message_checked_bounded hb msg max_counter g =
        (Inr (fst (wotsc_hash_counter hb msg d), d, of_nat SPX_WOTSC_TARGET),
         bitcoin_pqc_sign_stats_record_wotsc_attempts (d + 1) g)"
  | (capped) "\<And>c. c \<le> max_counter \<Longrightarrow> \<not> wotsc_good hb msg c"
      "\<And>g. wotsc_compress_message_checked_bounded hb msg max_counter g =
        (Inl BITCOINPQC_SIGN_LIMIT_EXCEEDED,
         bitcoin_pqc_sign_stats_record_wotsc_cap
           (bitcoin_pqc_sign_stats_record_wotsc_attempts (max_counter + 1) g))"
proof (cases "\<exists>c\<le>max_counter. wotsc_good hb msg c")
  case True
  then obtain d where "wotsc_good hb msg d" "d \<le> max_counter" "\<And>c. c < d \<Longrightarrow> \<not> wotsc_good hb msg c"
    using least_good by metis
  then show thesis
    using wotsc_search_found [of hb msg d 0 max_counter]
    by (intro found) (auto simp: wotsc_compress_message_checked_bounded_def)
next
  case False
  then show thesis
    using wotsc_search_capped [of 0 max_counter hb msg]
    by (intro capped) (auto simp: wotsc_compress_message_checked_bounded_def)
qed

text \<open>A wider limit finds the same counter: what a bounded signer accepts, an unbounded verifier
  reproduces.\<close>

lemma wotsc_compress_widen:
  assumes "fst (wotsc_compress_message_checked_bounded hb msg m1 g1) = Inr r" "m1 \<le> m2"
  shows "fst (wotsc_compress_message_checked_bounded hb msg m2 g2) = Inr r"
proof (cases rule: wotsc_compress_cases [of hb msg m1])
  case (found d)
  have "wotsc_compress_message_checked_bounded hb msg m2 g2 =
      (Inr (fst (wotsc_hash_counter hb msg d), d, of_nat SPX_WOTSC_TARGET),
       bitcoin_pqc_sign_stats_record_wotsc_attempts (d + 1) g2)"
    unfolding wotsc_compress_message_checked_bounded_def
    using found(1-3) assms(2) by (intro wotsc_search_found) auto
  with assms(1) found(4) show ?thesis by simp
qed (use assms(1) in simp)

lemma chain_lengths_widen:
  assumes "fst (chain_lengths cfg hb msg g) = Inr lengths" "valid_config cfg"
  shows "fst (chain_lengths cfg hb msg None) = Inr lengths"
proof -
  let ?m = "if g \<noteq> None then WOTSC_MAX_COUNTER cfg else 0xFFFF"
  obtain r where r: "fst (wotsc_compress_message_checked_bounded hb msg ?m g) = Inr r"
    and l: "lengths = base_w SPX_WOTS_LEN1 (fst r)"
    using assms(1)
    by (auto simp: chain_lengths_def wotsc_compress_message_checked_def Let_def split: prod.splits sum.splits)
  have "?m \<le> 0xFFFF" using assms(2) by (simp add: valid_config_def)
  with wotsc_compress_widen [OF r, of "0xFFFF" None] l show ?thesis
    by (auto simp: chain_lengths_def wotsc_compress_message_checked_def split: prod.splits sum.splits)
qed

lemma chain_lengths_None: "snd (chain_lengths cfg hb msg None) = None"
proof -
  have "snd (wotsc_compress_message_checked_bounded hb msg 0xFFFF None) = None"
    by (cases rule: wotsc_compress_cases [of hb msg "0xFFFF"]) (simp_all add: stats_defs)
  then show ?thesis
    by (auto simp: chain_lengths_def wotsc_compress_message_checked_def split: prod.splits sum.splits)
qed

section \<open>Chains as iterations\<close>

text \<open>\<open>chain_iter hb ctx A s n x\<close> applies the chain steps \<open>s, \<dots>, s + n - 1\<close> of address \<open>A\<close> to \<open>x\<close>.\<close>

primrec chain_iter :: "hashblocks_fn \<Rightarrow> spx_ctx \<Rightarrow> spx_addr \<Rightarrow> nat \<Rightarrow> nat \<Rightarrow> bytes \<Rightarrow> bytes" where
  "chain_iter hb ctx A s 0 x = x"
| "chain_iter hb ctx A s (Suc n) x =
     thash hb (chain_iter hb ctx A s n x) 1 ctx (set_hash_addr A (of_nat (s + n)))"

lemma chain_iter_Suc:
  "chain_iter hb ctx A s (Suc n) x
    = chain_iter hb ctx A (Suc s) n (thash hb x 1 ctx (set_hash_addr A (of_nat s)))"
  by (induction n) simp_all

lemma chain_iter_add:
  "chain_iter hb ctx A s (m + n) x = chain_iter hb ctx A (s + m) n (chain_iter hb ctx A s m x)"
  by (induction n) (simp_all add: add.assoc)

text \<open>Fields of a WOTS address that the chain computations overwrite.\<close>

abbreviation hash_field :: "nat set" where "hash_field \<equiv> {21}"

lemma hash_addr_unique: "agree_except hash_field a b \<Longrightarrow> set_hash_addr a k = set_hash_addr b k"
  by (rule addr_eqI) (auto simp: agree_except_def addr_nth addr_len)

lemma agree_hash_set: "agree_except hash_field a b \<Longrightarrow> agree_except hash_field (set_hash_addr a k) b"
  by (auto simp: agree_except_def addr_nth addr_len)

lemma gen_chain_loop_iter:
  assumes "s + n \<le> 256" "agree_except hash_field addr A"
  shows "\<exists>addr'. gen_chain_loop hb ctx (of_nat (s + n)) (of_nat s) x addr = (chain_iter hb ctx A s n x, addr')
    \<and> agree_except hash_field addr' A"
  using assms
proof (induction n arbitrary: s x addr)
  case 0
  then show ?case by (simp add: gen_chain_loop.simps)
next
  case (Suc n)
  have u: "unat (of_nat s :: u32) = s" "unat (of_nat (s + Suc n) :: u32) = s + Suc n"
    using Suc.prems(1) by (intro unat_of_nat_small; simp)+
  then have g: "(of_nat s :: u32) < of_nat (s + Suc n)" "(of_nat s :: u32) < 256"
    using Suc.prems(1) by (simp_all only: word_less_nat_alt) simp_all
  have a: "set_hash_addr addr (of_nat s) = set_hash_addr A (of_nat s)"
    using Suc.prems(2) by (rule hash_addr_unique)
  let ?x = "thash hb x 1 ctx (set_hash_addr A (of_nat s))"
  have suc: "of_nat s + 1 = (of_nat (Suc s) :: u32)" "s + Suc n = Suc s + n" by simp_all
  from Suc.IH [of "Suc s" "set_hash_addr A (of_nat s)" ?x] Suc.prems a
  obtain addr' where "gen_chain_loop hb ctx (of_nat (Suc s + n)) (of_nat (Suc s)) ?x (set_hash_addr A (of_nat s))
      = (chain_iter hb ctx A (Suc s) n ?x, addr')" "agree_except hash_field addr' A"
    using agree_hash_set [of addr A "of_nat s"] by auto
  then show ?case
    using g unfolding chain_iter_Suc suc(1)
    by (subst gen_chain_loop.simps) (simp only: a suc Let_def, simp)
qed

lemma gen_chain_iter:
  assumes "unat start + unat steps \<le> 256" "length x = 16" "agree_except hash_field addr A"
  shows "\<exists>addr'. gen_chain hb x start steps ctx addr = (chain_iter hb ctx A (unat start) (unat steps) x, addr')
    \<and> agree_except hash_field addr' A"
  using gen_chain_loop_iter [OF assms(1,3), of hb ctx x] assms(2) by (simp add: gen_chain_def)

section \<open>The leaf generator\<close>

text \<open>The secret start and the values of chain \<open>i\<close> of the key pair address \<open>A\<close>.\<close>

definition wots_sk :: "hashblocks_fn \<Rightarrow> spx_ctx \<Rightarrow> spx_addr \<Rightarrow> nat \<Rightarrow> bytes" where
  "wots_sk hb ctx A i =
     prf_addr hb ctx (set_type (set_hash_addr (set_chain_addr A (of_nat i)) 0) SPX_ADDR_TYPE_WOTSPRF)"

definition wots_chain_addr :: "spx_addr \<Rightarrow> nat \<Rightarrow> spx_addr" where
  "wots_chain_addr A i = set_type (set_hash_addr (set_chain_addr A (of_nat i)) 0) SPX_ADDR_TYPE_WOTS"

definition wots_value :: "hashblocks_fn \<Rightarrow> spx_ctx \<Rightarrow> spx_addr \<Rightarrow> nat \<Rightarrow> nat \<Rightarrow> bytes" where
  "wots_value hb ctx A i n = chain_iter hb ctx (wots_chain_addr A i) 0 n (wots_sk hb ctx A i)"

definition wots_public :: "hashblocks_fn \<Rightarrow> spx_ctx \<Rightarrow> spx_addr \<Rightarrow> bytes" where
  "wots_public hb ctx A = concat (map (\<lambda>i. wots_value hb ctx A i 255) [0..<16])"

definition wots_signature :: "hashblocks_fn \<Rightarrow> spx_ctx \<Rightarrow> spx_addr \<Rightarrow> u32 list \<Rightarrow> bytes" where
  "wots_signature hb ctx A steps = concat (map (\<lambda>i. wots_value hb ctx A i (unat (steps ! i))) [0..<16])"

text \<open>The leaf of one key pair, from the base addresses of the tree.\<close>

definition wots_leaf :: "hashblocks_fn \<Rightarrow> spx_ctx \<Rightarrow> spx_addr \<Rightarrow> spx_addr \<Rightarrow> u32 \<Rightarrow> bytes" where
  "wots_leaf hb ctx la pa leaf_idx = thash hb (wots_public hb ctx (set_keypair_addr la leaf_idx)) 16 ctx
     (set_keypair_addr pa leaf_idx)"

abbreviation leaf_fields :: "nat set" where "leaf_fields \<equiv> {9..<14} \<union> {17, 21}"
abbreviation keypair_field :: "nat set" where "keypair_field \<equiv> {10..<14}"

abbreviation wots_fields :: "nat set" where "wots_fields \<equiv> {9, 17, 21}"

lemma wots_addr_unique:
  assumes "agree_except wots_fields a A"
  shows "set_type (set_hash_addr (set_chain_addr a c) h) y = set_type (set_hash_addr (set_chain_addr A c) h) y"
    "agree_except wots_fields (set_type (set_hash_addr (set_chain_addr a c) h) y) A"
  using assms by (auto intro!: addr_eqI simp: agree_except_def addr_nth addr_len)

lemma agree_weaken: "agree_except S a b \<Longrightarrow> S \<subseteq> T \<Longrightarrow> agree_except T a b"
  by (auto simp: agree_except_def)

lemma wots_chain_addr_agree: "valid_addr A \<Longrightarrow> agree_except wots_fields (wots_chain_addr A i) A"
  by (auto simp: wots_chain_addr_def agree_except_def addr_nth addr_len)

lemma unat_numeral_32_255: "unat (255 :: u32) = 255"
  by simp

lemma wots_leaf_chain_run:
  assumes "k \<le> 255" "agree_except hash_field addr C"
  shows "\<exists>addr'. wots_leaf_chain hb ctx ds wk i (of_nat k) (chain_iter hb ctx C 0 k x) sig addr =
    (chain_iter hb ctx C 0 255 x,
     (if ds \<and> k \<le> unat wk \<and> unat wk \<le> 255
      then map_option (put_bytes (i * 16) (chain_iter hb ctx C 0 (unat wk) x)) sig else sig), addr')
    \<and> agree_except hash_field addr' C"
  using assms
proof (induction "255 - k" arbitrary: k sig addr)
  case 0
  then have k: "k = 255" by simp
  have "(255 = wk) = (unat wk = 255)" by (metis unat_numeral_32_255 word_eq_unatI)
  then show ?case
    using 0 unfolding k by (subst wots_leaf_chain.simps) auto
next
  case (Suc n)
  have u: "unat (of_nat k :: u32) = k" using Suc.hyps(2) by (intro unat_of_nat_small) simp
  have ne: "(of_nat k :: u32) \<noteq> 255"
    using u Suc.hyps(2) by (metis Zero_not_Suc diff_self_eq_0 unat_numeral_32_255)
  have eq: "(of_nat k = wk) = (unat wk = k)" using u by (metis word_eq_unatI)
  let ?sig = "if ds \<and> of_nat k = wk then map_option (put_bytes (i * 16) (chain_iter hb ctx C 0 k x)) sig else sig"
  have a: "set_hash_addr addr (of_nat k) = set_hash_addr C (of_nat k)"
    using Suc.prems(2) by (rule hash_addr_unique)
  have suc: "of_nat k + 1 = (of_nat (Suc k) :: u32)" by simp
  have hk: "n = 255 - Suc k" "Suc k \<le> 255" using Suc.hyps(2) by simp_all
  have ag: "agree_except hash_field (set_hash_addr C (of_nat k)) C"
    using agree_hash_set [OF Suc.prems(2), of "of_nat k"] a by simp
  obtain addr' where IH: "wots_leaf_chain hb ctx ds wk i (of_nat (Suc k)) (chain_iter hb ctx C 0 (Suc k) x) ?sig
      (set_hash_addr C (of_nat k)) = (chain_iter hb ctx C 0 255 x,
       (if ds \<and> Suc k \<le> unat wk \<and> unat wk \<le> 255
        then map_option (put_bytes (i * 16) (chain_iter hb ctx C 0 (unat wk) x)) ?sig else ?sig), addr')"
    and addr': "agree_except hash_field addr' C"
    using Suc.hyps(1) [OF hk ag, of ?sig] by blast
  have "wots_leaf_chain hb ctx ds wk i (of_nat k) (chain_iter hb ctx C 0 k x) sig addr =
      wots_leaf_chain hb ctx ds wk i (of_nat (Suc k)) (chain_iter hb ctx C 0 (Suc k) x) ?sig (set_hash_addr C (of_nat k))"
    using ne by (subst wots_leaf_chain.simps) (simp add: a suc Let_def del: of_nat_Suc)
  also note IH
  finally show ?case
    using addr' eq Suc.hyps(2) by (auto simp: le_eq_less_or_eq Suc_le_eq)
qed

context seeded
begin

lemma length_chain_iter: "length x = 16 \<Longrightarrow> length (chain_iter hb ctx A s n x) = 16"
  by (cases n) simp_all

lemma length_wots_value: "length (wots_value hb ctx A i n) = 16"
  by (simp add: wots_value_def length_chain_iter wots_sk_def)

lemma length_wots_public: "length (wots_public hb ctx A) = 256"
  unfolding wots_public_def by (subst length_concat_const [where k = 16]) (simp_all add: length_wots_value)

lemma length_wots_signature: "length (wots_signature hb ctx A steps) = 256"
  unfolding wots_signature_def by (subst length_concat_const [where k = 16]) (simp_all add: length_wots_value)

lemma wots_leaf_step_run:
  assumes "agree_except wots_fields addr A" "ds \<Longrightarrow> steps = Some st \<and> unat (st ! i) \<le> 255"
  shows "\<exists>addr'. wots_leaf_step hb ctx ds steps (pk, sig, addr) i =
    (pk @ wots_value hb ctx A i 255,
     (if ds then map_option (put_bytes (i * 16) (wots_value hb ctx A i (unat (st ! i)))) sig else sig), addr')
    \<and> agree_except wots_fields addr' A"
proof -
  let ?wk = "if ds then the steps ! i else SPX_NO_SIGN_LEAF"
  have va: "valid_addr A" using assms(1) by (simp add: agree_except_def)
  note eq = wots_addr_unique(1) [OF assms(1)]
  have ty: "set_type (set_type a y) z = set_type a z" for a y z by (simp add: set_type_def)
  have "agree_except hash_field (wots_chain_addr A i) (wots_chain_addr A i)"
    using va by (simp add: agree_except_refl wots_chain_addr_def addr_len)
  from wots_leaf_chain_run [OF _ this, of 0 hb ctx ds ?wk i "wots_sk hb ctx A i" sig]
  obtain addr' where run: "wots_leaf_chain hb ctx ds ?wk i 0 (wots_sk hb ctx A i) sig (wots_chain_addr A i) =
     (wots_value hb ctx A i 255,
      (if ds then map_option (put_bytes (i * 16) (wots_value hb ctx A i (unat (st ! i)))) sig else sig), addr')"
    and ag: "agree_except hash_field addr' (wots_chain_addr A i)"
    using assms(2) by (auto simp: wots_value_def)
  have "agree_except wots_fields addr' A"
    using agree_weaken [OF ag, of wots_fields] wots_chain_addr_agree [OF va, of i] agree_except_trans by blast
  moreover have "wots_leaf_step hb ctx ds steps (pk, sig, addr) i =
      (case wots_leaf_chain hb ctx ds ?wk i 0 (wots_sk hb ctx A i) sig (wots_chain_addr A i) of
        (buffer, sig, addr) \<Rightarrow> (pk @ buffer, sig, addr))"
    by (simp only: wots_leaf_step_def Let_def prod.case ty eq wots_sk_def wots_chain_addr_def)
  ultimately show ?thesis using run by simp
qed

lemma wots_leaf_fold:
  assumes "agree_except wots_fields addr A" "n \<le> 16"
    and "ds \<Longrightarrow> steps = Some st \<and> (\<forall>i<16. unat (st ! i) \<le> 255) \<and> sig = Some s0 \<and> length s0 = 256"
  shows "\<exists>addr'. foldl (wots_leaf_step hb ctx ds steps) ([], sig, addr) [0..<n] =
    (concat (map (\<lambda>i. wots_value hb ctx A i 255) [0..<n]),
     (if ds then Some (concat (map (\<lambda>i. wots_value hb ctx A i (unat (st ! i))) [0..<n]) @ drop (16 * n) s0)
      else sig), addr')
    \<and> agree_except wots_fields addr' A"
  using assms(2)
proof (induction n)
  case 0
  then show ?case using assms(1,3) by (cases ds) simp_all
next
  case (Suc n)
  let ?c = "concat (map (\<lambda>i. wots_value hb ctx A i (unat (st ! i))) [0..<n])"
  obtain a1 where IH: "foldl (wots_leaf_step hb ctx ds steps) ([], sig, addr) [0..<n] =
      (concat (map (\<lambda>i. wots_value hb ctx A i 255) [0..<n]),
       (if ds then Some (?c @ drop (16 * n) s0) else sig), a1)" and a1: "agree_except wots_fields a1 A"
    using Suc.IH Suc_leD [OF Suc.prems] by blast
  have st: "ds \<Longrightarrow> steps = Some st \<and> unat (st ! n) \<le> 255" using assms(3) Suc.prems by auto
  have "length ?c = 16 * n"
    by (subst length_concat_const [where k = 16]) (simp_all add: length_wots_value)
  then have "put_bytes (n * 16) v (?c @ drop (16 * n) s0) = ?c @ v @ drop (16 * Suc n) s0"
    if "length v = 16" for v
    using that by (simp add: put_bytes_def mult.commute)
  then have put: "(if ds then map_option (put_bytes (n * 16) (wots_value hb ctx A n (unat (st ! n))))
        (if ds then Some (?c @ drop (16 * n) s0) else sig) else (if ds then Some (?c @ drop (16 * n) s0) else sig))
      = (if ds then Some (concat (map (\<lambda>i. wots_value hb ctx A i (unat (st ! i))) [0..<Suc n]) @ drop (16 * Suc n) s0)
         else sig)"
    using length_wots_value by simp
  obtain a2 where "wots_leaf_step hb ctx ds steps (concat (map (\<lambda>i. wots_value hb ctx A i 255) [0..<n]),
        if ds then Some (?c @ drop (16 * n) s0) else sig, a1) n =
      (concat (map (\<lambda>i. wots_value hb ctx A i 255) [0..<n]) @ wots_value hb ctx A n 255,
       (if ds then Some (concat (map (\<lambda>i. wots_value hb ctx A i (unat (st ! i))) [0..<Suc n]) @ drop (16 * Suc n) s0)
        else sig), a2)" "agree_except wots_fields a2 A"
    using wots_leaf_step_run [OF a1 st] unfolding put [symmetric] by blast
  moreover have "foldl (wots_leaf_step hb ctx ds steps) ([], sig, addr) [0..<Suc n] =
      wots_leaf_step hb ctx ds steps (foldl (wots_leaf_step hb ctx ds steps) ([], sig, addr) [0..<n]) n"
    by simp
  ultimately show ?case unfolding IH by (intro exI [of _ a2]) simp
qed

lemma keypair_addr_agree:
  "agree_except leaf_fields a b \<Longrightarrow> agree_except wots_fields (set_keypair_addr a i) (set_keypair_addr b i)"
  "agree_except keypair_field a b \<Longrightarrow> set_keypair_addr a i = set_keypair_addr b i"
  "agree_except keypair_field a b \<Longrightarrow> agree_except keypair_field (set_keypair_addr a i) b"
  by (auto intro!: addr_eqI simp: agree_except_def addr_nth addr_len)

lemma keypair_addr_agree':
  "valid_addr la \<Longrightarrow> agree_except wots_fields a (set_keypair_addr la i) \<Longrightarrow> agree_except leaf_fields a la"
  by (auto simp: agree_except_def addr_nth addr_len)

lemma wots_gen_leafx1_run:
  fixes info :: leaf_info_x1 and leaf_idx :: u32
  defines "ds \<equiv> wots_steps info \<noteq> None \<and> wots_sig info \<noteq> None \<and> wots_sign_leaf info \<noteq> SPX_NO_SIGN_LEAF \<and>
      leaf_idx = wots_sign_leaf info"
  assumes "agree_except leaf_fields (leaf_addr info) la" "agree_except keypair_field (pk_addr info) pa"
    and "ds \<Longrightarrow> (\<forall>i<16. unat (the (wots_steps info) ! i) \<le> 255) \<and> length (the (wots_sig info)) = 256"
  shows "\<exists>la' pa'. wots_gen_leafx1 hb ctx leaf_idx info =
    (wots_leaf hb ctx la pa leaf_idx,
     info\<lparr>wots_sig := (if ds then Some (wots_signature hb ctx (set_keypair_addr la leaf_idx) (the (wots_steps info)))
            else wots_sig info), leaf_addr := la', pk_addr := pa'\<rparr>)
    \<and> agree_except leaf_fields la' la \<and> agree_except keypair_field pa' pa"
proof -
  let ?A = "set_keypair_addr la leaf_idx"
  have va: "valid_addr la" using assms(2) by (simp add: agree_except_def)
  have "\<exists>addr'. foldl (wots_leaf_step hb ctx ds (wots_steps info))
      ([], wots_sig info, set_keypair_addr (leaf_addr info) leaf_idx) [0..<16] =
      (concat (map (\<lambda>i. wots_value hb ctx ?A i 255) [0..<16]),
       (if ds then Some (concat (map (\<lambda>i. wots_value hb ctx ?A i (unat (the (wots_steps info) ! i))) [0..<16])
          @ drop (16 * 16) (the (wots_sig info))) else wots_sig info), addr')
      \<and> agree_except wots_fields addr' ?A"
    using assms(4) by (intro wots_leaf_fold keypair_addr_agree(1) assms(2)) (auto simp: ds_def)
  then obtain la' where f: "foldl (wots_leaf_step hb ctx ds (wots_steps info))
      ([], wots_sig info, set_keypair_addr (leaf_addr info) leaf_idx) [0..<16] =
      (wots_public hb ctx ?A,
       (if ds then Some (wots_signature hb ctx ?A (the (wots_steps info))) else wots_sig info), la')"
    and la': "agree_except wots_fields la' ?A"
    using assms(4) by (auto simp: wots_public_def wots_signature_def)
  show ?thesis
  proof (intro exI conjI)
    have len: "SPX_WOTS_LEN = 16" by simp
    show "wots_gen_leafx1 hb ctx leaf_idx info = (wots_leaf hb ctx la pa leaf_idx,
     info\<lparr>wots_sig := (if ds then Some (wots_signature hb ctx (set_keypair_addr la leaf_idx) (the (wots_steps info)))
            else wots_sig info), leaf_addr := la', pk_addr := set_keypair_addr pa leaf_idx\<rparr>)"
      unfolding wots_gen_leafx1_def wots_gen_leafx1_scalar_def Let_def len ds_def [symmetric] f
        keypair_addr_agree(2) [OF assms(3)] by (simp add: wots_leaf_def)
    show "agree_except leaf_fields la' la" by (rule keypair_addr_agree' [OF va la'])
    show "agree_except keypair_field (set_keypair_addr pa leaf_idx) pa"
      using keypair_addr_agree(2,3) [OF assms(3), of leaf_idx] by simp
  qed
qed

lemma chain_addr_agree:
  assumes "agree_except chain_fields addr (set_type A SPX_ADDR_TYPE_WOTS)" "valid_addr A"
  shows "agree_except hash_field (set_chain_addr addr (of_nat i)) (wots_chain_addr A i)"
  using assms by (auto simp: agree_except_def wots_chain_addr_def addr_nth addr_len)

lemma chain_addr_agree':
  assumes "agree_except hash_field addr (wots_chain_addr A i)" "valid_addr A"
  shows "agree_except chain_fields addr (set_type A SPX_ADDR_TYPE_WOTS)"
  using assms by (auto simp: agree_except_def wots_chain_addr_def addr_nth addr_len)

lemma wots_pk_chain_run:
  assumes "agree_except chain_fields addr (set_type A SPX_ADDR_TYPE_WOTS)" "valid_addr A"
    and "unat (lengths ! i) \<le> 255" "i < 16"
  shows "\<exists>addr'. wots_pk_chain hb ctx (wots_signature hb ctx A lengths) lengths (pk, addr) i =
      (pk @ wots_value hb ctx A i 255, addr') \<and> agree_except chain_fields addr' (set_type A SPX_ADDR_TYPE_WOTS)"
proof -
  let ?l = "lengths ! i"
  let ?sig = "drop (i * 16) (wots_signature hb ctx A lengths)"
  have s: "unat (255 - ?l) = 255 - unat ?l"
    using assms(3) by (subst unat_sub) (simp_all add: word_le_nat_alt)
  have sig: "take 16 ?sig = wots_value hb ctx A i (unat ?l)"
    using get_bytes_concat_map [of 16 "\<lambda>i. wots_value hb ctx A i (unat (lengths ! i))" 16 i]
      length_wots_value assms(4)
    by (simp add: get_bytes_def wots_signature_def mult.commute)
  obtain addr' where g: "gen_chain hb (take 16 ?sig) ?l (255 - ?l) ctx (set_chain_addr addr (of_nat i)) =
      (chain_iter hb ctx (wots_chain_addr A i) (unat ?l) (unat (255 - ?l)) (take 16 ?sig), addr')"
    and a: "agree_except hash_field addr' (wots_chain_addr A i)"
    using gen_chain_iter [OF _ _ chain_addr_agree [OF assms(1,2), of i], of ?l "255 - ?l" "take 16 ?sig" hb ctx]
      s assms(3) sig length_wots_value by auto
  have "gen_chain hb ?sig ?l (255 - ?l) ctx (set_chain_addr addr (of_nat i)) =
      gen_chain hb (take 16 ?sig) ?l (255 - ?l) ctx (set_chain_addr addr (of_nat i))"
    by (simp add: gen_chain_def)
  also have "chain_iter hb ctx (wots_chain_addr A i) (unat ?l) (unat (255 - ?l)) (take 16 ?sig) = wots_value hb ctx A i 255"
    unfolding sig s wots_value_def
    using chain_iter_add [of hb ctx "wots_chain_addr A i" 0 "unat ?l" "255 - unat ?l"] assms(3) by simp
  ultimately show ?thesis
    using g chain_addr_agree' [OF a assms(2)] by (simp add: wots_pk_chain_def)
qed

lemma wots_pk_chain_fold:
  assumes "agree_except chain_fields addr (set_type A SPX_ADDR_TYPE_WOTS)" "valid_addr A"
    and "\<forall>i<16. unat (lengths ! i) \<le> 255" "n \<le> 16"
  shows "\<exists>addr'. foldl (wots_pk_chain hb ctx (wots_signature hb ctx A lengths) lengths) ([], addr) [0..<n] =
      (concat (map (\<lambda>i. wots_value hb ctx A i 255) [0..<n]), addr')
      \<and> agree_except chain_fields addr' (set_type A SPX_ADDR_TYPE_WOTS)"
  using assms(4)
proof (induction n)
  case (Suc n)
  then obtain a1 where "foldl (wots_pk_chain hb ctx (wots_signature hb ctx A lengths) lengths) ([], addr) [0..<n] =
      (concat (map (\<lambda>i. wots_value hb ctx A i 255) [0..<n]), a1)"
    and a1: "agree_except chain_fields a1 (set_type A SPX_ADDR_TYPE_WOTS)"
    using Suc_leD by blast
  then show ?case
    using wots_pk_chain_run [OF a1 assms(2), of lengths n "concat (map (\<lambda>i. wots_value hb ctx A i 255) [0..<n])"]
      assms(3) Suc.prems by simp
qed (use assms(1) in simp)

end

text \<open>The checksum is the sum of the distances to the chain ends, without wrap-around.\<close>

lemma wotsc_checksum_sum:
  assumes "length ls \<le> 16" "\<And>l. l \<in> set ls \<Longrightarrow> unat l \<le> 255"
  shows "unat (wotsc_checksum ls) = (\<Sum>l\<leftarrow>ls. 255 - unat l) \<and> (\<Sum>l\<leftarrow>ls. 255 - unat l) \<le> 255 * length ls"
  using assms
proof (induction ls rule: rev_induct)
  case (snoc x xs)
  have x: "unat (255 - x) = 255 - unat x" using snoc.prems(2) [of x] by (subst unat_sub) (simp_all add: word_le_nat_alt)
  have xs: "unat (wotsc_checksum xs) = (\<Sum>l\<leftarrow>xs. 255 - unat l)" "(\<Sum>l\<leftarrow>xs. 255 - unat l) \<le> 255 * length xs"
    using snoc.IH snoc.prems by simp_all
  have "wotsc_checksum (xs @ [x]) = wotsc_checksum xs + (255 - x)" by (simp add: wotsc_checksum_def)
  moreover have "unat (wotsc_checksum xs + (255 - x)) = unat (wotsc_checksum xs) + unat (255 - x)"
    using xs snoc.prems(1) x by (intro unat_add_lem [THEN iffD1]) simp
  ultimately show ?case using xs x by simp
qed (simp_all add: wotsc_checksum_def)

context sha256_backend
begin

lemma chain_lengths_digits:
  assumes "fst (chain_lengths cfg hb msg g) = Inr lengths"
  shows "length lengths = 16" "\<forall>i<16. unat (lengths ! i) \<le> 255"
proof -
  define max_counter where "max_counter = (if g \<noteq> None then WOTSC_MAX_COUNTER cfg else 0xFFFF)"
  obtain c d s where "fst (wotsc_compress_message_checked_bounded hb msg max_counter g) = Inr (c, d, s)"
    and l: "lengths = base_w 16 c"
    using assms unfolding max_counter_def
    by (auto simp: chain_lengths_def wotsc_compress_message_checked_def Let_def split: prod.splits sum.splits)
  then have "\<exists>d. c = fst (wotsc_hash_counter hb msg d)"
    by (cases rule: wotsc_compress_cases [of hb msg max_counter]) auto
  then have "length c = 16" by (auto simp: wotsc_hash_counter_def Let_def sha256_eq_md length_sha256_md)
  then have "lengths = map ucast c" using l by (simp add: base_w_bytes)
  moreover have "unat (ucast (b :: u8) :: u32) \<le> 255" for b
  proof -
    have "unat b < 2 ^ LENGTH(8)" by (rule unsigned_less)
    then show ?thesis by (simp add: unsigned_ucast_eq take_bit_nat_eq_self)
  qed
  ultimately show "length lengths = 16" "\<forall>i<16. unat (lengths ! i) \<le> 255"
    using \<open>length c = 16\<close> by simp_all
qed

lemma chain_lengths_sum:
  assumes "fst (chain_lengths cfg hb msg g) = Inr lengths"
  shows "(\<Sum>i<16. unat (lengths ! i)) = SPX_WOTSC_TARGET"
proof -
  note d = chain_lengths_digits [OF assms]
  have le: "unat l \<le> 255" if "l \<in> set lengths" for l using that d by (metis in_set_conv_nth)
  define max_counter where "max_counter = (if g \<noteq> None then WOTSC_MAX_COUNTER cfg else 0xFFFF)"
  obtain c ctr cs where r: "fst (wotsc_compress_message_checked_bounded hb msg max_counter g) = Inr (c, ctr, cs)"
    and l: "lengths = base_w 16 c"
    using assms unfolding max_counter_def
    by (auto simp: chain_lengths_def wotsc_compress_message_checked_def Let_def split: prod.splits sum.splits)
  have "wotsc_checksum lengths = 2040"
    by (rule wotsc_compress_cases [of hb msg max_counter])
      (use r l in \<open>auto simp: wotsc_good_def wotsc_hash_counter_def Let_def\<close>)
  then have "(\<Sum>l\<leftarrow>lengths. 255 - unat l) = 2040"
    using wotsc_checksum_sum [of lengths] d(1) le by simp
  then have "(\<Sum>i<16. 255 - unat (lengths ! i)) = 2040"
    by (simp add: sum_list_sum_nth d(1) atLeast0LessThan)
  moreover have "(\<Sum>i<16. unat (lengths ! i)) + (\<Sum>i<16. 255 - unat (lengths ! i)) = (\<Sum>i<(16::nat). 255)"
    unfolding sum.distrib [symmetric] using d(2) by (intro sum.cong) auto
  ultimately show ?thesis by simp
qed

end

context seeded
begin

text \<open>Verification recovers the signer's WOTS public key, also when the signer ran under a tighter
  counter limit.\<close>

theorem wots_pk_from_sig_correct:
  assumes "fst (chain_lengths cfg hb msg g) = Inr lengths" "valid_config cfg" "valid_addr A"
    and "agree_except chain_fields addr (set_type A SPX_ADDR_TYPE_WOTS)"
  shows "\<exists>addr'. wots_pk_from_sig cfg hb (wots_signature hb ctx A lengths) msg ctx addr None
      = (Inr (wots_public hb ctx A), addr', None)
      \<and> agree_except chain_fields addr' (set_type A SPX_ADDR_TYPE_WOTS)"
proof -
  have "fst (chain_lengths cfg hb msg None) = Inr lengths"
    using chain_lengths_widen [OF assms(1,2)] .
  moreover have "snd (chain_lengths cfg hb msg None) = None"
    by (rule chain_lengths_None)
  ultimately have c: "chain_lengths cfg hb msg None = (Inr lengths, None)" by (simp add: prod_eq_iff)
  have len: "SPX_WOTS_LEN = 16" by simp
  obtain addr' where "foldl (wots_pk_chain hb ctx (wots_signature hb ctx A lengths) lengths) ([], addr) [0..<16] =
      (wots_public hb ctx A, addr')" "agree_except chain_fields addr' (set_type A SPX_ADDR_TYPE_WOTS)"
    using wots_pk_chain_fold [OF assms(4,3) chain_lengths_digits(2) [OF assms(1)], of 16]
    by (auto simp: wots_public_def)
  then show ?thesis
    by (simp only: wots_pk_from_sig_def c len prod.case sum.case Let_def) simp
qed

end

text \<open>Only the first 256 bytes of the signature are read.\<close>

lemma wots_pk_from_sig_prefix:
  assumes "length s = 256"
  shows "wots_pk_from_sig cfg hb (s @ rest) msg ctx addr g = wots_pk_from_sig cfg hb s msg ctx addr g"
proof -
  have "wots_pk_chain hb ctx (s @ rest) lengths x i = wots_pk_chain hb ctx s lengths x i" if "i < 16" for x i lengths
  proof -
    have "take 16 (drop (i * 16) (s @ rest)) = take 16 (drop (i * 16) s)" using assms that by simp
    then show ?thesis by (cases x) (simp add: wots_pk_chain_def gen_chain_def del: drop_append take_append)
  qed
  then have "foldl (wots_pk_chain hb ctx (s @ rest) lengths) x [0..<16] = foldl (wots_pk_chain hb ctx s lengths) x [0..<16]"
    for x lengths by (intro foldl_cong) auto
  then show ?thesis by (simp add: wots_pk_from_sig_def cong: sum.case_cong)
qed

end
