(* ===== verification/Merkle.thy ===== *)
theory Merkle
  imports Wots
begin

text \<open>
  The hypertree layer: \<open>merkle_sign\<close> and \<open>merkle_gen_root\<close> of \<open>sphincsplus/ref/merkle.c\<close>
  (scalar path).  The signature buffer \<open>sig\<close> is the WOTS signature followed by the authentication path;
  \<open>root\<close> is read as the message and then overwritten with the tree's root, as in the code.  The WOTS
  leaf generator is shown to satisfy the contract \<open>leaf_generator\<close>, from which the subtree theorem
  follows.
\<close>

definition merkle_sign_scalar :: "build_config \<Rightarrow> hashblocks_fn \<Rightarrow> bytes \<Rightarrow> bytes \<Rightarrow> spx_ctx \<Rightarrow> spx_addr \<Rightarrow> spx_addr
    \<Rightarrow> u32 \<Rightarrow> stats_ptr \<Rightarrow> int \<times> bytes \<times> bytes \<times> spx_addr \<times> stats_ptr" where
  "merkle_sign_scalar cfg hb sig root ctx wots_addr tree_addr idx_leaf g =
     (let auth_path = drop SPX_WOTS_BYTES sig;
          run = (\<lambda>wsig steps g.
            let tree_addr = set_type tree_addr SPX_ADDR_TYPE_HASHTREE;
                info = \<lparr>wots_sig = wsig, wots_sign_leaf = idx_leaf, wots_steps = steps,
                  leaf_addr = copy_subtree_addr zero_addr wots_addr,
                  pk_addr = copy_subtree_addr (set_type zero_addr SPX_ADDR_TYPE_WOTSPK) wots_addr\<rparr>;
                (root, auth_path, tree_addr, info) =
                  treehashx1 hb auth_path ctx idx_leaf 0 (of_nat SPX_TREE_HEIGHT)
                    (wots_gen_leafx1 hb ctx) tree_addr info;
                wsig = (case wots_sig info of None \<Rightarrow> take SPX_WOTS_BYTES sig | Some s \<Rightarrow> s)
            in (0, wsig @ auth_path, root, tree_addr, g))
      in if idx_leaf \<noteq> SPX_NO_SIGN_LEAF
         then (case chain_lengths cfg hb root g of
                 (Inl chain_result, g) \<Rightarrow> (chain_result, sig, root, tree_addr, g)
               | (Inr steps, g) \<Rightarrow> run (Some (take SPX_WOTS_BYTES sig)) (Some steps) g)
         else run None None g)"

text \<open>The dispatcher \<open>merkle_sign\<close> without the AVX2 unit.\<close>

definition merkle_sign :: "build_config \<Rightarrow> hashblocks_fn \<Rightarrow> bytes \<Rightarrow> bytes \<Rightarrow> spx_ctx \<Rightarrow> spx_addr \<Rightarrow> spx_addr
    \<Rightarrow> u32 \<Rightarrow> stats_ptr \<Rightarrow> int \<times> bytes \<times> bytes \<times> spx_addr \<times> stats_ptr" where
  "merkle_sign cfg hb sig root ctx wots_addr tree_addr idx_leaf g =
     merkle_sign_scalar cfg hb sig root ctx wots_addr tree_addr idx_leaf g"

text \<open>\<open>merkle_gen_root\<close> returns the code and the contents of \<open>root\<close>; \<open>auth_path\<close> is a local array.\<close>

definition merkle_gen_root :: "build_config \<Rightarrow> hashblocks_fn \<Rightarrow> bytes \<Rightarrow> spx_ctx \<Rightarrow> stats_ptr
    \<Rightarrow> int \<times> bytes \<times> stats_ptr" where
  "merkle_gen_root cfg hb root ctx g =
     (let auth_path = replicate (SPX_TREE_HEIGHT * SPX_N + SPX_WOTS_BYTES) 0;
          top_tree_addr = set_layer_addr zero_addr (of_nat (SPX_D - 1));
          wots_addr = set_layer_addr zero_addr (of_nat (SPX_D - 1));
          (result, auth_path, root, top_tree_addr, g) =
            merkle_sign cfg hb auth_path root ctx wots_addr top_tree_addr SPX_NO_SIGN_LEAF g
      in (result, root, g))"

section \<open>The subtree of an address\<close>

definition subtree_leaf_addr :: "spx_addr \<Rightarrow> spx_addr" where
  "subtree_leaf_addr wots_addr = copy_subtree_addr zero_addr wots_addr"

definition subtree_pk_addr :: "spx_addr \<Rightarrow> spx_addr" where
  "subtree_pk_addr wots_addr = copy_subtree_addr (set_type zero_addr SPX_ADDR_TYPE_WOTSPK) wots_addr"

definition subtree_leaf :: "hashblocks_fn \<Rightarrow> spx_ctx \<Rightarrow> spx_addr \<Rightarrow> nat \<Rightarrow> bytes" where
  "subtree_leaf hb ctx wots_addr i =
     wots_leaf hb ctx (subtree_leaf_addr wots_addr) (subtree_pk_addr wots_addr) (of_nat i)"

definition subtree_root :: "hashblocks_fn \<Rightarrow> spx_ctx \<Rightarrow> spx_addr \<Rightarrow> spx_addr \<Rightarrow> bytes" where
  "subtree_root hb ctx wots_addr tree_addr =
     merkle_node hb ctx (set_type tree_addr SPX_ADDR_TYPE_HASHTREE) 0 (subtree_leaf hb ctx wots_addr) 6 0"

definition subtree_sig :: "hashblocks_fn \<Rightarrow> spx_ctx \<Rightarrow> spx_addr \<Rightarrow> spx_addr \<Rightarrow> u32 list \<Rightarrow> u32 \<Rightarrow> bytes" where
  "subtree_sig hb ctx wots_addr tree_addr steps idx =
     wots_signature hb ctx (set_keypair_addr (subtree_leaf_addr wots_addr) idx) steps @
     auth_path_of hb ctx (set_type tree_addr SPX_ADDR_TYPE_HASHTREE) 0 (subtree_leaf hb ctx wots_addr) 6 idx"

definition wots_info_inv :: "hashblocks_fn \<Rightarrow> spx_ctx \<Rightarrow> spx_addr \<Rightarrow> u32 \<Rightarrow> u32 list option \<Rightarrow> nat \<Rightarrow> leaf_info_x1 \<Rightarrow> bool" where
  "wots_info_inv hb ctx wots_addr idx steps k info \<longleftrightarrow>
     wots_sign_leaf info = idx \<and> wots_steps info = steps \<and>
     agree_except leaf_fields (leaf_addr info) (subtree_leaf_addr wots_addr) \<and>
     agree_except keypair_field (pk_addr info) (subtree_pk_addr wots_addr) \<and>
     (case steps of
        None \<Rightarrow> wots_sig info = None
      | Some st \<Rightarrow> \<exists>s. wots_sig info = Some s \<and> length s = 256 \<and>
          (unat idx < k \<longrightarrow> s = wots_signature hb ctx (set_keypair_addr (subtree_leaf_addr wots_addr) idx) st))"

locale wots_tree = seeded hb ctx for hb :: hashblocks_fn and ctx :: spx_ctx +
  fixes wots_addr :: spx_addr and idx :: u32 and steps :: "u32 list option"
  assumes wots_addr: "valid_addr wots_addr"
    and idx: "idx \<noteq> SPX_NO_SIGN_LEAF \<or> steps = None"
    and digits: "steps = Some st \<Longrightarrow> i < 16 \<Longrightarrow> unat (st ! i) \<le> 255"
begin

lemma gen_step:
  assumes "k < 2 ^ 6" "wots_info_inv hb ctx wots_addr idx steps k info"
  shows "fst (wots_gen_leafx1 hb ctx (of_nat k + 0) info) = subtree_leaf hb ctx wots_addr k"
    and "wots_info_inv hb ctx wots_addr idx steps (Suc k) (snd (wots_gen_leafx1 hb ctx (of_nat k + 0) info))"
proof -
  let ?la = "subtree_leaf_addr wots_addr" and ?pa = "subtree_pk_addr wots_addr"
  have k: "unat (of_nat k :: u32) = k" using assms(1) by (intro unat_of_nat_small) simp
  have a: "agree_except leaf_fields (leaf_addr info) ?la" "agree_except keypair_field (pk_addr info) ?pa"
    and st: "wots_steps info = steps" "wots_sign_leaf info = idx"
    using assms(2) by (simp_all add: wots_info_inv_def)
  let ?ds = "wots_steps info \<noteq> None \<and> wots_sig info \<noteq> None \<and> wots_sign_leaf info \<noteq> SPX_NO_SIGN_LEAF \<and>
    of_nat k = wots_sign_leaf info"
  have "(\<forall>i<16. unat (the (wots_steps info) ! i) \<le> 255) \<and> length (the (wots_sig info)) = 256" if ?ds
    using that assms(2) digits by (auto simp: wots_info_inv_def)
  from wots_gen_leafx1_run [OF a this] obtain la' pa' where
    run: "wots_gen_leafx1 hb ctx (of_nat k) info = (wots_leaf hb ctx ?la ?pa (of_nat k),
      info\<lparr>wots_sig := (if ?ds then Some (wots_signature hb ctx (set_keypair_addr ?la (of_nat k)) (the (wots_steps info)))
            else wots_sig info), leaf_addr := la', pk_addr := pa'\<rparr>)"
    and ag: "agree_except leaf_fields la' ?la" "agree_except keypair_field pa' ?pa"
    by blast
  show "fst (wots_gen_leafx1 hb ctx (of_nat k + 0) info) = subtree_leaf hb ctx wots_addr k"
    by (simp add: run subtree_leaf_def)
  have "(of_nat k = idx) = (unat idx = k)" using k by (metis word_eq_unatI)
  then show "wots_info_inv hb ctx wots_addr idx steps (Suc k) (snd (wots_gen_leafx1 hb ctx (of_nat k + 0) info))"
    using assms(2) ag idx by (auto simp: run wots_info_inv_def length_wots_signature less_Suc_eq split: option.splits)
qed

end

sublocale wots_tree \<subseteq> tree: leaf_generator hb ctx "wots_gen_leafx1 hb ctx" "subtree_leaf hb ctx wots_addr"
    "wots_info_inv hb ctx wots_addr idx steps" 0 6
  by unfold_locales (simp_all only: gen_step, simp_all add: subtree_leaf_def wots_leaf_def)

context wots_tree
begin

text \<open>The tree computation of \<open>merkle_sign\<close>, from the info structure it builds.\<close>

lemma run_tree:
  assumes "length auth = 96" "valid_addr t"
    and "case steps of None \<Rightarrow> wsig = None | Some st \<Rightarrow> \<exists>s. wsig = Some s \<and> length s = 256"
  shows "\<exists>auth' t' info'. treehashx1 hb auth ctx idx 0 6 (wots_gen_leafx1 hb ctx) t
      \<lparr>wots_sig = wsig, wots_sign_leaf = idx, wots_steps = steps,
        leaf_addr = copy_subtree_addr zero_addr wots_addr,
        pk_addr = copy_subtree_addr (set_type zero_addr SPX_ADDR_TYPE_WOTSPK) wots_addr\<rparr> =
      (merkle_node hb ctx t 0 (subtree_leaf hb ctx wots_addr) 6 0, auth', t', info') \<and>
      agree_except node_fields t' t \<and>
      (steps = None \<longrightarrow> wots_sig info' = None) \<and>
      (unat idx < 2 ^ 6 \<longrightarrow> auth' = auth_path_of hb ctx t 0 (subtree_leaf hb ctx wots_addr) 6 idx \<and>
        (\<forall>st. steps = Some st \<longrightarrow>
          wots_sig info' = Some (wots_signature hb ctx (set_keypair_addr (subtree_leaf_addr wots_addr) idx) st)))"
proof -
  let ?info = "\<lparr>wots_sig = wsig, wots_sign_leaf = idx, wots_steps = steps,
    leaf_addr = copy_subtree_addr zero_addr wots_addr,
    pk_addr = copy_subtree_addr (set_type zero_addr SPX_ADDR_TYPE_WOTSPK) wots_addr\<rparr>"
  have "wots_info_inv hb ctx wots_addr idx steps 0 ?info"
    using assms(3) wots_addr
    by (auto simp: wots_info_inv_def subtree_leaf_addr_def subtree_pk_addr_def agree_except_refl addr_len
        split: option.splits)
  from tree.treehashx1_correct [OF _ assms(2) this, of auth idx] assms(1)
  obtain auth' t' info' where "treehashx1 hb auth ctx idx 0 6 (wots_gen_leafx1 hb ctx) t ?info =
      (merkle_node hb ctx t 0 (subtree_leaf hb ctx wots_addr) 6 0, auth', t', info')"
    "agree_except node_fields t' t" and inv: "wots_info_inv hb ctx wots_addr idx steps (2 ^ 6) info'"
    "unat idx < 2 ^ 6 \<longrightarrow> auth' = auth_path_of hb ctx t 0 (subtree_leaf hb ctx wots_addr) 6 idx"
    by auto
  moreover have "steps = None \<longrightarrow> wots_sig info' = None"
    "\<forall>st. unat idx < 2 ^ 6 \<longrightarrow> steps = Some st \<longrightarrow>
      wots_sig info' = Some (wots_signature hb ctx (set_keypair_addr (subtree_leaf_addr wots_addr) idx) st)"
    using inv(1) by (auto simp: wots_info_inv_def)
  ultimately show ?thesis by blast
qed

end

lemma valid_subtree_addrs [addr_len]:
  "valid_addr w \<Longrightarrow> valid_addr (subtree_leaf_addr w)" "valid_addr w \<Longrightarrow> valid_addr (subtree_pk_addr w)"
  by (simp_all add: subtree_leaf_addr_def subtree_pk_addr_def addr_len)

section \<open>Signing and root generation\<close>

context seeded
begin

lemma length_subtree_leaf: "length (subtree_leaf hb ctx wots_addr i) = 16"
  by (simp add: subtree_leaf_def wots_leaf_def)

lemma length_subtree_root: "length (subtree_root hb ctx wots_addr tree_addr) = 16"
  by (simp add: subtree_root_def length_merkle_node length_subtree_leaf)

lemma length_subtree_sig: "length (subtree_sig hb ctx wots_addr tree_addr steps idx) = 352"
  by (simp add: subtree_sig_def length_wots_signature length_auth_path_of length_subtree_leaf)

lemma wots_tree_signing:
  "valid_addr wots_addr \<Longrightarrow> idx \<noteq> SPX_NO_SIGN_LEAF \<Longrightarrow> fst (chain_lengths cfg hb root g) = Inr steps \<Longrightarrow>
    wots_tree hb ctx wots_addr idx (Some steps)"
  using chain_lengths_digits(2) [of cfg root g steps] by unfold_locales auto

lemma wots_tree_silent: "valid_addr wots_addr \<Longrightarrow> wots_tree hb ctx wots_addr idx None"
  by unfold_locales auto

lemma merkle_sign_ok:
  assumes "valid_addr wots_addr" "valid_addr tree_addr" "length sig = 352" "unat idx < 2 ^ 6"
    and "chain_lengths cfg hb root g = (Inr steps, g')"
  shows "\<exists>t. merkle_sign cfg hb sig root ctx wots_addr tree_addr idx g =
      (0, subtree_sig hb ctx wots_addr tree_addr steps idx, subtree_root hb ctx wots_addr tree_addr, t, g')
      \<and> agree_except node_fields t (set_type tree_addr SPX_ADDR_TYPE_HASHTREE)"
proof -
  have idx: "idx \<noteq> SPX_NO_SIGN_LEAF"
    using assms(4) by (auto simp: SPX_NO_SIGN_LEAF_def unsigned_minus_1_eq_mask mask_eq_exp_minus_1)
  then have "wots_tree hb ctx wots_addr idx (Some steps)"
    using assms(1,5) by (intro wots_tree_signing [where root = root and g = g and cfg = cfg]) auto
  from wots_tree.run_tree [OF this, of "drop 256 sig" "set_type tree_addr SPX_ADDR_TYPE_HASHTREE"
      "Some (take 256 sig)"] assms idx
  show ?thesis
    by (auto simp: merkle_sign_def merkle_sign_scalar_def subtree_sig_def subtree_root_def addr_len Let_def)
qed

lemma merkle_sign_fail:
  assumes "chain_lengths cfg hb root g = (Inl e, g')" "idx \<noteq> SPX_NO_SIGN_LEAF"
  shows "merkle_sign cfg hb sig root ctx wots_addr tree_addr idx g = (e, sig, root, tree_addr, g')"
  using assms by (simp add: merkle_sign_def merkle_sign_scalar_def)

lemma merkle_gen_root_ok:
  "merkle_gen_root cfg hb root ctx g =
    (0, subtree_root hb ctx (set_layer_addr zero_addr 4) (set_layer_addr zero_addr 4), g)"
proof -
  let ?w = "set_layer_addr zero_addr 4"
  have "wots_tree hb ctx ?w SPX_NO_SIGN_LEAF None" by (rule wots_tree_silent) (simp add: addr_len)
  from wots_tree.run_tree [OF this, of "replicate 96 0" "set_type ?w SPX_ADDR_TYPE_HASHTREE" None]
  show ?thesis
    by (auto simp: merkle_gen_root_def merkle_sign_def merkle_sign_scalar_def subtree_root_def addr_len Let_def)
qed

section \<open>Verification of one layer\<close>

text \<open>From a layer's signature, the verifier's three calls (WOTS public key, leaf, root) recover the
  root of the signer's subtree.\<close>

lemma layer_pk:
  assumes "fst (chain_lengths cfg hb msg g) = Inr steps" "valid_config cfg" "valid_addr wots_addr"
    and "agree_except chain_fields w (set_type (set_keypair_addr (subtree_leaf_addr wots_addr) idx) SPX_ADDR_TYPE_WOTS)"
  shows "\<exists>w'. wots_pk_from_sig cfg hb (subtree_sig hb ctx wots_addr tree_addr steps idx @ rest) msg ctx w None =
      (Inr (wots_public hb ctx (set_keypair_addr (subtree_leaf_addr wots_addr) idx)), w', None)
      \<and> agree_except chain_fields w' (set_type (set_keypair_addr (subtree_leaf_addr wots_addr) idx) SPX_ADDR_TYPE_WOTS)"
  unfolding subtree_sig_def append_assoc wots_pk_from_sig_prefix [OF length_wots_signature]
  using assms by (intro wots_pk_from_sig_correct) (simp_all add: addr_len)

lemma layer_root:
  assumes "valid_addr wots_addr" "agree_except node_fields t (set_type tree_addr SPX_ADDR_TYPE_HASHTREE)"
    and "unat idx < 2 ^ 6"
  shows "\<exists>t'. compute_root hb
      (thash hb (wots_public hb ctx (set_keypair_addr (subtree_leaf_addr wots_addr) idx)) SPX_WOTS_LEN ctx
        (set_keypair_addr (subtree_pk_addr wots_addr) idx)) idx 0
      (drop SPX_WOTS_BYTES (subtree_sig hb ctx wots_addr tree_addr steps idx @ rest)) (of_nat SPX_TREE_HEIGHT) ctx t
      = (subtree_root hb ctx wots_addr tree_addr, t')
      \<and> agree_except node_fields t' (set_type tree_addr SPX_ADDR_TYPE_HASHTREE)"
proof -
  let ?L = "subtree_leaf hb ctx wots_addr"
  let ?A = "auth_path_of hb ctx (set_type tree_addr SPX_ADDR_TYPE_HASHTREE) 0 ?L 6 idx"
  have leaf: "thash hb (wots_public hb ctx (set_keypair_addr (subtree_leaf_addr wots_addr) idx)) SPX_WOTS_LEN ctx
      (set_keypair_addr (subtree_pk_addr wots_addr) idx) = ?L (unat idx)"
    by (simp add: subtree_leaf_def wots_leaf_def)
  have "length ?A = 16 * 6" by (rule length_auth_path_of) (rule length_subtree_leaf)
  then have "compute_root hb (?L (unat idx)) idx 0 (?A @ rest) 6 ctx t = compute_root hb (?L (unat idx)) idx 0 ?A 6 ctx t"
    by (intro compute_root_prefix) simp_all
  moreover have "drop 256 (subtree_sig hb ctx wots_addr tree_addr steps idx @ rest) = ?A @ rest"
    by (simp add: subtree_sig_def length_wots_signature)
  ultimately show ?thesis
    using compute_root_correct [of ?L 6 t "set_type tree_addr SPX_ADDR_TYPE_HASHTREE" idx 0] assms
    unfolding leaf by (simp add: length_subtree_leaf subtree_root_def)
qed

end

section \<open>The subtrees of the reference hash\<close>

text \<open>The subtree at layer \<open>l\<close>, with one of its 64 leaves signing the base-256 digits of a 16-byte message.\<close>

lemma sign_leaf_small: "(i :: u32) AND 63 \<noteq> SPX_NO_SIGN_LEAF"
proof
  assume "i AND 63 = SPX_NO_SIGN_LEAF"
  then have "bit (i AND 63) 31 = bit SPX_NO_SIGN_LEAF 31" by simp
  then show False by (simp add: bit_simps SPX_NO_SIGN_LEAF_def)
qed

interpretation ref_wots: wots_tree crypto_hashblocks_sha256_ref "ref_ctx w s" "set_layer_addr zero_addr l" "i AND 63"
    "Some (map ucast (seed_bytes m))" for w s l i m
proof unfold_locales
  fix st :: "u32 list" and k :: nat
  assume "Some (map ucast (seed_bytes m)) = Some st" "k < 16"
  then have "st ! k = ucast (seed_bytes m ! k)" by auto
  then show "unat (st ! k) \<le> 255"
    using unsigned_less [of "seed_bytes m ! k", where 'a = nat] by (simp add: unsigned_ucast_eq take_bit_nat_eq_self)
qed (simp_all add: addr_len sign_leaf_small)

end
