(* ===== verification/Random_Source.thy ===== *)
theory Random_Source
  imports Hash_Sha2
begin

text \<open>
  The deterministic random source of \<open>src/slh_dsa/utils.c\<close>: the thread-local buffer that stands in for
  an entropy source while signing, the byte generator that reads it cyclically and fails closed without
  it, and the derivation of its contents from the secret key and the message.  The four thread-local
  variables are one record that the operations take and return.
\<close>

record rng_state =
  g_random_data :: "bytes option"
  g_random_data_size :: nat
  g_random_data_offset :: nat
  g_random_source_failed :: bool

definition rng_start :: rng_state where
  "rng_start = \<lparr>g_random_data = None, g_random_data_size = 0, g_random_data_offset = 0,
     g_random_source_failed = False\<rparr>"

definition slh_dsa_random_source_clear_failure :: "rng_state \<Rightarrow> rng_state" where
  "slh_dsa_random_source_clear_failure r = r\<lparr>g_random_source_failed := False\<rparr>"

definition slh_dsa_random_source_failed :: "rng_state \<Rightarrow> bool" where
  "slh_dsa_random_source_failed r = g_random_source_failed r"

definition mark_random_source_failed :: "rng_state \<Rightarrow> rng_state" where
  "mark_random_source_failed r = r\<lparr>g_random_source_failed := True\<rparr>"

definition slh_dsa_init_random_source :: "bytes option \<Rightarrow> nat \<Rightarrow> rng_state \<Rightarrow> rng_state" where
  "slh_dsa_init_random_source random_data random_data_size r =
     slh_dsa_random_source_clear_failure
       (r\<lparr>g_random_data := random_data, g_random_data_size := random_data_size, g_random_data_offset := 0\<rparr>)"

definition slh_dsa_setup_custom_random :: "rng_state \<Rightarrow> rng_state" where
  "slh_dsa_setup_custom_random r = r"

definition slh_dsa_restore_original_random :: "rng_state \<Rightarrow> rng_state" where
  "slh_dsa_restore_original_random r =
     r\<lparr>g_random_data := None, g_random_data_size := 0, g_random_data_offset := 0\<rparr>"

text \<open>The copy loop: \<open>position\<close> bytes of \<open>out\<close> are written; the result is the buffer and the new offset.
  The caller has checked that the size is not zero.\<close>

function randombytes_loop :: "bytes \<Rightarrow> nat \<Rightarrow> nat \<Rightarrow> nat \<Rightarrow> nat \<Rightarrow> bytes \<Rightarrow> bytes \<times> nat" where
  "randombytes_loop dat sz outlen position offset out =
     (if position < outlen \<and> sz \<noteq> 0
      then (let remaining = sz - offset;
                to_copy = outlen - position;
                to_copy = (if to_copy > remaining then remaining else to_copy)
            in randombytes_loop dat sz outlen (position + to_copy) ((offset + to_copy) mod sz)
                 (put_bytes position (get_bytes offset to_copy dat) out))
      else (out, offset))"
  by pat_completeness auto
termination
proof (relation "measure (\<lambda>(dat, sz, outlen, position, offset, out).
    2 * (outlen - position) + (if offset < sz then 0 else 1))", goal_cases)
  case (2 dat sz outlen position offset out remaining x to_copy)
  have "(offset + to_copy) mod sz < sz" using 2 by simp
  moreover have "0 < to_copy" if "offset < sz" using 2 that by simp
  ultimately show ?case using 2 by auto
qed simp

declare randombytes_loop.simps [simp del]

definition custom_slh_randombytes_impl :: "bytes option \<Rightarrow> nat \<Rightarrow> rng_state \<Rightarrow> bytes option \<times> rng_state" where
  "custom_slh_randombytes_impl out outlen r =
     (if outlen = 0 then (out, r)
      else case out of
        None \<Rightarrow> (None, mark_random_source_failed r)
      | Some buf \<Rightarrow>
          (if g_random_data r = None \<or> g_random_data_size r = 0
           then (Some (put_bytes 0 (replicate outlen 0) buf), mark_random_source_failed r)
           else (let (buf, offset) =
                       randombytes_loop (the (g_random_data r)) (g_random_data_size r) outlen 0
                         (g_random_data_offset r) buf
                 in (Some buf, r\<lparr>g_random_data_offset := offset\<rparr>))))"

definition randombytes :: "bytes option \<Rightarrow> nat \<Rightarrow> rng_state \<Rightarrow> bytes option \<times> rng_state" where
  "randombytes x xlen r = custom_slh_randombytes_impl x xlen r"

text \<open>\<open>seed\<close> is the caller's 64-byte buffer, \<open>m\<close> the message pointer with its length and \<open>sk\<close> the key.\<close>

definition slh_dsa_derandomize_unburned :: "hashblocks_fn \<Rightarrow> bytes option \<Rightarrow> bytes option \<Rightarrow> nat \<Rightarrow> bytes option
    \<Rightarrow> rng_state \<Rightarrow> bytes option \<times> rng_state" where
  "slh_dsa_derandomize_unburned hb seed m mlen sk r =
     (if seed = None \<or> (m = None \<and> mlen \<noteq> 0) \<or> sk = None
      then (map_option (put_bytes 0 (replicate 64 0)) seed, mark_random_source_failed r)
      else
        (let message = (case m of Some msg \<Rightarrow> msg | None \<Rightarrow> [0]);
             state = sha256_inc_init;
             state = sha256_inc_blocks hb state (the sk) (CRYPTO_SECRETKEYBYTES div SPX_SHA256_BLOCK_BYTES);
             digest0 = sha256_inc_finalize hb state (take mlen message);
             digest1_input = digest0 @ [1]
         in (Some (put_bytes 32 (sha256 hb digest1_input) (put_bytes 0 digest0 (the seed))), r)))"

definition slh_dsa_derandomize :: "hashblocks_fn \<Rightarrow> bytes option \<Rightarrow> bytes option \<Rightarrow> nat \<Rightarrow> bytes option
    \<Rightarrow> rng_state \<Rightarrow> bytes option \<times> rng_state" where
  "slh_dsa_derandomize hb seed m mlen sk r = slh_dsa_derandomize_unburned hb seed m mlen sk r"

section \<open>The generator reads its buffer cyclically\<close>

text \<open>A source that can be read: the buffer has its recorded size and the offset is inside it.\<close>

definition rng_ok :: "rng_state \<Rightarrow> bool" where
  "rng_ok r \<longleftrightarrow> (case g_random_data r of
     None \<Rightarrow> True
   | Some d \<Rightarrow> length d = g_random_data_size r \<and> (g_random_data_offset r < g_random_data_size r \<or> d = []))"

definition cyclic :: "bytes \<Rightarrow> nat \<Rightarrow> nat \<Rightarrow> bytes" where
  "cyclic d off n = map (\<lambda>i. d ! ((off + i) mod length d)) [0..<n]"

lemma length_cyclic [simp]: "length (cyclic d off n) = n"
  by (simp add: cyclic_def)

lemma cyclic_add: "cyclic d off (m + n) = cyclic d off m @ cyclic d (off + m) n"
proof -
  have "map (\<lambda>i. m + i) [0..<n] = [m..<m + n]"
    using map_add_upt [of m n] by (simp add: add.commute [of m])
  then have "[0..<m + n] = [0..<m] @ map (\<lambda>i. m + i) [0..<n]"
    using upt_add_eq_append [of 0 m n] by simp
  then show ?thesis by (simp add: cyclic_def comp_def add.assoc)
qed

lemma cyclic_mod: "d \<noteq> [] \<Longrightarrow> cyclic d (off mod length d) n = cyclic d off n"
  by (simp add: cyclic_def mod_add_left_eq)

lemma cyclic_short: "off + n \<le> length d \<Longrightarrow> cyclic d off n = get_bytes off n d"
  by (rule nth_equalityI) (auto simp: cyclic_def get_bytes_def)

lemma randombytes_loop_cyclic:
  assumes "length d = sz" "offset < sz" "position \<le> outlen" "outlen \<le> length out"
  shows "randombytes_loop d sz outlen position offset out =
    (put_bytes position (cyclic d offset (outlen - position)) out, (offset + (outlen - position)) mod sz)"
  using assms(2-4)
proof (induction "outlen - position" arbitrary: position offset out rule: less_induct)
  case less
  show ?case
  proof (cases "position < outlen")
    case True
    define c where "c = min (outlen - position) (sz - offset)"
    define out' where "out' = put_bytes position (get_bytes offset c d) out"
    have c: "0 < c" "c \<le> outlen - position" "offset + c \<le> sz" using True less.prems by (auto simp: c_def)
    have dne: "d \<noteq> []" using assms(1) less.prems(1) by auto
    have lb: "length (get_bytes offset c d) = c" using c(3) assms(1) by simp
    have "randombytes_loop d sz outlen position offset out =
        randombytes_loop d sz outlen (position + c) ((offset + c) mod sz) out'"
      using True less.prems(1) by (subst randombytes_loop.simps) (auto simp: Let_def c_def out'_def min_def)
    also have "\<dots> = (put_bytes (position + c) (cyclic d ((offset + c) mod sz) (outlen - (position + c))) out',
        ((offset + c) mod sz + (outlen - (position + c))) mod sz)"
      using c less.prems lb by (intro less.hyps) (simp_all add: out'_def)
    also have "cyclic d ((offset + c) mod sz) (outlen - (position + c)) = cyclic d (offset + c) (outlen - position - c)"
      using cyclic_mod [OF dne] assms(1) by (simp add: diff_diff_left)
    also have "put_bytes (position + c) (cyclic d (offset + c) (outlen - position - c)) out' =
        put_bytes position (cyclic d offset (outlen - position)) out"
      using cyclic_add [of d offset c "outlen - position - c"] c lb less.prems cyclic_short [of offset c d] assms(1)
      by (simp add: out'_def put_bytes_def)
    also have "((offset + c) mod sz + (outlen - (position + c))) mod sz = (offset + (outlen - position)) mod sz"
      unfolding mod_add_left_eq using c(2) by (intro arg_cong [where f = "\<lambda>x. x mod sz"]) simp
    finally show ?thesis .
  next
    case False
    then show ?thesis using less.prems by (subst randombytes_loop.simps) (simp add: cyclic_def)
  qed
qed

lemma randombytes_cyclic:
  assumes "rng_ok r" "g_random_data r = Some d" "d \<noteq> []" "length buf = n"
  shows "randombytes (Some buf) n r = (Some (cyclic d (g_random_data_offset r) n),
    r\<lparr>g_random_data_offset := (g_random_data_offset r + n) mod length d\<rparr>)"
proof (cases "n = 0")
  case True
  then show ?thesis
    using assms by (auto simp: randombytes_def custom_slh_randombytes_impl_def rng_ok_def cyclic_def)
next
  case False
  then show ?thesis
    using assms randombytes_loop_cyclic [of d "length d" "g_random_data_offset r" 0 n buf]
    by (auto simp: randombytes_def custom_slh_randombytes_impl_def rng_ok_def)
qed

lemma randombytes_fails_closed:
  "g_random_data r = None \<Longrightarrow> n \<noteq> 0 \<Longrightarrow> length buf = n \<Longrightarrow>
    randombytes (Some buf) n r = (Some (replicate n 0), mark_random_source_failed r)"
  by (simp add: randombytes_def custom_slh_randombytes_impl_def)

context sha256_backend
begin

lemma derandomize_hash:
  assumes "length sk = 64" "length msg = mlen" "length seed = 64" "m = Some msg \<or> m = None \<and> msg = []"
  shows "slh_dsa_derandomize_unburned hb (Some seed) m mlen (Some sk) r =
    (Some (sha256_md hb (sk @ msg) @ sha256_md hb (sha256_md hb (sk @ msg) @ [1])), r)"
proof -
  have "sha256_inc_blocks hb sha256_inc_init sk (Suc 0) = sha256_state hb sk"
    using sha256_inc_blocks_state [of "[]" 0 sk 1] assms(1) by (simp add: sha256_state_init)
  moreover have "sha256_inc_finalize hb (sha256_state hb sk) msg = sha256_md hb (sk @ msg)"
    using sha256_inc_finalize_state [of sk 1 msg] assms(1) by simp
  moreover have "take mlen (case m of Some msg \<Rightarrow> msg | None \<Rightarrow> [0]) = msg"
    using assms(2,4) by auto
  ultimately show ?thesis
    using assms(2-4)
    by (auto simp: slh_dsa_derandomize_unburned_def Let_def sha256_eq_md put_bytes_def length_sha256_md)
qed

end

end
