(* ===== verification/Spx_Sign.thy ===== *)
theory Spx_Sign
  imports Fors Merkle Random_Source
begin

text \<open>
  The signature scheme, \<open>sphincsplus/ref/sign.c\<close>, in the build with \<open>CUSTOM_RANDOMBYTES\<close> (the one
  \<open>CMakeLists.txt\<close> configures): key generation, detached signing with the FORS+C salt search and
  the hypertree loop, verification, and the attached variants.  Output buffers are arguments whose
  updated contents are returned, so what a failing call leaves in them is visible.  The main theorem is
  that a signature made with a consistent key verifies.
\<close>

text \<open>The thread-local state the operations read and write.\<close>

record tls =
  ts_rng :: rng_state
  ts_stats :: stats_ptr

section \<open>Sizes\<close>

definition crypto_sign_secretkeybytes :: u64 where
  "crypto_sign_secretkeybytes = of_nat CRYPTO_SECRETKEYBYTES"

definition crypto_sign_publickeybytes :: u64 where
  "crypto_sign_publickeybytes = of_nat CRYPTO_PUBLICKEYBYTES"

definition crypto_sign_bytes :: u64 where
  "crypto_sign_bytes = of_nat CRYPTO_BYTES"

definition crypto_sign_seedbytes :: u64 where
  "crypto_sign_seedbytes = of_nat CRYPTO_SEEDBYTES"

section \<open>Key generation\<close>

definition crypto_sign_seed_keypair :: "build_config \<Rightarrow> hashblocks_fn \<Rightarrow> bytes \<Rightarrow> bytes \<Rightarrow> bytes \<Rightarrow> tls
    \<Rightarrow> int \<times> bytes \<times> bytes \<times> tls" where
  "crypto_sign_seed_keypair cfg hb pk sk seed ts =
     (let sk = put_bytes 0 (take CRYPTO_SEEDBYTES seed) sk;
          pk = put_bytes 0 (get_bytes (2 * SPX_N) SPX_N sk) pk;
          ctx = \<lparr>pub_seed = take SPX_N pk, sk_seed = take SPX_N sk, state_seeded = []\<rparr>;
          ctx = initialize_hash_function hb ctx;
          (res, root, g) = merkle_gen_root cfg hb (get_bytes (3 * SPX_N) SPX_N sk) ctx (ts_stats ts);
          sk = put_bytes (3 * SPX_N) root sk;
          ts = ts\<lparr>ts_stats := g\<rparr>
      in if res \<noteq> 0 then (-1, pk, sk, ts)
         else (let pk = put_bytes SPX_N (get_bytes (3 * SPX_N) SPX_N sk) pk
               in (0, pk, sk, ts)))"

definition crypto_sign_keypair :: "build_config \<Rightarrow> hashblocks_fn \<Rightarrow> bytes \<Rightarrow> bytes \<Rightarrow> tls
    \<Rightarrow> int \<times> bytes \<times> bytes \<times> tls" where
  "crypto_sign_keypair cfg hb pk sk ts =
     (let r = slh_dsa_random_source_clear_failure (ts_rng ts);
          (seed, r) = randombytes (Some (replicate CRYPTO_SEEDBYTES 0)) CRYPTO_SEEDBYTES r;
          ts = ts\<lparr>ts_rng := r\<rparr>
      in if slh_dsa_random_source_failed r then (-1, pk, sk, ts)
         else crypto_sign_seed_keypair cfg hb pk sk (the seed) ts)"

section \<open>The FORS+C salt search\<close>

definition forsc_compressed_index :: "bytes \<Rightarrow> u32" where
  "forsc_compressed_index mhash =
     fst (index_loop mhash SPX_FORS_HEIGHT (SPX_FORS_SIG_TREES * SPX_FORS_HEIGHT) 0 0)"

text \<open>The four bytes of the salt that the counter is mixed into.\<close>

definition forsc_tweak :: "bytes \<Rightarrow> u32 \<Rightarrow> bytes" where
  "forsc_tweak r_base ctr =
     r_base[0 := r_base ! 0 XOR ucast ctr, 1 := r_base ! 1 XOR ucast (drop_bit 8 ctr),
       2 := r_base ! 2 XOR ucast (drop_bit 16 ctr), 3 := r_base ! 3 XOR ucast (drop_bit 24 ctr)]"

text \<open>The result is an error code or the digest with its indices, the salt left in \<open>sig\<close> and the statistics.\<close>

function forsc_grind :: "build_config \<Rightarrow> hashblocks_fn \<Rightarrow> bytes \<Rightarrow> bytes \<Rightarrow> bytes \<Rightarrow> bytes \<Rightarrow> u32 \<Rightarrow> u32 \<Rightarrow> stats_ptr
    \<Rightarrow> (int + bytes \<times> u64 \<times> u32) \<times> bytes \<times> stats_ptr" where
  "forsc_grind cfg hb pk m r_base R ctr attempts g =
     (let attempts = attempts + 1;
          (mhash, tree, idx_leaf) = hash_message hb R pk m
      in if forsc_compressed_index mhash = 0
         then (Inr (mhash, tree, idx_leaf), R, bitcoin_pqc_sign_stats_record_forsc_attempts attempts g)
         else if attempts \<ge> FORSC_MAX_GRIND_ATTEMPTS cfg
         then (Inl BITCOINPQC_SIGN_LIMIT_EXCEEDED, R,
               bitcoin_pqc_sign_stats_record_forsc_cap
                 (bitcoin_pqc_sign_stats_record_forsc_attempts attempts g))
         else (let ctr = ctr + 1
               in if ctr = 0 then (Inl (-1), R, g)
                  else forsc_grind cfg hb pk m r_base (forsc_tweak r_base ctr) ctr attempts g))"
  by pat_completeness auto
termination
proof (relation "measure (\<lambda>(cfg, hb, pk, m, r_base, R, ctr, r). unat (- 1 - ctr))", goal_cases)
  case (2 cfg hb pk m r_base R ctr attempts g x y z xa ya xb)
  then have "ctr \<noteq> - 1" by auto
  then show ?case using word_count_to [of ctr "- 1"] 2 by simp
qed simp

declare forsc_grind.simps [simp del]

section \<open>Signing\<close>

text \<open>The hypertree loop of \<open>crypto_sign_signature\<close>: \<open>n\<close> layers are left, \<open>i\<close> is the current one and
  \<open>off\<close> the position of the moving pointer in the signature.\<close>

fun hypertree_sign :: "build_config \<Rightarrow> hashblocks_fn \<Rightarrow> spx_ctx \<Rightarrow> nat \<Rightarrow> nat \<Rightarrow> bytes \<Rightarrow> nat \<Rightarrow> bytes \<Rightarrow> spx_addr
    \<Rightarrow> spx_addr \<Rightarrow> u64 \<Rightarrow> u32 \<Rightarrow> stats_ptr \<Rightarrow> int \<times> bytes \<times> bytes \<times> stats_ptr" where
  "hypertree_sign cfg hb ctx 0 i sig off root wots_addr tree_addr tree idx_leaf g = (0, sig, root, g)"
| "hypertree_sign cfg hb ctx (Suc n) i sig off root wots_addr tree_addr tree idx_leaf g =
     (let tree_addr = set_layer_addr tree_addr (of_nat i);
          tree_addr = set_tree_addr tree_addr tree;
          wots_addr = copy_subtree_addr wots_addr tree_addr;
          wots_addr = set_keypair_addr wots_addr idx_leaf;
          (merkle_result, layer_sig, root, tree_addr, g) =
            merkle_sign cfg hb (get_bytes off (SPX_WOTS_BYTES + SPX_TREE_HEIGHT * SPX_N) sig) root ctx
              wots_addr tree_addr idx_leaf g;
          sig = put_bytes off layer_sig sig
      in if merkle_result \<noteq> 0 then (merkle_result, sig, root, g)
         else hypertree_sign cfg hb ctx n (i + 1) sig (off + SPX_WOTS_BYTES + SPX_TREE_HEIGHT * SPX_N)
                root wots_addr tree_addr (drop_bit SPX_TREE_HEIGHT tree)
                (ucast (tree AND (push_bit SPX_TREE_HEIGHT 1 - 1))) g)"

definition crypto_sign_signature :: "build_config \<Rightarrow> hashblocks_fn \<Rightarrow> fors_threads \<Rightarrow> bytes \<Rightarrow> bytes \<Rightarrow> bytes \<Rightarrow> tls
    \<Rightarrow> int \<times> bytes \<times> nat \<times> tls" where
  "crypto_sign_signature cfg hb rt sig m sk ts =
     (let sk_prf = drop SPX_N sk;
          pk = drop (2 * SPX_N) sk;
          ctx = \<lparr>pub_seed = take SPX_N pk, sk_seed = take SPX_N sk, state_seeded = []\<rparr>;
          ctx = initialize_hash_function hb ctx;
          wots_addr = set_type zero_addr SPX_ADDR_TYPE_WOTS;
          tree_addr = set_type zero_addr SPX_ADDR_TYPE_HASHTREE;
          r = slh_dsa_random_source_clear_failure (ts_rng ts);
          (optrand, r) = randombytes (Some (replicate SPX_N 0)) SPX_N r;
          ts = ts\<lparr>ts_rng := r\<rparr>
      in if slh_dsa_random_source_failed r then (-1, sig, 0, ts)
         else
           (let r_base = gen_message_random hb sk_prf (the optrand) m;
                (found, R, g) = forsc_grind cfg hb pk m r_base r_base 0 0 (ts_stats ts);
                sig = put_bytes 0 R sig
            in case found of
                 Inl result \<Rightarrow> (result, sig, 0, ts\<lparr>ts_stats := g\<rparr>)
               | Inr (mhash, tree, idx_leaf) \<Rightarrow>
                   (let wots_addr = set_tree_addr wots_addr tree;
                        wots_addr = set_keypair_addr wots_addr idx_leaf;
                        (fsig, root) = fors_sign hb rt (get_bytes SPX_N SPX_FORS_BYTES sig) mhash ctx wots_addr;
                        sig = put_bytes SPX_N fsig sig;
                        (result, sig, root, g) =
                          hypertree_sign cfg hb ctx SPX_D 0 sig (SPX_N + SPX_FORS_BYTES) root wots_addr tree_addr
                            tree idx_leaf g;
                        ts = ts\<lparr>ts_stats := g\<rparr>
                    in if result \<noteq> 0 then (result, sig, 0, ts)
                       else (0, sig, SPX_BYTES, ts))))"

section \<open>Verification\<close>

fun hypertree_verify :: "build_config \<Rightarrow> hashblocks_fn \<Rightarrow> spx_ctx \<Rightarrow> nat \<Rightarrow> nat \<Rightarrow> bytes \<Rightarrow> bytes \<Rightarrow> spx_addr
    \<Rightarrow> spx_addr \<Rightarrow> spx_addr \<Rightarrow> u64 \<Rightarrow> u32 \<Rightarrow> stats_ptr \<Rightarrow> (int + bytes) \<times> stats_ptr" where
  "hypertree_verify cfg hb ctx 0 i sig root wots_addr tree_addr wots_pk_addr tree idx_leaf g = (Inr root, g)"
| "hypertree_verify cfg hb ctx (Suc n) i sig root wots_addr tree_addr wots_pk_addr tree idx_leaf g =
     (let tree_addr = set_layer_addr tree_addr (of_nat i);
          tree_addr = set_tree_addr tree_addr tree;
          wots_addr = copy_subtree_addr wots_addr tree_addr;
          wots_addr = set_keypair_addr wots_addr idx_leaf;
          wots_pk_addr = copy_keypair_addr wots_pk_addr wots_addr
      in case wots_pk_from_sig cfg hb sig root ctx wots_addr g of
           (Inl _, wots_addr, g) \<Rightarrow> (Inl (-1), g)
         | (Inr wots_pk, wots_addr, g) \<Rightarrow>
             (let sig = drop SPX_WOTS_BYTES sig;
                  leaf = thash hb wots_pk SPX_WOTS_LEN ctx wots_pk_addr;
                  (root, tree_addr) =
                    compute_root hb leaf idx_leaf 0 sig (of_nat SPX_TREE_HEIGHT) ctx tree_addr;
                  sig = drop (SPX_TREE_HEIGHT * SPX_N) sig
              in hypertree_verify cfg hb ctx n (i + 1) sig root wots_addr tree_addr wots_pk_addr
                   (drop_bit SPX_TREE_HEIGHT tree) (ucast (tree AND (push_bit SPX_TREE_HEIGHT 1 - 1))) g))"

text \<open>\<open>ctx.sk_seed\<close> is never set here, and never read by verification; it is the empty string.\<close>

definition crypto_sign_verify :: "build_config \<Rightarrow> hashblocks_fn \<Rightarrow> bytes \<Rightarrow> nat \<Rightarrow> bytes \<Rightarrow> bytes \<Rightarrow> stats_ptr \<Rightarrow> int \<times> stats_ptr" where
  "crypto_sign_verify cfg hb sig siglen m pk g =
     (if siglen \<noteq> SPX_BYTES then (-1, g)
      else
        (let pub_root = drop SPX_N pk;
             ctx = \<lparr>pub_seed = take SPX_N pk, sk_seed = [], state_seeded = []\<rparr>;
             ctx = initialize_hash_function hb ctx;
             wots_addr = set_type zero_addr SPX_ADDR_TYPE_WOTS;
             tree_addr = set_type zero_addr SPX_ADDR_TYPE_HASHTREE;
             wots_pk_addr = set_type zero_addr SPX_ADDR_TYPE_WOTSPK;
             (mhash, tree, idx_leaf) = hash_message hb sig pk m
         in if forsc_compressed_index mhash \<noteq> 0 then (-1, g)
            else
              (let sig = drop SPX_N sig;
                   wots_addr = set_tree_addr wots_addr tree;
                   wots_addr = set_keypair_addr wots_addr idx_leaf;
                   root = fors_pk_from_sig hb sig mhash ctx wots_addr;
                   sig = drop SPX_FORS_BYTES sig
               in case hypertree_verify cfg hb ctx SPX_D 0 sig root wots_addr tree_addr wots_pk_addr tree idx_leaf g of
                    (Inl e, g) \<Rightarrow> (e, g)
                  | (Inr root, g) \<Rightarrow>
                      if take SPX_N root \<noteq> take SPX_N pub_root then (-1, g) else (0, g))))"

section \<open>Attached signatures\<close>

text \<open>\<open>crypto_sign\<close> writes the signature and the message to \<open>sm\<close>; \<open>crypto_sign_open\<close> writes the message to
  \<open>m\<close>.  \<open>m\<close> and \<open>sm\<close> are separate buffers here.\<close>

definition crypto_sign :: "build_config \<Rightarrow> hashblocks_fn \<Rightarrow> fors_threads \<Rightarrow> bytes \<Rightarrow> bytes \<Rightarrow> bytes \<Rightarrow> tls
    \<Rightarrow> int \<times> bytes \<times> nat \<times> tls" where
  "crypto_sign cfg hb rt sm m sk ts =
     (let (result, s, siglen, ts) = crypto_sign_signature cfg hb rt (take SPX_BYTES sm) m sk ts;
          sm = put_bytes 0 s sm
      in if result \<noteq> 0 then (result, put_bytes 0 (replicate SPX_BYTES 0) sm, 0, ts)
         else (0, put_bytes SPX_BYTES m sm, siglen + length m, ts))"

definition crypto_sign_open :: "build_config \<Rightarrow> hashblocks_fn \<Rightarrow> bytes \<Rightarrow> bytes \<Rightarrow> nat \<Rightarrow> bytes \<Rightarrow> stats_ptr
    \<Rightarrow> int \<times> bytes \<times> nat \<times> stats_ptr" where
  "crypto_sign_open cfg hb m sm smlen pk g =
     (if smlen < SPX_BYTES then (-1, put_bytes 0 (replicate smlen 0) m, 0, g)
      else
        (let mlen = smlen - SPX_BYTES;
             (res, g) = crypto_sign_verify cfg hb (take SPX_BYTES sm) SPX_BYTES (get_bytes SPX_BYTES mlen sm) pk g
         in if res \<noteq> 0 then (-1, put_bytes 0 (replicate smlen 0) m, 0, g)
            else (0, put_bytes 0 (get_bytes SPX_BYTES mlen sm) m, mlen, g)))"

section \<open>The layers of the hypertree\<close>

definition layer_addr :: "nat \<Rightarrow> u64 \<Rightarrow> spx_addr" where
  "layer_addr i tree = set_tree_addr (set_layer_addr zero_addr (of_nat i)) tree"

lemma valid_layer_addr [addr_len]: "valid_addr (layer_addr i tree)"
  by (simp add: layer_addr_def addr_len)

text \<open>What the running tree address may hold between two layers: anything in the fields the next
  layer sets.\<close>

abbreviation tree_addr_ok :: "spx_addr \<Rightarrow> bool" where
  "tree_addr_ok t \<equiv> agree_except ({0..<9} \<union> node_fields) t (set_type zero_addr SPX_ADDR_TYPE_HASHTREE)"

abbreviation wots_addr_ok :: "spx_addr \<Rightarrow> bool" where
  "wots_addr_ok w \<equiv> agree_except ({0..<9} \<union> {10..<14} \<union> chain_fields) w (set_type zero_addr SPX_ADDR_TYPE_WOTS)"

abbreviation pk_addr_ok :: "spx_addr \<Rightarrow> bool" where
  "pk_addr_ok p \<equiv> agree_except ({0..<9} \<union> {10..<14}) p (set_type zero_addr SPX_ADDR_TYPE_WOTSPK)"

lemma nth_zero_addr [addr_nth]: "i < 32 \<Longrightarrow> zero_addr ! i = 0"
  by (simp add: zero_addr_def)

lemma layer_tree_addr:
  fixes tree :: u64 and i :: nat
  assumes "tree_addr_ok t"
  defines "T \<equiv> set_tree_addr (set_layer_addr t (of_nat i)) tree"
  shows "agree_except node_fields T (set_type (layer_addr i tree) SPX_ADDR_TYPE_HASHTREE)"
    "agree_except node_fields (set_type T SPX_ADDR_TYPE_HASHTREE) (set_type (layer_addr i tree) SPX_ADDR_TYPE_HASHTREE)"
    "valid_addr T" "\<forall>j<9. T ! j = layer_addr i tree ! j"
  using assms(1) unfolding T_def layer_addr_def
  by (auto simp: agree_except_def addr_nth addr_len)

lemma layer_tree_addr_next:
  "agree_except node_fields t (set_type (layer_addr i tree) SPX_ADDR_TYPE_HASHTREE) \<Longrightarrow> tree_addr_ok t"
  by (auto simp: agree_except_def addr_nth addr_len layer_addr_def)

lemma layer_wots_addr:
  fixes tree :: u64 and i :: nat and idx :: u32
  assumes "wots_addr_ok w" "valid_addr T" "\<forall>j<9. T ! j = layer_addr i tree ! j"
  defines "W \<equiv> set_keypair_addr (copy_subtree_addr w T) idx"
  shows "valid_addr W" "subtree_leaf_addr W = subtree_leaf_addr (layer_addr i tree)"
    "subtree_pk_addr W = subtree_pk_addr (layer_addr i tree)" "wots_addr_ok W"
    "agree_except chain_fields W
      (set_type (set_keypair_addr (subtree_leaf_addr (layer_addr i tree)) idx) SPX_ADDR_TYPE_WOTS)"
    "pk_addr_ok p \<Longrightarrow> copy_keypair_addr p W = set_keypair_addr (subtree_pk_addr (layer_addr i tree)) idx"
  using assms(1-3) unfolding W_def subtree_leaf_addr_def subtree_pk_addr_def
  by (auto intro!: addr_eqI simp: agree_except_def addr_nth addr_len)

lemma layer_wots_addr_next:
  "agree_except chain_fields w (set_type (set_keypair_addr (subtree_leaf_addr (layer_addr i tree)) idx) SPX_ADDR_TYPE_WOTS)
    \<Longrightarrow> wots_addr_ok w"
  by (auto simp: agree_except_def addr_nth addr_len subtree_leaf_addr_def)

lemma layer_pk_addr_next: "pk_addr_ok (set_keypair_addr (subtree_pk_addr (layer_addr i tree)) idx)"
  by (auto simp: agree_except_def addr_nth addr_len subtree_pk_addr_def)

definition layer_root :: "hashblocks_fn \<Rightarrow> spx_ctx \<Rightarrow> nat \<Rightarrow> u64 \<Rightarrow> bytes" where
  "layer_root hb ctx i tree = subtree_root hb ctx (layer_addr i tree) (layer_addr i tree)"

fun signed_roots :: "hashblocks_fn \<Rightarrow> spx_ctx \<Rightarrow> nat \<Rightarrow> nat \<Rightarrow> bytes \<Rightarrow> u64 \<Rightarrow> bytes list" where
  "signed_roots hb ctx 0 i root tree = []"
| "signed_roots hb ctx (Suc n) i root tree =
     root # signed_roots hb ctx n (i + 1) (layer_root hb ctx i tree) (drop_bit SPX_TREE_HEIGHT tree)"

definition layer_sig :: "hashblocks_fn \<Rightarrow> spx_ctx \<Rightarrow> nat \<Rightarrow> u64 \<Rightarrow> u32 list \<Rightarrow> u32 \<Rightarrow> bytes" where
  "layer_sig hb ctx i tree steps idx = subtree_sig hb ctx (layer_addr i tree) (layer_addr i tree) steps idx"

lemma layer_cong:
  assumes "subtree_leaf_addr w = subtree_leaf_addr (layer_addr i tree)"
    "subtree_pk_addr w = subtree_pk_addr (layer_addr i tree)"
    "agree_except node_fields (set_type t SPX_ADDR_TYPE_HASHTREE) (set_type (layer_addr i tree) SPX_ADDR_TYPE_HASHTREE)"
  shows "subtree_root hb ctx w t = layer_root hb ctx i tree"
    "subtree_sig hb ctx w t steps idx = layer_sig hb ctx i tree steps idx"
proof -
  have "subtree_leaf hb ctx w = subtree_leaf hb ctx (layer_addr i tree)"
    by (rule ext) (simp add: subtree_leaf_def assms(1,2))
  then show "subtree_root hb ctx w t = layer_root hb ctx i tree"
    "subtree_sig hb ctx w t steps idx = layer_sig hb ctx i tree steps idx"
    by (simp_all only: subtree_root_def layer_root_def subtree_sig_def layer_sig_def assms(1)
        merkle_node_addr_cong [OF assms(3)] auth_path_of_addr_cong [OF assms(3)])
qed

lemma next_leaf_less: "unat (ucast (tree AND (push_bit SPX_TREE_HEIGHT 1 - 1)) :: u32) < 2 ^ 6" for tree :: u64
proof -
  have "tree AND (push_bit SPX_TREE_HEIGHT 1 - 1) = take_bit 6 tree"
    by (simp add: take_bit_eq_mask mask_eq_exp_minus_1)
  moreover have "unat (take_bit 6 tree) < 2 ^ 6" by (rule unat_take_bit_less)
  ultimately show ?thesis by (simp add: unsigned_ucast_eq take_bit_nat_eq_self)
qed

lemma chain_lengths_error:
  "chain_lengths cfg hb msg g = (Inl e, g') \<Longrightarrow> e = BITCOINPQC_SIGN_LIMIT_EXCEEDED"
  by (rule wotsc_compress_cases [of hb msg "if g \<noteq> None then WOTSC_MAX_COUNTER cfg else 0xFFFF"])
    (auto simp: chain_lengths_def wotsc_compress_message_checked_def Let_def)

text \<open>The counter limit of the WOTS+C search, and the messages the layers sign: the given root and then the
  root of each layer below the last.\<close>

definition wotsc_limit :: "build_config \<Rightarrow> stats_ptr \<Rightarrow> u32" where
  "wotsc_limit cfg g = (if g \<noteq> None then WOTSC_MAX_COUNTER cfg else 0xFFFF)"

lemma chain_lengths_run:
  obtains (ok) c steps where "c \<le> wotsc_limit cfg g" "wotsc_good hb msg c"
      "chain_lengths cfg hb msg g = (Inr steps, bitcoin_pqc_sign_stats_record_wotsc_attempts (c + 1) g)"
  | (capped) "\<And>c. c \<le> wotsc_limit cfg g \<Longrightarrow> \<not> wotsc_good hb msg c"
      "chain_lengths cfg hb msg g = (Inl BITCOINPQC_SIGN_LIMIT_EXCEEDED,
         bitcoin_pqc_sign_stats_record_wotsc_cap
           (bitcoin_pqc_sign_stats_record_wotsc_attempts (wotsc_limit cfg g + 1) g))"
proof (cases rule: wotsc_compress_cases [of hb msg "wotsc_limit cfg g"])
  case (found d)
  then show thesis
    by (intro ok [of d]) (auto simp: chain_lengths_def wotsc_compress_message_checked_def wotsc_limit_def)
next
  case capped
  then show thesis
    by (intro that(2)) (auto simp: chain_lengths_def wotsc_compress_message_checked_def wotsc_limit_def)
qed

section \<open>Signing a layer and verifying it\<close>

context seeded
begin

lemma layer_sign_step:
  fixes tree :: u64 and i :: nat
  assumes "wots_addr_ok w" "tree_addr_ok t" "unat idx < 2 ^ 6" "length s = 352"
    and "chain_lengths cfg hb root g = (Inr steps, g')"
  defines "T \<equiv> set_tree_addr (set_layer_addr t (of_nat i)) tree"
  shows "\<exists>t'. merkle_sign cfg hb s root ctx (set_keypair_addr (copy_subtree_addr w T) idx) T idx g =
      (0, layer_sig hb ctx i tree steps idx, layer_root hb ctx i tree, t', g') \<and> tree_addr_ok t'"
proof -
  note T = layer_tree_addr [where i = i and tree = tree, OF assms(2), folded T_def]
  note W = layer_wots_addr [where idx = idx, OF assms(1) T(3,4)]
  obtain t' where m: "merkle_sign cfg hb s root ctx (set_keypair_addr (copy_subtree_addr w T) idx) T idx g =
      (0, subtree_sig hb ctx (set_keypair_addr (copy_subtree_addr w T) idx) T steps idx,
       subtree_root hb ctx (set_keypair_addr (copy_subtree_addr w T) idx) T, t', g')"
    and t': "agree_except node_fields t' (set_type T SPX_ADDR_TYPE_HASHTREE)"
    using merkle_sign_ok [OF W(1) T(3) assms(4,3,5)] by blast
  have "tree_addr_ok t'"
    by (rule layer_tree_addr_next) (rule agree_except_trans [OF t' T(2)])
  with m show ?thesis by (simp only: layer_cong [OF W(2,3) T(2)]) simp
qed

lemma layer_verify_step:
  assumes "wots_addr_ok w" "tree_addr_ok t" "pk_addr_ok p" "unat idx < 2 ^ 6" "valid_config cfg"
    and "fst (chain_lengths cfg hb root g) = Inr steps"
  shows "\<exists>w' t' p'. hypertree_verify cfg hb ctx (Suc n) i (layer_sig hb ctx i tree steps idx @ rest) root w t p tree idx None =
      hypertree_verify cfg hb ctx n (i + 1) rest (layer_root hb ctx i tree) w' t' p'
        (drop_bit SPX_TREE_HEIGHT tree) (ucast (tree AND (push_bit SPX_TREE_HEIGHT 1 - 1))) None
      \<and> wots_addr_ok w' \<and> tree_addr_ok t' \<and> pk_addr_ok p'"
proof -
  define T where "T = set_tree_addr (set_layer_addr t (of_nat i)) tree"
  define W where "W = set_keypair_addr (copy_subtree_addr w T) idx"
  let ?A = "layer_addr i tree"
  note T = layer_tree_addr [where i = i and tree = tree, OF assms(2), folded T_def]
  note W = layer_wots_addr [where idx = idx, OF assms(1) T(3,4), folded W_def]
  have va: "valid_addr ?A" by (simp add: addr_len)
  obtain w' where pk: "wots_pk_from_sig cfg hb (layer_sig hb ctx i tree steps idx @ rest) root ctx W None =
      (Inr (wots_public hb ctx (set_keypair_addr (subtree_leaf_addr ?A) idx)), w', None)"
    and w': "agree_except chain_fields w' (set_type (set_keypair_addr (subtree_leaf_addr ?A) idx) SPX_ADDR_TYPE_WOTS)"
    using layer_pk [OF assms(6,5) va W(5)] unfolding layer_sig_def by blast
  obtain t' where rt: "compute_root hb
      (thash hb (wots_public hb ctx (set_keypair_addr (subtree_leaf_addr ?A) idx)) SPX_WOTS_LEN ctx
        (set_keypair_addr (subtree_pk_addr ?A) idx)) idx 0
      (drop SPX_WOTS_BYTES (layer_sig hb ctx i tree steps idx @ rest)) (of_nat SPX_TREE_HEIGHT) ctx T
      = (layer_root hb ctx i tree, t')"
    and t': "agree_except node_fields t' (set_type ?A SPX_ADDR_TYPE_HASHTREE)"
    using layer_root [OF va T(1) assms(4)] unfolding layer_sig_def layer_root_def by blast
  have "drop (SPX_TREE_HEIGHT * SPX_N) (drop SPX_WOTS_BYTES (layer_sig hb ctx i tree steps idx @ rest)) = rest"
    by (simp add: layer_sig_def length_subtree_sig)
  then have "hypertree_verify cfg hb ctx (Suc n) i (layer_sig hb ctx i tree steps idx @ rest) root w t p tree idx None =
      hypertree_verify cfg hb ctx n (i + 1) rest (layer_root hb ctx i tree) w' t' (set_keypair_addr (subtree_pk_addr ?A) idx)
        (drop_bit SPX_TREE_HEIGHT tree) (ucast (tree AND (push_bit SPX_TREE_HEIGHT 1 - 1))) None"
    unfolding hypertree_verify.simps Let_def T_def [symmetric] W_def [symmetric] pk prod.case sum.case
      W(6) [OF assms(3)] rt by simp
  with layer_wots_addr_next [OF w'] layer_tree_addr_next [OF t'] layer_pk_addr_next [of i tree idx]
  show ?thesis by blast
qed

lemma length_layer_sig: "length (layer_sig hb ctx i tree steps idx) = 352"
  by (simp add: layer_sig_def length_subtree_sig)

lemma hypertree_roundtrip:
  assumes "wots_addr_ok w" "tree_addr_ok t" "unat idx < 2 ^ 6" "valid_config cfg"
    and "off + 352 * n \<le> length sig"
    and "hypertree_sign cfg hb ctx n i sig off root w t tree idx g = (0, sig', root', g')"
  shows "\<exists>S. length S = 352 * n \<and> sig' = put_bytes off S sig \<and>
    (\<forall>w t p rest. wots_addr_ok w \<longrightarrow> tree_addr_ok t \<longrightarrow> pk_addr_ok p \<longrightarrow>
      hypertree_verify cfg hb ctx n i (S @ rest) root w t p tree idx None = (Inr root', None)) \<and>
    (0 < n \<longrightarrow> root' = layer_root hb ctx (i + n - 1) (drop_bit (6 * (n - 1)) tree))"
  using assms(1-3,5,6)
proof (induction n arbitrary: i sig off root w t tree idx g)
  case (Suc n)
  define T where "T = set_tree_addr (set_layer_addr t (of_nat i)) tree"
  define W where "W = set_keypair_addr (copy_subtree_addr w T) idx"
  let ?tree = "drop_bit SPX_TREE_HEIGHT tree"
  let ?idx = "ucast (tree AND (push_bit SPX_TREE_HEIGHT 1 - 1)) :: u32"
  have len: "length (get_bytes off 352 sig) = 352" using Suc.prems(4) by simp
  have idx: "idx \<noteq> SPX_NO_SIGN_LEAF"
    using Suc.prems(3) by (auto simp: SPX_NO_SIGN_LEAF_def unsigned_minus_1_eq_mask mask_eq_exp_minus_1)
  have "\<exists>steps g1. chain_lengths cfg hb root g = (Inr steps, g1)"
  proof (cases "chain_lengths cfg hb root g")
    case (Pair r g1)
    show ?thesis
    proof (cases r)
      case (Inl e)
      then have "e = BITCOINPQC_SIGN_LIMIT_EXCEEDED" using Pair chain_lengths_error by blast
      then show ?thesis
        using Suc.prems(5) merkle_sign_fail [OF Pair [unfolded Inl] idx] by simp
    qed (use Pair in simp)
  qed
  then obtain steps g1 where c: "chain_lengths cfg hb root g = (Inr steps, g1)" by blast
  let ?S = "layer_sig hb ctx i tree steps idx"
  obtain t' where m: "merkle_sign cfg hb (get_bytes off 352 sig) root ctx W T idx g = (0, ?S, layer_root hb ctx i tree, t', g1)"
    and t': "tree_addr_ok t'"
    using layer_sign_step [OF Suc.prems(1-3) len c] unfolding W_def T_def by blast
  have sz: "SPX_WOTS_BYTES + SPX_TREE_HEIGHT * SPX_N = 352" by simp
  have rec: "hypertree_sign cfg hb ctx n (i + 1) (put_bytes off ?S sig) (off + 352) (layer_root hb ctx i tree) W t' ?tree ?idx g1
      = (0, sig', root', g')"
    using Suc.prems(5) unfolding hypertree_sign.simps Let_def sz add.assoc T_def [symmetric] W_def [symmetric] m by simp
  have W: "wots_addr_ok W"
    using layer_wots_addr(4) [OF Suc.prems(1) layer_tree_addr(3,4) [OF Suc.prems(2)]] unfolding W_def T_def .
  have "\<exists>S. length S = 352 * n \<and> sig' = put_bytes (off + 352) S (put_bytes off ?S sig) \<and>
    (\<forall>w t p rest. wots_addr_ok w \<longrightarrow> tree_addr_ok t \<longrightarrow> pk_addr_ok p \<longrightarrow>
      hypertree_verify cfg hb ctx n (i + 1) (S @ rest) (layer_root hb ctx i tree) w t p ?tree ?idx None = (Inr root', None)) \<and>
    (0 < n \<longrightarrow> root' = layer_root hb ctx (i + 1 + n - 1) (drop_bit (6 * (n - 1)) ?tree))"
    using Suc.prems(4) next_leaf_less [of tree]
    by (intro Suc.IH [OF W t' _ _ rec]) (simp_all add: length_layer_sig)
  then obtain S where S: "length S = 352 * n" "sig' = put_bytes (off + 352) S (put_bytes off ?S sig)"
    and ver: "\<And>w t p rest. wots_addr_ok w \<Longrightarrow> tree_addr_ok t \<Longrightarrow> pk_addr_ok p \<Longrightarrow>
      hypertree_verify cfg hb ctx n (i + 1) (S @ rest) (layer_root hb ctx i tree) w t p ?tree ?idx None = (Inr root', None)"
    and top: "0 < n \<Longrightarrow> root' = layer_root hb ctx (i + 1 + n - 1) (drop_bit (6 * (n - 1)) ?tree)"
    by blast
  show ?case
  proof (intro exI [of _ "?S @ S"] conjI allI impI)
    show "length (?S @ S) = 352 * Suc n" using S(1) by (simp add: length_layer_sig)
    show "sig' = put_bytes off (?S @ S) sig"
      using S Suc.prems(4) by (simp add: put_bytes_def length_layer_sig ac_simps)
    show "root' = layer_root hb ctx (i + Suc n - 1) (drop_bit (6 * (Suc n - 1)) tree)" if "0 < Suc n"
      using top rec by (cases n) (simp_all add: drop_bit_drop_bit add.commute [of 6])
  next
    fix w t p :: bytes and rest :: bytes
    assume ok: "wots_addr_ok w" "tree_addr_ok t" "pk_addr_ok p"
    have "fst (chain_lengths cfg hb root g) = Inr steps" using c by simp
    from layer_verify_step [OF ok Suc.prems(3) assms(4) this, of n i tree "S @ rest"] ver
    show "hypertree_verify cfg hb ctx (Suc n) i ((?S @ S) @ rest) root w t p tree idx None = (Inr root', None)"
      by auto
  qed
qed simp

end

context seeded
begin

text \<open>Whatever happens, the loop keeps the buffer's length, its only error is the signing limit, and it
  succeeds exactly when every signed root has a good counter within the limit.\<close>

lemma hypertree_sign_result:
  assumes "wots_addr_ok w" "tree_addr_ok t" "unat idx < 2 ^ 6" "off + 352 * n \<le> length sig"
    and "hypertree_sign cfg hb ctx n i sig off root w t tree idx g = (res, sig', root', g')"
  shows "length sig' = length sig \<and> res \<in> {0, BITCOINPQC_SIGN_LIMIT_EXCEEDED} \<and> take off sig' = take off sig \<and>
    (res = 0 \<longleftrightarrow> (\<forall>r\<in>set (signed_roots hb ctx n i root tree). \<exists>c\<le>wotsc_limit cfg g. wotsc_good hb r c))"
  using assms
proof (induction n arbitrary: i sig off root w t tree idx g)
  case (Suc n)
  define T where "T = set_tree_addr (set_layer_addr t (of_nat i)) tree"
  define W where "W = set_keypair_addr (copy_subtree_addr w T) idx"
  have len: "length (get_bytes off 352 sig) = 352" using Suc.prems(4) by simp
  have idx: "idx \<noteq> SPX_NO_SIGN_LEAF"
    using Suc.prems(3) by (auto simp: SPX_NO_SIGN_LEAF_def unsigned_minus_1_eq_mask mask_eq_exp_minus_1)
  have sz: "SPX_WOTS_BYTES + SPX_TREE_HEIGHT * SPX_N = 352" by simp
  show ?case
  proof (cases rule: chain_lengths_run [of cfg g hb root])
    case capped
    have m: "merkle_sign cfg hb (get_bytes off 352 sig) root ctx W T idx g =
        (BITCOINPQC_SIGN_LIMIT_EXCEEDED, get_bytes off 352 sig, root, T, bitcoin_pqc_sign_stats_record_wotsc_cap
          (bitcoin_pqc_sign_stats_record_wotsc_attempts (wotsc_limit cfg g + 1) g))"
      by (rule merkle_sign_fail [OF capped(2) idx])
    show ?thesis
      using Suc.prems(4,5) len capped(1)
      unfolding hypertree_sign.simps Let_def sz T_def [symmetric] W_def [symmetric] m
      by (auto simp: take_put_bytes)
  next
    case (ok c steps)
    let ?g = "bitcoin_pqc_sign_stats_record_wotsc_attempts (c + 1) g"
    obtain t' where m: "merkle_sign cfg hb (get_bytes off 352 sig) root ctx W T idx g =
        (0, layer_sig hb ctx i tree steps idx, layer_root hb ctx i tree, t', ?g)" and t': "tree_addr_ok t'"
      using layer_sign_step [OF Suc.prems(1-3) len ok(3)] unfolding W_def T_def by blast
    have W: "wots_addr_ok W"
      using layer_wots_addr(4) [OF Suc.prems(1) layer_tree_addr(3,4) [OF Suc.prems(2)]] unfolding W_def T_def .
    let ?sig = "put_bytes off (layer_sig hb ctx i tree steps idx) sig"
    have l: "length ?sig = length sig" using Suc.prems(4) by (simp add: length_layer_sig)
    have rec: "hypertree_sign cfg hb ctx n (i + 1) ?sig (off + 352) (layer_root hb ctx i tree) W t'
        (drop_bit SPX_TREE_HEIGHT tree) (ucast (tree AND (push_bit SPX_TREE_HEIGHT 1 - 1))) ?g = (res, sig', root', g')"
      using Suc.prems(5) unfolding hypertree_sign.simps Let_def sz add.assoc T_def [symmetric] W_def [symmetric] m by simp
    have "off + 352 + 352 * n \<le> length ?sig" using Suc.prems(4) l by simp
    note IH = Suc.IH [OF W t' next_leaf_less this rec]
    have "wotsc_limit cfg ?g = wotsc_limit cfg g" by (simp add: wotsc_limit_def)
    moreover from IH have "take off sig' = take off ?sig" by (metis le_add1 min.absorb1 take_take)
    ultimately show ?thesis using IH l Suc.prems(4) ok(1,2) by (auto simp: take_put_bytes)
  qed
qed simp

end

section \<open>The statistics of the hypertree loop\<close>

text \<open>The attempt counts of a session: each between one and the limit's number of counters.\<close>

definition attempts_ok :: "build_config \<Rightarrow> u32 list \<Rightarrow> bool" where
  "attempts_ok cfg ws \<longleftrightarrow> (\<forall>w\<in>set ws. 1 \<le> unat w \<and> unat w \<le> Suc (unat (WOTSC_MAX_COUNTER cfg)))"

lemma attempts_okI:
  fixes c :: u32
  assumes "valid_config cfg" "c \<le> WOTSC_MAX_COUNTER cfg"
  shows "attempts_ok cfg [c + 1]"
proof -
  have "unat c \<le> unat (WOTSC_MAX_COUNTER cfg)" "unat (WOTSC_MAX_COUNTER cfg) \<le> 65535"
    using assms by (simp_all add: valid_config_def word_le_nat_alt)
  then have "unat (c + 1) = Suc (unat c)" by (simp add: unat_word_ariths)
  with assms(2) show ?thesis by (simp add: attempts_ok_def word_le_nat_alt)
qed

lemma hypertree_sign_stats:
  assumes "idx \<noteq> SPX_NO_SIGN_LEAF" "valid_config cfg" "stats_inv cfg ws s" "length ws + n \<le> 5"
    and "hypertree_sign cfg hb ctx n i sig off root w t tree idx (Some s) = (res, sig', root', g')"
  shows "\<exists>ws' s'. g' = Some s' \<and> stats_inv cfg (ws @ ws') s' \<and> attempts_ok cfg ws' \<and>
    forsc_attempts s' = forsc_attempts s \<and>
    (if res = 0 then length ws' = n \<and> cap_exceeded s' = cap_exceeded s else cap_exceeded s' = cap_exceeded s OR 2)"
  using assms(1,3-5)
proof (induction n arbitrary: i sig off root w t tree idx ws s)
  case 0
  then show ?case by (intro exI [of _ "[]"] exI [of _ s]) (simp add: attempts_ok_def)
next
  case (Suc n)
  define T where "T = set_tree_addr (set_layer_addr t (of_nat i)) tree"
  define W where "W = set_keypair_addr (copy_subtree_addr w T) idx"
  have sz: "SPX_WOTS_BYTES + SPX_TREE_HEIGHT * SPX_N = 352" by simp
  have lim: "wotsc_limit cfg (Some s) = WOTSC_MAX_COUNTER cfg" by (simp add: wotsc_limit_def)
  have len: "length ws < 5" using Suc.prems(3) by simp
  note inv = stats_inv_wotsc [OF Suc.prems(2) len]
  let ?sig = "get_bytes off 352 sig"
  obtain mr ls rt t' g1 where m: "merkle_sign cfg hb ?sig root ctx W T idx (Some s) = (mr, ls, rt, t', g1)"
    by (metis prod_cases5)
  have run: "(res, sig', root', g') =
      (if mr \<noteq> 0 then (mr, put_bytes off ls sig, rt, g1)
       else hypertree_sign cfg hb ctx n (i + 1) (put_bytes off ls sig) (off + 352) rt W t'
         (drop_bit SPX_TREE_HEIGHT tree) (ucast (tree AND (push_bit SPX_TREE_HEIGHT 1 - 1))) g1)"
    unfolding Suc.prems(4) [symmetric] hypertree_sign.simps Let_def sz add.assoc T_def [symmetric] W_def [symmetric] m by simp
  show ?case
  proof (cases rule: chain_lengths_run [of cfg "Some s" hb root])
    case capped
    have mr: "mr = BITCOINPQC_SIGN_LIMIT_EXCEEDED" "g1 = bitcoin_pqc_sign_stats_record_wotsc_cap
        (bitcoin_pqc_sign_stats_record_wotsc_attempts (WOTSC_MAX_COUNTER cfg + 1) (Some s))"
      using m Suc.prems(1) by (simp_all add: merkle_sign_def merkle_sign_scalar_def capped(2) lim)
    obtain s1 where s1: "bitcoin_pqc_sign_stats_record_wotsc_attempts (WOTSC_MAX_COUNTER cfg + 1) (Some s) = Some s1"
      "stats_inv cfg (ws @ [WOTSC_MAX_COUNTER cfg + 1]) s1" "cap_exceeded s1 = cap_exceeded s" "forsc_attempts s1 = forsc_attempts s"
      using inv [of "WOTSC_MAX_COUNTER cfg + 1"] by blast
    from stats_inv_cap [OF s1(2)] obtain s2 where "g1 = Some s2" "stats_inv cfg (ws @ [WOTSC_MAX_COUNTER cfg + 1]) s2"
      "cap_exceeded s2 = cap_exceeded s OR 2" "forsc_attempts s2 = forsc_attempts s"
      using mr(2) s1 by auto
    moreover have "attempts_ok cfg [WOTSC_MAX_COUNTER cfg + 1]" by (rule attempts_okI [OF assms(2)]) simp
    ultimately show ?thesis
      using run mr(1) by (intro exI [of _ "[WOTSC_MAX_COUNTER cfg + 1]"] exI [of _ s2]) simp
  next
    case (ok c steps)
    have g1: "mr = 0 \<and> g1 = bitcoin_pqc_sign_stats_record_wotsc_attempts (c + 1) (Some s)"
      using m Suc.prems(1) by (auto simp: merkle_sign_def merkle_sign_scalar_def ok(3) Let_def split: prod.splits)
    obtain s1 where s1: "g1 = Some s1" "stats_inv cfg (ws @ [c + 1]) s1" "cap_exceeded s1 = cap_exceeded s"
      "forsc_attempts s1 = forsc_attempts s"
      using inv [of "c + 1"] g1 by auto
    have nx: "ucast (tree AND (push_bit SPX_TREE_HEIGHT 1 - 1)) \<noteq> SPX_NO_SIGN_LEAF"
      using next_leaf_less [of tree] by (auto simp: SPX_NO_SIGN_LEAF_def unsigned_minus_1_eq_mask mask_eq_exp_minus_1)
    have "length (ws @ [c + 1]) + n \<le> 5" using Suc.prems(3) by simp
    from Suc.IH [OF nx s1(2) this] run g1 s1(1) obtain ws' s' where IH: "g' = Some s'" "stats_inv cfg ((ws @ [c + 1]) @ ws') s'"
      "attempts_ok cfg ws'" "forsc_attempts s' = forsc_attempts s1"
      "if res = 0 then length ws' = n \<and> cap_exceeded s' = cap_exceeded s1 else cap_exceeded s' = cap_exceeded s1 OR 2"
      by (metis (no_types, lifting))
    have "attempts_ok cfg [c + 1]" using ok(1) lim by (intro attempts_okI [OF assms(2)]) simp
    with IH s1 show ?thesis
      by (intro exI [of _ "(c + 1) # ws'"] exI [of _ s']) (auto simp: attempts_ok_def split: if_splits)
  qed
qed

section \<open>Verification only uses the seeded midstate\<close>

lemma thash_cong: "state_seeded c = state_seeded d \<Longrightarrow> thash hb x n c a = thash hb x n d a"
  by (simp add: thash_def)

lemma gen_chain_loop_cong:
  assumes "state_seeded c = state_seeded d"
  shows "gen_chain_loop hb c lim i out addr = gen_chain_loop hb d lim i out addr"
proof (induction "unat lim - unat i" arbitrary: i out addr)
  case 0
  then have "\<not> i < lim" by (simp add: word_less_nat_alt)
  then show ?case by (simp add: gen_chain_loop.simps)
next
  case (Suc n)
  then have "i < lim" by (simp add: word_less_nat_alt)
  with Suc have "gen_chain_loop hb c lim (i + 1) x a = gen_chain_loop hb d lim (i + 1) x a" for x a
    by (intro Suc.hyps(1)) (simp add: unat_plus_one)
  then show ?case
    by (subst (1 2) gen_chain_loop.simps) (simp add: thash_cong [OF assms])
qed

lemma wots_pk_from_sig_cong:
  assumes "state_seeded c = state_seeded d"
  shows "wots_pk_from_sig cfg hb sig msg c addr g = wots_pk_from_sig cfg hb sig msg d addr g"
proof -
  have "wots_pk_chain hb c sig = wots_pk_chain hb d sig"
    by (intro ext) (simp add: wots_pk_chain_def gen_chain_def gen_chain_loop_cong [OF assms])
  then show ?thesis unfolding wots_pk_from_sig_def by (simp only:)
qed

lemma compute_root_loop_cong:
  assumes "state_seeded c = state_seeded d"
  shows "compute_root_loop hb c th i l off b auth addr = compute_root_loop hb d th i l off b auth addr"
proof (induction "unat (th - 1) - unat i" arbitrary: i l off b auth addr)
  case 0
  then have "\<not> i < th - 1" by (simp add: word_less_nat_alt)
  then show ?case by (simp add: compute_root_loop.simps)
next
  case (Suc n)
  then have "i < th - 1" by (simp add: word_less_nat_alt)
  with Suc have "compute_root_loop hb c th (i + 1) x y z u v = compute_root_loop hb d th (i + 1) x y z u v" for x y z u v
    by (intro Suc.hyps(1)) (simp add: unat_plus_one)
  then show ?case
    by (subst (1 2) compute_root_loop.simps) (simp add: thash_cong [OF assms] Let_def)
qed

lemma compute_root_cong:
  assumes "state_seeded c = state_seeded d"
  shows "compute_root hb leaf l off auth th c addr = compute_root hb leaf l off auth th d addr"
  by (simp add: compute_root_def compute_root_loop_cong [OF assms] thash_cong [OF assms])

lemma fors_pk_from_sig_cong:
  assumes "state_seeded c = state_seeded d"
  shows "fors_pk_from_sig hb sig m c addr = fors_pk_from_sig hb sig m d addr"
proof -
  have "fors_pk_step hb c = fors_pk_step hb d"
    by (intro ext) (simp add: fors_pk_step_def fors_sk_to_leaf_def compute_root_cong [OF assms] thash_cong [OF assms])
  then show ?thesis by (simp add: fors_pk_from_sig_def thash_cong [OF assms])
qed

lemma hypertree_verify_cong:
  assumes "state_seeded c = state_seeded d"
  shows "hypertree_verify cfg hb c n i sig root w t p tree idx g = hypertree_verify cfg hb d n i sig root w t p tree idx g"
  by (induction n arbitrary: i sig root w t p tree idx g)
    (simp_all add: wots_pk_from_sig_cong [OF assms] compute_root_cong [OF assms] thash_cong [OF assms] Let_def
      split: prod.split sum.split)

section \<open>The salt search finds the first good salt\<close>

definition forsc_good :: "hashblocks_fn \<Rightarrow> bytes \<Rightarrow> bytes \<Rightarrow> bytes \<Rightarrow> u32 \<Rightarrow> bool" where
  "forsc_good hb pk m r_base k \<longleftrightarrow>
     forsc_compressed_index (fst (hash_message hb (forsc_tweak r_base k) pk m)) = 0"

lemma length_forsc_tweak [simp]: "length (forsc_tweak r_base k) = length r_base"
  by (simp add: forsc_tweak_def)

lemma forsc_tweak_0 [simp]: "forsc_tweak r_base 0 = r_base"
  by (simp add: forsc_tweak_def)

lemma forsc_grind_hit:
  assumes "forsc_good hb pk m r_base k"
  shows "forsc_grind cfg hb pk m r_base (forsc_tweak r_base k) k a g =
    (Inr (hash_message hb (forsc_tweak r_base k) pk m), forsc_tweak r_base k,
     bitcoin_pqc_sign_stats_record_forsc_attempts (a + 1) g)"
  using assms by (subst forsc_grind.simps) (simp add: forsc_good_def Let_def case_prod_beta)

lemma forsc_grind_miss:
  assumes "\<not> forsc_good hb pk m r_base k" "k + 1 < FORSC_MAX_GRIND_ATTEMPTS cfg" "k + 1 \<noteq> 0"
  shows "forsc_grind cfg hb pk m r_base (forsc_tweak r_base k) k k g =
    forsc_grind cfg hb pk m r_base (forsc_tweak r_base (k + 1)) (k + 1) (k + 1) g"
  using assms by (subst forsc_grind.simps) (auto simp: forsc_good_def Let_def case_prod_beta)

lemma forsc_grind_stop:
  assumes "\<not> forsc_good hb pk m r_base k" "k + 1 = FORSC_MAX_GRIND_ATTEMPTS cfg"
  shows "forsc_grind cfg hb pk m r_base (forsc_tweak r_base k) k k g =
    (Inl BITCOINPQC_SIGN_LIMIT_EXCEEDED, forsc_tweak r_base k,
     bitcoin_pqc_sign_stats_record_forsc_cap
       (bitcoin_pqc_sign_stats_record_forsc_attempts (FORSC_MAX_GRIND_ATTEMPTS cfg) g))"
  using assms by (subst forsc_grind.simps) (simp add: forsc_good_def Let_def case_prod_beta)

lemma forsc_grind_cases:
  assumes "k0 < FORSC_MAX_GRIND_ATTEMPTS cfg"
  obtains (found) k where "k0 \<le> k" "k < FORSC_MAX_GRIND_ATTEMPTS cfg" "forsc_good hb pk m r_base k"
      "\<And>j. k0 \<le> j \<Longrightarrow> j < k \<Longrightarrow> \<not> forsc_good hb pk m r_base j"
      "\<And>g. forsc_grind cfg hb pk m r_base (forsc_tweak r_base k0) k0 k0 g =
        (Inr (hash_message hb (forsc_tweak r_base k) pk m), forsc_tweak r_base k,
         bitcoin_pqc_sign_stats_record_forsc_attempts (k + 1) g)"
  | (capped) "\<And>j. k0 \<le> j \<Longrightarrow> j < FORSC_MAX_GRIND_ATTEMPTS cfg \<Longrightarrow> \<not> forsc_good hb pk m r_base j"
      "\<And>g. forsc_grind cfg hb pk m r_base (forsc_tweak r_base k0) k0 k0 g =
        (Inl BITCOINPQC_SIGN_LIMIT_EXCEEDED, forsc_tweak r_base (FORSC_MAX_GRIND_ATTEMPTS cfg - 1),
         bitcoin_pqc_sign_stats_record_forsc_cap
           (bitcoin_pqc_sign_stats_record_forsc_attempts (FORSC_MAX_GRIND_ATTEMPTS cfg) g))"
  using assms
proof (induction "unat (FORSC_MAX_GRIND_ATTEMPTS cfg) - unat k0" arbitrary: k0 thesis rule: less_induct)
  case less
  let ?M = "FORSC_MAX_GRIND_ATTEMPTS cfg"
  have u: "unat (k0 + 1) = Suc (unat k0)" using less.prems(3) by (rule unat_plus_one)
  have nz: "k0 + 1 \<noteq> 0" using u by (metis Zero_not_Suc unat_0)
  show ?case
  proof (cases "forsc_good hb pk m r_base k0")
    case True
    then show ?thesis
      using less.prems(3) by (intro less.prems(1) [of k0]) (auto simp: forsc_grind_hit)
  next
    case miss: False
    have le: "k0 + 1 \<le> ?M" using less.prems(3) u by (simp add: word_le_nat_alt word_less_nat_alt Suc_leI)
    show ?thesis
    proof (cases "k0 + 1 = ?M")
      case True
      then have "k0 = ?M - 1" by (metis add_diff_cancel_right')
      moreover have "j = k0" if "k0 \<le> j" "j < ?M" for j
        using that True [symmetric] u by (intro word_eq_unatI) (simp add: word_le_nat_alt word_less_nat_alt)
      ultimately show ?thesis
        using miss True by (intro less.prems(2)) (auto simp: forsc_grind_stop)
    next
      case False
      with le have lt: "k0 + 1 < ?M" by simp
      have ge: "k0 + 1 \<le> j" if "k0 \<le> j" "j \<noteq> k0" for j
        using that u by (metis Suc_leI le_neq_trans word_eq_unatI word_le_nat_alt)
      note step = forsc_grind_miss [OF miss lt nz]
      have dec: "unat ?M - unat (k0 + 1) < unat ?M - unat k0" using less.prems(3) by (rule word_count_up)
      show ?thesis
      proof (rule less.hyps [OF dec _ _ lt], goal_cases)
        case (1 k)
        have "k0 \<le> k" using 1(1) u by (simp add: word_le_nat_alt)
        moreover have "\<not> forsc_good hb pk m r_base j" if "k0 \<le> j" "j < k" for j
          using 1(4) [of j] ge [of j] miss that by (cases "j = k0") auto
        ultimately show ?thesis using 1 by (intro less.prems(1) [of k]) (auto simp: step)
      next
        case 2
        have "\<not> forsc_good hb pk m r_base j" if "k0 \<le> j" "j < ?M" for j
          using 2(1) [of j] ge [of j] miss that by (cases "j = k0") auto
        then show ?thesis using 2(2) by (intro less.prems(2)) (auto simp: step)
      qed
    qed
  qed
qed

section \<open>Signatures verify\<close>

text \<open>The context of a key: the seeds, and the midstate of the public one.\<close>

definition key_ctx :: "hashblocks_fn \<Rightarrow> bytes \<Rightarrow> spx_ctx" where
  "key_ctx hb sk = initialize_hash_function hb
     \<lparr>pub_seed = take 16 (drop 32 sk), sk_seed = take 16 sk, state_seeded = []\<rparr>"

text \<open>The root the seeds of a secret key determine, and keys that store it.\<close>

definition key_root :: "hashblocks_fn \<Rightarrow> bytes \<Rightarrow> bytes" where
  "key_root hb sk = layer_root hb (key_ctx hb sk) 4 0"

definition consistent_sk :: "hashblocks_fn \<Rightarrow> bytes \<Rightarrow> bool" where
  "consistent_sk hb sk \<longleftrightarrow> length sk = 64 \<and> drop 48 sk = key_root hb sk"

text \<open>The address all of a signature's FORS and WOTS computations start from.\<close>

abbreviation sign_addr :: "u64 \<Rightarrow> u32 \<Rightarrow> spx_addr" where
  "sign_addr tree idx \<equiv> set_keypair_addr (set_tree_addr (set_type zero_addr SPX_ADDR_TYPE_WOTS) tree) idx"

lemma sign_addr_ok:
  "valid_addr (sign_addr tree idx)" "wots_addr_ok (sign_addr tree idx)"
  "tree_addr_ok (set_type zero_addr SPX_ADDR_TYPE_HASHTREE)" "pk_addr_ok (set_type zero_addr SPX_ADDR_TYPE_WOTSPK)"
  by (auto simp: agree_except_def addr_nth addr_len)

text \<open>Signing with a working random source succeeds exactly when the salt search finds a salt and every root
  the layers sign has a good WOTS+C counter within the limits.\<close>

definition sign_searches_succeed :: "build_config \<Rightarrow> hashblocks_fn \<Rightarrow> bytes \<Rightarrow> bytes \<Rightarrow> bytes \<Rightarrow> stats_ptr \<Rightarrow> bool" where
  "sign_searches_succeed cfg hb r_base m sk g \<longleftrightarrow>
     (\<exists>k<FORSC_MAX_GRIND_ATTEMPTS cfg. forsc_good hb (drop 32 sk) m r_base k \<and>
       (\<forall>j<k. \<not> forsc_good hb (drop 32 sk) m r_base j) \<and>
       (case hash_message hb (forsc_tweak r_base k) (drop 32 sk) m of (mhash, tree, idx) \<Rightarrow>
          \<forall>root\<in>set (signed_roots hb (key_ctx hb sk) 5 0 (fors_pk hb (key_ctx hb sk) (sign_addr tree idx)) tree).
            \<exists>c\<le>wotsc_limit cfg g. wotsc_good hb root c))"

lemma state_seeded_init:
  "pub_seed c = pub_seed d \<Longrightarrow> state_seeded (initialize_hash_function hb c) = state_seeded (initialize_hash_function hb d)"
  by (simp add: initialize_hash_function_def seed_state_def)

context sha256_backend
begin

lemma seeded_key_ctx: "length sk = 64 \<Longrightarrow> seeded hb (key_ctx hb sk)"
  unfolding key_ctx_def by unfold_locales (rule ctx_seeded_init, simp)

lemma length_key_root: "length sk = 64 \<Longrightarrow> length (key_root hb sk) = 16"
  unfolding key_root_def layer_root_def by (rule seeded.length_subtree_root [OF seeded_key_ctx])

lemma merkle_gen_root_key:
  "length sk = 64 \<Longrightarrow> merkle_gen_root cfg hb root (key_ctx hb sk) g = (0, key_root hb sk, g)"
proof -
  assume sk: "length sk = 64"
  have "set_tree_addr (set_layer_addr zero_addr 4) 0 = set_layer_addr zero_addr 4"
    by (rule addr_eqI) (auto simp: addr_nth addr_len nth_be_bytes)
  then have "layer_addr 4 0 = set_layer_addr zero_addr 4"
    by (simp add: layer_addr_def)
  then show ?thesis
    using seeded.merkle_gen_root_ok [OF seeded_key_ctx [OF sk]] by (simp add: key_root_def layer_root_def)
qed

lemma length_gen_message_random: "length (gen_message_random hb sk_prf optrand m) = 16"
  by (simp add: gen_message_random_def Let_def sha256_eq_md length_sha256_md)

lemma hash_message_prefix: "length R = 16 \<Longrightarrow> hash_message hb (R @ x) pk m = hash_message hb R pk m"
  by (simp add: hash_message_def)

text \<open>A signing run: the random source fails, or no salt is found, or the FORS signature is written and the
  hypertree loop runs from the FORS public key.\<close>

lemma crypto_sign_signature_cases:
  fixes r_base m :: bytes
  assumes sk: "length sk = 64" and cfg: "valid_config cfg" and rt: "joins_all rt" and sig: "length sig = 3680"
    and rnd: "randombytes (Some (replicate SPX_N 0)) SPX_N (slh_dsa_random_source_clear_failure (ts_rng ts)) = (optrand, r)"
  defines "r_base \<equiv> gen_message_random hb (drop 16 sk) (the optrand) m"
  obtains (failed) "g_random_source_failed r"
      "crypto_sign_signature cfg hb rt sig m sk ts = (-1, sig, 0, ts\<lparr>ts_rng := r\<rparr>)"
  | (no_salt) R where "\<not> g_random_source_failed r" "length R = 16"
      "\<And>k. k < FORSC_MAX_GRIND_ATTEMPTS cfg \<Longrightarrow> \<not> forsc_good hb (drop 32 sk) m r_base k"
      "crypto_sign_signature cfg hb rt sig m sk ts = (BITCOINPQC_SIGN_LIMIT_EXCEEDED, put_bytes 0 R sig, 0,
         ts\<lparr>ts_rng := r, ts_stats := bitcoin_pqc_sign_stats_record_forsc_cap
           (bitcoin_pqc_sign_stats_record_forsc_attempts (FORSC_MAX_GRIND_ATTEMPTS cfg) (ts_stats ts))\<rparr>)"
  | (salt) k mhash tree idx result sig' root g where "\<not> g_random_source_failed r"
      "k < FORSC_MAX_GRIND_ATTEMPTS cfg" "forsc_good hb (drop 32 sk) m r_base k"
      "\<And>j. j < k \<Longrightarrow> \<not> forsc_good hb (drop 32 sk) m r_base j"
      "hash_message hb (forsc_tweak r_base k) (drop 32 sk) m = (mhash, tree, idx)"
      "hypertree_sign cfg hb (key_ctx hb sk) 5 0
         (put_bytes 16 (fors_sig hb (key_ctx hb sk) (sign_addr tree idx) (message_to_indices mhash))
           (put_bytes 0 (forsc_tweak r_base k) sig)) 1920 (fors_pk hb (key_ctx hb sk) (sign_addr tree idx))
         (sign_addr tree idx) (set_type zero_addr SPX_ADDR_TYPE_HASHTREE) tree idx
         (bitcoin_pqc_sign_stats_record_forsc_attempts (k + 1) (ts_stats ts)) = (result, sig', root, g)"
      "crypto_sign_signature cfg hb rt sig m sk ts =
         (result, sig', if result = 0 then 3680 else 0, ts\<lparr>ts_rng := r, ts_stats := g\<rparr>)"
proof -
  let ?ctx = "key_ctx hb sk" and ?pk = "drop 32 sk"
  have sd: "seeded hb ?ctx" by (rule seeded_key_ctx [OF sk])
  have lr: "length (forsc_tweak r_base k) = 16" for k by (simp add: r_base_def length_gen_message_random)
  have ctx: "initialize_hash_function hb \<lparr>pub_seed = take SPX_N (drop (2 * SPX_N) sk), sk_seed = take SPX_N sk, state_seeded = []\<rparr> = ?ctx"
    by (simp add: key_ctx_def)
  have pk: "drop (2 * SPX_N) sk = ?pk" "drop SPX_N sk = drop 16 sk" by simp_all
  have sz: "SPX_BYTES = 3680" "SPX_N = 16" "SPX_FORS_BYTES = 1904" "SPX_D = 5" "16 + 1904 = (1920 :: nat)" by simp_all
  have M: "0 < FORSC_MAX_GRIND_ATTEMPTS cfg" using cfg by (auto simp: valid_config_def word_gt_0)
  show thesis
  proof (cases "g_random_source_failed r")
    case True
    then show thesis
      by (intro failed) (simp_all add: crypto_sign_signature_def rnd [unfolded SPX_N_def] slh_dsa_random_source_failed_def)
  next
    case ok: False
    have run: "crypto_sign_signature cfg hb rt sig m sk ts =
        (let (found, R, g) = forsc_grind cfg hb ?pk m r_base r_base 0 0 (ts_stats ts);
             sig = put_bytes 0 R sig
         in case found of
              Inl result \<Rightarrow> (result, sig, 0, ts\<lparr>ts_rng := r, ts_stats := g\<rparr>)
            | Inr (mhash, tree, idx) \<Rightarrow>
                (let (fsig, root) = fors_sign hb rt (get_bytes 16 1904 sig) mhash ?ctx (sign_addr tree idx);
                     sig = put_bytes 16 fsig sig;
                     (result, sig, root, g) = hypertree_sign cfg hb ?ctx 5 0 sig 1920 root (sign_addr tree idx)
                       (set_type zero_addr SPX_ADDR_TYPE_HASHTREE) tree idx g
                 in if result \<noteq> 0 then (result, sig, 0, ts\<lparr>ts_rng := r, ts_stats := g\<rparr>)
                    else (0, sig, 3680, ts\<lparr>ts_rng := r, ts_stats := g\<rparr>)))"
      unfolding crypto_sign_signature_def Let_def rnd ctx
      unfolding pk prod.case r_base_def [symmetric]
      unfolding sz
      using ok by (simp add: slh_dsa_random_source_failed_def)
    show thesis
    proof (rule forsc_grind_cases [OF M, of hb ?pk m r_base], goal_cases)
      case (1 k)
      obtain mhash tree idx where hm: "hash_message hb (forsc_tweak r_base k) ?pk m = (mhash, tree, idx)"
        by (metis prod_cases3)
      let ?F = "fors_sig hb ?ctx (sign_addr tree idx) (message_to_indices mhash)"
      let ?sig = "put_bytes 0 (forsc_tweak r_base k) sig"
      have fs: "fors_sign hb rt (get_bytes 16 1904 ?sig) mhash ?ctx (sign_addr tree idx) = (?F, fors_pk hb ?ctx (sign_addr tree idx))"
        using lr [of k] sig by (intro seeded.fors_sign_correct [OF sd sign_addr_ok(1) rt]) simp
      obtain result sig' root g where ht: "hypertree_sign cfg hb ?ctx 5 0 (put_bytes 16 ?F ?sig) 1920
          (fors_pk hb ?ctx (sign_addr tree idx)) (sign_addr tree idx) (set_type zero_addr SPX_ADDR_TYPE_HASHTREE) tree idx
          (bitcoin_pqc_sign_stats_record_forsc_attempts (k + 1) (ts_stats ts)) = (result, sig', root, g)"
        by (metis prod_cases4)
      show thesis
        using 1(5) fs ht hm unfolding forsc_tweak_0
        by (intro salt [OF ok 1(2,3) 1(4) hm ht]) (simp_all add: run)
    next
      case 2
      show thesis
        using 2(2) unfolding forsc_tweak_0 by (intro no_salt [OF ok lr 2(1)]) (simp_all add: run)
    qed
  qed
qed

text \<open>The hypertree loop of such a run.\<close>

lemma signed_hypertree:
  assumes "length sk = 64" "length sig = 3680" "hash_message hb (forsc_tweak r_base k) (drop 32 sk) m = (mhash, tree, idx)"
    and "length r_base = 16"
    and "hypertree_sign cfg hb (key_ctx hb sk) 5 0
      (put_bytes 16 (fors_sig hb (key_ctx hb sk) (sign_addr tree idx) (message_to_indices mhash))
        (put_bytes 0 (forsc_tweak r_base k) sig)) 1920 (fors_pk hb (key_ctx hb sk) (sign_addr tree idx))
      (sign_addr tree idx) (set_type zero_addr SPX_ADDR_TYPE_HASHTREE) tree idx
      (bitcoin_pqc_sign_stats_record_forsc_attempts a g) = (result, sig', root, g')"
  shows "length sig' = 3680" "result \<in> {0, BITCOINPQC_SIGN_LIMIT_EXCEEDED}"
    "result = 0 \<longleftrightarrow> (\<forall>r\<in>set (signed_roots hb (key_ctx hb sk) 5 0 (fors_pk hb (key_ctx hb sk) (sign_addr tree idx)) tree).
       \<exists>c\<le>wotsc_limit cfg g. wotsc_good hb r c)"
proof -
  have sd: "seeded hb (key_ctx hb sk)" by (rule seeded_key_ctx [OF assms(1)])
  let ?sig = "put_bytes 16 (fors_sig hb (key_ctx hb sk) (sign_addr tree idx) (message_to_indices mhash))
    (put_bytes 0 (forsc_tweak r_base k) sig)"
  have l: "length ?sig = 3680" using assms(2,4) seeded.length_fors_sig [OF sd] by simp
  have "unat idx < 2 ^ 6" using hash_message_bounds [OF assms(3)] by simp
  moreover have "1920 + 352 * 5 \<le> length ?sig" using l by simp
  moreover have "wotsc_limit cfg (bitcoin_pqc_sign_stats_record_forsc_attempts a g) = wotsc_limit cfg g"
    by (simp add: wotsc_limit_def)
  ultimately show "length sig' = 3680" "result \<in> {0, BITCOINPQC_SIGN_LIMIT_EXCEEDED}"
    "result = 0 \<longleftrightarrow> (\<forall>r\<in>set (signed_roots hb (key_ctx hb sk) 5 0 (fors_pk hb (key_ctx hb sk) (sign_addr tree idx)) tree).
       \<exists>c\<le>wotsc_limit cfg g. wotsc_good hb r c)"
    using seeded.hypertree_sign_result [OF sd sign_addr_ok(2,3) _ _ assms(5)] l by metis+
qed

text \<open>What a successful signing run produced.\<close>

lemma crypto_sign_signature_parts:
  assumes "length sk = 64" "valid_config cfg" "joins_all rt" "length sig = 3680"
    and "crypto_sign_signature cfg hb rt sig m sk ts = (0, sig', siglen, ts')"
  obtains R mhash tree idx S where "siglen = 3680" "length R = 16" "length S = 1760"
    "hash_message hb R (drop 32 sk) m = (mhash, tree, idx)" "forsc_compressed_index mhash = 0"
    "sig' = R @ fors_sig hb (key_ctx hb sk) (sign_addr tree idx) (message_to_indices mhash) @ S"
    "\<And>w t p rest. wots_addr_ok w \<Longrightarrow> tree_addr_ok t \<Longrightarrow> pk_addr_ok p \<Longrightarrow>
      hypertree_verify cfg hb (key_ctx hb sk) 5 0 (S @ rest) (fors_pk hb (key_ctx hb sk) (sign_addr tree idx))
        w t p tree idx None = (Inr (key_root hb sk), None)"
proof -
  let ?ctx = "key_ctx hb sk"
  have sd: "seeded hb ?ctx" by (rule seeded_key_ctx [OF assms(1)])
  obtain optrand r where rnd: "randombytes (Some (replicate SPX_N 0)) SPX_N (slh_dsa_random_source_clear_failure (ts_rng ts))
      = (optrand, r)" by fastforce
  define r_base where "r_base = gen_message_random hb (drop 16 sk) (the optrand) m"
  have lr: "length (forsc_tweak r_base k) = 16" for k by (simp add: r_base_def length_gen_message_random)
  show thesis
  proof (rule crypto_sign_signature_cases [OF assms(1-4) rnd, of m, folded r_base_def], goal_cases failed no_salt salt)
    case (salt k mhash tree idx result sig3 root g)
    let ?F = "fors_sig hb ?ctx (sign_addr tree idx) (message_to_indices mhash)"
    let ?sig = "put_bytes 16 ?F (put_bytes 0 (forsc_tweak r_base k) sig)"
    have lF: "length ?F = 1904" by (rule seeded.length_fors_sig [OF sd])
    have l: "length ?sig = 3680" using lF lr assms(4) by simp
    have res: "result = 0" "sig3 = sig'" "siglen = 3680" using salt(7) assms(5) by (auto split: if_splits)
    have b: "unat idx < 2 ^ 6" "unat tree < 2 ^ 24" using hash_message_bounds [OF salt(5)] by simp_all
    from seeded.hypertree_roundtrip [OF sd sign_addr_ok(2,3) b(1) assms(2) _ salt(6) [unfolded res]]
    obtain S where S: "length S = 1760" "sig' = put_bytes 1920 S ?sig"
      and ver: "\<And>w t p rest. wots_addr_ok w \<Longrightarrow> tree_addr_ok t \<Longrightarrow> pk_addr_ok p \<Longrightarrow>
        hypertree_verify cfg hb ?ctx 5 0 (S @ rest) (fors_pk hb ?ctx (sign_addr tree idx)) w t p tree idx None = (Inr root, None)"
      and top: "root = layer_root hb ?ctx 4 (drop_bit 24 tree)"
      using l by auto
    have "drop_bit 24 tree = 0" using b(2) by (intro word_eq_unatI) (simp add: unat_drop_bit)
    then have "root = key_root hb sk" by (simp add: top key_root_def)
    moreover have "sig' = forsc_tweak r_base k @ ?F @ S"
      using S lr [of k] lF assms(4) by (simp add: put_bytes_def)
    moreover have "forsc_compressed_index mhash = 0" using salt(3,5) by (simp add: forsc_good_def)
    ultimately show thesis using that [OF res(3) lr S(1) salt(5)] ver by simp
  qed (use assms(5) in auto)
qed

text \<open>A signature made with a consistent key verifies under the public half of the key, also when the signer
  ran with a statistics session and its tighter WOTS+C limit.\<close>

theorem sign_verify:
  assumes "consistent_sk hb sk" "valid_config cfg" "joins_all rt" "length sig = 3680"
    and "crypto_sign_signature cfg hb rt sig m sk ts = (0, sig', siglen, ts')"
  shows "siglen = 3680 \<and> length sig' = 3680 \<and> crypto_sign_verify cfg hb sig' siglen m (drop 32 sk) None = (0, None)"
proof -
  let ?ctx = "key_ctx hb sk"
  have sk: "length sk = 64" and root: "drop 48 sk = key_root hb sk"
    using assms(1) by (simp_all add: consistent_sk_def)
  have sd: "seeded hb ?ctx" by (rule seeded_key_ctx [OF sk])
  obtain R mhash tree idx S where "siglen = 3680" and lR: "length R = 16" and lS: "length S = 1760"
    and hm: "hash_message hb R (drop 32 sk) m = (mhash, tree, idx)" and c0: "forsc_compressed_index mhash = 0"
    and sig': "sig' = R @ fors_sig hb ?ctx (set_keypair_addr (set_tree_addr (set_type zero_addr SPX_ADDR_TYPE_WOTS) tree) idx)
        (message_to_indices mhash) @ S"
    and ver: "\<And>w t p rest. wots_addr_ok w \<Longrightarrow> tree_addr_ok t \<Longrightarrow> pk_addr_ok p \<Longrightarrow>
      hypertree_verify cfg hb ?ctx 5 0 (S @ rest)
        (fors_pk hb ?ctx (set_keypair_addr (set_tree_addr (set_type zero_addr SPX_ADDR_TYPE_WOTS) tree) idx))
        w t p tree idx None = (Inr (key_root hb sk), None)"
    using crypto_sign_signature_parts [OF sk assms(2-5)] by metis
  let ?w = "set_keypair_addr (set_tree_addr (set_type zero_addr SPX_ADDR_TYPE_WOTS) tree) idx"
  let ?F = "fors_sig hb ?ctx ?w (message_to_indices mhash)"
  have w: "valid_addr ?w" "wots_addr_ok ?w" "tree_addr_ok (set_type zero_addr SPX_ADDR_TYPE_HASHTREE)"
    "pk_addr_ok (set_type zero_addr SPX_ADDR_TYPE_WOTSPK)"
    by (auto simp: agree_except_def addr_nth addr_len)
  have lF: "length ?F = 1904" by (rule seeded.length_fors_sig [OF sd])
  define c where "c = initialize_hash_function hb \<lparr>pub_seed = take SPX_N (drop 32 sk), sk_seed = [], state_seeded = []\<rparr>"
  have c: "state_seeded c = state_seeded ?ctx"
    unfolding c_def key_ctx_def by (rule state_seeded_init) simp
  have sz: "SPX_FORS_BYTES = 1904" "SPX_D = 5" "SPX_BYTES = 3680" by simp_all
  have hm': "hash_message hb sig' (drop 32 sk) m = (mhash, tree, idx)"
    unfolding sig' using hash_message_prefix [OF lR] hm by simp
  have d: "drop SPX_N sig' = ?F @ S" unfolding sig' using lR by simp
  have d': "drop 1904 (?F @ S) = S @ []" using lF by simp
  have f: "fors_pk_from_sig hb (?F @ S) mhash c ?w = fors_pk hb ?ctx ?w"
    using seeded.fors_pk_from_sig_correct [OF sd w(1)] fors_pk_from_sig_cong [OF c] by simp
  have v: "hypertree_verify cfg hb c 5 0 (S @ []) (fors_pk hb ?ctx ?w) ?w (set_type zero_addr SPX_ADDR_TYPE_HASHTREE)
      (set_type zero_addr SPX_ADDR_TYPE_WOTSPK) tree idx None = (Inr (key_root hb sk), None)"
    using ver [OF w(2-4)] hypertree_verify_cong [OF c] by metis
  have "crypto_sign_verify cfg hb sig' 3680 m (drop 32 sk) None = (0, None)"
    unfolding crypto_sign_verify_def Let_def c_def [symmetric] hm' prod.case d sz f d' v sum.case
    using c0 root length_key_root [OF sk] by simp
  then show ?thesis using \<open>siglen = 3680\<close> sig' lR lF lS by simp
qed

text \<open>The error codes of signing, and what it leaves of the buffer.\<close>

theorem crypto_sign_signature_result:
  assumes "length sk = 64" "valid_config cfg" "joins_all rt" "length sig = 3680"
    and "crypto_sign_signature cfg hb rt sig m sk ts = (res, sig', siglen, ts')"
  shows "length sig' = 3680 \<and> siglen = (if res = 0 then 3680 else 0) \<and>
    res \<in> {0, BITCOINPQC_SIGN_LIMIT_EXCEEDED} \<union> (if g_random_source_failed (ts_rng ts') then {-1} else {})"
proof -
  have sd: "seeded hb (key_ctx hb sk)" by (rule seeded_key_ctx [OF assms(1)])
  obtain optrand r where rnd: "randombytes (Some (replicate SPX_N 0)) SPX_N (slh_dsa_random_source_clear_failure (ts_rng ts))
      = (optrand, r)" by fastforce
  show ?thesis
  proof (rule crypto_sign_signature_cases [OF assms(1-4) rnd, of m], goal_cases failed no_salt salt)
    case (salt k mhash tree idx result sig3 root g)
    note ht = signed_hypertree [OF assms(1,4) salt(5) _ salt(6)]
    have "length sig3 = 3680 \<and> result \<in> {0, BITCOINPQC_SIGN_LIMIT_EXCEEDED}"
      using ht [OF length_gen_message_random] by blast
    then show ?thesis using salt(7) assms(5) by auto
  qed (use assms(4,5) in auto)
qed

theorem crypto_sign_signature_succeeds:
  assumes "length sk = 64" "valid_config cfg" "joins_all rt" "length sig = 3680"
    and "rng_ok (ts_rng ts)" "g_random_data (ts_rng ts) = Some d" "d \<noteq> []"
  shows "fst (crypto_sign_signature cfg hb rt sig m sk ts) =
    (if sign_searches_succeed cfg hb (gen_message_random hb (drop 16 sk) (cyclic d (g_random_data_offset (ts_rng ts)) 16) m)
          m sk (ts_stats ts)
     then 0 else BITCOINPQC_SIGN_LIMIT_EXCEEDED)"
proof -
  let ?c = "slh_dsa_random_source_clear_failure (ts_rng ts)"
  define opt where "opt = cyclic d (g_random_data_offset (ts_rng ts)) 16"
  have rnd: "randombytes (Some (replicate SPX_N 0)) SPX_N ?c =
      (Some opt, ?c\<lparr>g_random_data_offset := (g_random_data_offset (ts_rng ts) + 16) mod length d\<rparr>)"
    using randombytes_cyclic [of ?c d "replicate SPX_N 0" SPX_N] assms(5-7)
    by (simp add: slh_dsa_random_source_clear_failure_def rng_ok_def opt_def)
  define rb where "rb = gen_message_random hb (drop 16 sk) opt m"
  have "fst (crypto_sign_signature cfg hb rt sig m sk ts) =
      (if sign_searches_succeed cfg hb rb m sk (ts_stats ts) then 0 else BITCOINPQC_SIGN_LIMIT_EXCEEDED)"
  proof (rule crypto_sign_signature_cases [OF assms(1-4) rnd, of m, unfolded option.sel, folded rb_def], goal_cases failed no_salt salt)
    case (salt k mhash tree idx result sig3 root g)
    have lr: "length rb = 16" by (simp add: rb_def length_gen_message_random)
    have "result \<in> {0, BITCOINPQC_SIGN_LIMIT_EXCEEDED} \<and> (result = 0 \<longleftrightarrow>
        (\<forall>r\<in>set (signed_roots hb (key_ctx hb sk) 5 0 (fors_pk hb (key_ctx hb sk) (sign_addr tree idx)) tree).
          \<exists>c\<le>wotsc_limit cfg (ts_stats ts). wotsc_good hb r c))"
      using signed_hypertree [OF assms(1,4) salt(5) lr salt(6)] by blast
    moreover have "sign_searches_succeed cfg hb rb m sk (ts_stats ts) \<longleftrightarrow>
        (\<forall>r\<in>set (signed_roots hb (key_ctx hb sk) 5 0 (fors_pk hb (key_ctx hb sk) (sign_addr tree idx)) tree).
          \<exists>c\<le>wotsc_limit cfg (ts_stats ts). wotsc_good hb r c)"
    proof -
      have "sign_searches_succeed cfg hb rb m sk (ts_stats ts) \<longleftrightarrow>
          (case hash_message hb (forsc_tweak rb k) (drop 32 sk) m of (mhash, tree, idx) \<Rightarrow>
            \<forall>root\<in>set (signed_roots hb (key_ctx hb sk) 5 0 (fors_pk hb (key_ctx hb sk) (sign_addr tree idx)) tree).
              \<exists>c\<le>wotsc_limit cfg (ts_stats ts). wotsc_good hb root c)"
        unfolding sign_searches_succeed_def by (rule ex_first_iff [where P = "forsc_good hb (drop 32 sk) m rb", OF salt(2,3,4)])
      then show ?thesis by (simp only: salt(5) prod.case)
    qed
    ultimately show ?thesis using salt(7) by auto
  next
    case failed
    then show ?thesis by (simp add: slh_dsa_random_source_clear_failure_def)
  next
    case (no_salt R)
    then show ?thesis by (auto simp: sign_searches_succeed_def)
  qed
  then show ?thesis by (simp add: rb_def opt_def)
qed

text \<open>The statistics of a signing run that started a session: on success all five layers are recorded and no
  limit is flagged; a run that hit a limit is flagged with it.\<close>

theorem crypto_sign_signature_stats:
  assumes "length sk = 64" "valid_config cfg" "joins_all rt" "length sig = 3680"
    and "ts_stats ts = bitcoin_pqc_sign_stats_begin cfg (Some s0)"
    and "crypto_sign_signature cfg hb rt sig m sk ts = (res, sig', siglen, ts')"
  shows "\<exists>s ws. ts_stats ts' = Some s \<and> stats_inv cfg ws s \<and> attempts_ok cfg ws \<and>
    unat (forsc_attempts s) \<le> unat (FORSC_MAX_GRIND_ATTEMPTS cfg) \<and>
    (res = 0 \<longrightarrow> length ws = 5 \<and> cap_exceeded s = 0 \<and> 1 \<le> unat (forsc_attempts s)) \<and>
    (res = BITCOINPQC_SIGN_LIMIT_EXCEEDED \<longrightarrow> cap_exceeded s \<in> {1, 2})"
proof -
  have sd: "seeded hb (key_ctx hb sk)" by (rule seeded_key_ctx [OF assms(1)])
  obtain optrand r where rnd: "randombytes (Some (replicate SPX_N 0)) SPX_N (slh_dsa_random_source_clear_failure (ts_rng ts))
      = (optrand, r)" by fastforce
  obtain b where b: "ts_stats ts = Some b" "stats_inv cfg [] b" "cap_exceeded b = 0" "forsc_attempts b = 0"
    using stats_inv_begin [of cfg s0] assms(5) by auto
  show ?thesis
  proof (rule crypto_sign_signature_cases [OF assms(1-4) rnd, of m], goal_cases failed no_salt salt)
    case failed
    then have "res = -1" "ts_stats ts' = Some b" using assms(6) b(1) by auto
    then show ?case
      using b by (intro exI [of _ b] exI [of _ "[]"]) (simp add: attempts_ok_def)
  next
    case (no_salt R)
    let ?M = "FORSC_MAX_GRIND_ATTEMPTS cfg"
    obtain c where c: "bitcoin_pqc_sign_stats_record_forsc_attempts ?M (Some b) = Some c" "stats_inv cfg [] c"
      "cap_exceeded c = 0" "forsc_attempts c = ?M"
      using stats_inv_forsc [OF b(2), of ?M] b(3) by auto
    obtain d where "bitcoin_pqc_sign_stats_record_forsc_cap (Some c) = Some d" "stats_inv cfg [] d"
      "cap_exceeded d = 1" "forsc_attempts d = ?M"
      using stats_inv_forsc_cap [OF c(2)] c(3,4) by auto
    then show ?case
      using no_salt(4) assms(6) b(1) c(1) by (intro exI [of _ d] exI [of _ "[]"]) (auto simp: attempts_ok_def)
  next
    case (salt k mhash tree idx result sig3 root g)
    have k: "unat (k + 1) = Suc (unat k)" "Suc (unat k) \<le> unat (FORSC_MAX_GRIND_ATTEMPTS cfg)"
      using unat_plus_one [OF salt(2)] salt(2) by (simp_all add: word_less_nat_alt)
    obtain c where c: "bitcoin_pqc_sign_stats_record_forsc_attempts (k + 1) (Some b) = Some c" "stats_inv cfg [] c"
      "cap_exceeded c = 0" "forsc_attempts c = k + 1"
      using stats_inv_forsc [OF b(2), of "k + 1"] b(3) by auto
    have "idx \<noteq> SPX_NO_SIGN_LEAF"
      using hash_message_bounds [OF salt(5)]
      by (auto simp: SPX_NO_SIGN_LEAF_def unsigned_minus_1_eq_mask mask_eq_exp_minus_1)
    from hypertree_sign_stats [OF this assms(2) c(2) _ salt(6) [unfolded b(1) c(1)]]
    obtain ws s where "g = Some s" "stats_inv cfg ws s" "attempts_ok cfg ws" "forsc_attempts s = k + 1"
      "if result = 0 then length ws = 5 \<and> cap_exceeded s = 0 else cap_exceeded s = 2"
      using c(3,4) by auto
    then show ?case
      using salt(7) assms(6) k by (intro exI [of _ s] exI [of _ ws]) (auto split: if_splits)
  qed
qed

text \<open>Attached signatures: what \<open>crypto_sign\<close> writes, \<open>crypto_sign_open\<close> accepts and returns the message of.\<close>

theorem crypto_sign_open_roundtrip:
  assumes "consistent_sk hb sk" "valid_config cfg" "joins_all rt" "length sm = 3680 + length m" "length m \<le> length buf"
    and "crypto_sign cfg hb rt sm m sk ts = (0, sm', smlen, ts')"
  shows "smlen = 3680 + length m \<and> crypto_sign_open cfg hb buf sm' smlen (drop 32 sk) None =
    (0, put_bytes 0 m buf, length m, None)"
proof -
  obtain res s l t where run: "crypto_sign_signature cfg hb rt (take 3680 sm) m sk ts = (res, s, l, t)"
    by (metis prod_cases4)
  have r: "res = 0" "sm' = put_bytes 3680 m (put_bytes 0 s sm)" "smlen = l + length m"
    using assms(6) run by (auto simp: crypto_sign_def Let_def split: if_splits)
  have "length (take 3680 sm) = 3680" using assms(4) by simp
  from sign_verify [OF assms(1-3) this run [unfolded r(1)]]
  have v: "l = 3680" "length s = 3680" "crypto_sign_verify cfg hb s 3680 m (drop 32 sk) None = (0, None)" by auto
  have "sm' = s @ m" using assms(4) v(2) by (simp add: r(2) put_bytes_def)
  then show ?thesis using v r(3) by (simp add: crypto_sign_open_def get_bytes_def)
qed

text \<open>On failure \<open>crypto_sign\<close> reports length zero and leaves no part of the signature behind.\<close>

theorem crypto_sign_failure:
  assumes "length sk = 64" "valid_config cfg" "joins_all rt" "3680 \<le> length sm"
    and "crypto_sign cfg hb rt sm m sk ts = (res, sm', smlen, ts')" "res \<noteq> 0"
  shows "smlen = 0 \<and> sm' = put_bytes 0 (replicate 3680 0) sm"
proof -
  obtain res' s l t where run: "crypto_sign_signature cfg hb rt (take 3680 sm) m sk ts = (res', s, l, t)"
    by (metis prod_cases4)
  have "length (take 3680 sm) = 3680" using assms(4) by simp
  from crypto_sign_signature_result [OF assms(1-3) this run] have "length s = 3680" by simp
  then show ?thesis using assms(4-6) run by (auto simp: crypto_sign_def Let_def split: if_splits)
qed

end

end
