(* ===== verification/C_Heap.thy ===== *)
theory C_Heap
  imports Prelude
begin

text \<open>
  The C heap: a partial map from addresses to blocks, together with
  the log of the blocks that were freed and what they held then, so that the wiping of secrets and the
  ownership rules of \<open>bitcoinpqc.h\<close> can be stated.  The allocator is a parameter: \<open>malloc\<close> may fail, and
  what it returns has unspecified contents.  A null pointer is \<open>None\<close>.
\<close>

section \<open>Blocks\<close>

type_synonym addr = nat

record heap =
  hp :: "addr \<rightharpoonup> bytes"
  freed :: "(addr \<times> bytes) list"

text \<open>An allocator maps a heap and a size to a block and its initial contents, or fails.\<close>

type_synonym allocator = "heap \<Rightarrow> nat \<Rightarrow> (addr \<times> bytes) option"

definition good_malloc :: "allocator \<Rightarrow> bool" where
  "good_malloc al \<longleftrightarrow> (\<forall>h n a b. al h n = Some (a, b) \<longrightarrow> a \<notin> dom (hp h) \<and> length b = n)"

definition malloc :: "allocator \<Rightarrow> nat \<Rightarrow> heap \<Rightarrow> addr option \<times> heap" where
  "malloc al n h = (case al h n of None \<Rightarrow> (None, h) | Some (a, b) \<Rightarrow> (Some a, h\<lparr>hp := (hp h)(a \<mapsto> b)\<rparr>))"

definition free :: "addr option \<Rightarrow> heap \<Rightarrow> heap" where
  "free p h = (case p of None \<Rightarrow> h
     | Some a \<Rightarrow> h\<lparr>hp := (hp h)(a := None), freed := (a, the (hp h a)) # freed h\<rparr>)"

definition bitcoin_pqc_secure_zero :: "addr option \<Rightarrow> nat \<Rightarrow> heap \<Rightarrow> heap" where
  "bitcoin_pqc_secure_zero p len h = (case p of None \<Rightarrow> h
     | Some a \<Rightarrow> if len = 0 then h
         else h\<lparr>hp := (hp h)(a := map_option (put_bytes 0 (replicate len 0)) (hp h a))\<rparr>)"

text \<open>Writing bytes at an offset of a block (\<open>memcpy\<close> and assignments through the pointer).\<close>

definition heap_write :: "addr option \<Rightarrow> nat \<Rightarrow> bytes \<Rightarrow> heap \<Rightarrow> heap" where
  "heap_write p off bs h = (case p of None \<Rightarrow> h
     | Some a \<Rightarrow> h\<lparr>hp := (hp h)(a := map_option (put_bytes off bs) (hp h a))\<rparr>)"

lemma heap_write_simps [simp]:
  "freed (heap_write p off bs h) = freed h"
  "hp (heap_write (Some a) off bs h) = (hp h)(a := map_option (put_bytes off bs) (hp h a))"
  by (simp_all add: heap_write_def split: option.split)

section \<open>Wiping before release\<close>

text \<open>\<open>wiped_since h h'\<close>: between the two heaps only all-zero blocks were released.\<close>

definition wiped_since :: "heap \<Rightarrow> heap \<Rightarrow> bool" where
  "wiped_since h h' \<longleftrightarrow> (\<exists>new. freed h' = new @ freed h \<and> (\<forall>(a, b)\<in>set new. b = replicate (length b) 0))"

lemma wiped_since_refl [simp]: "wiped_since h h"
  by (simp add: wiped_since_def)

lemma wiped_since_same: "freed h' = freed h \<Longrightarrow> wiped_since h h'"
  by (simp add: wiped_since_def)

lemma wiped_since_trans:
  assumes "wiped_since h h1" "wiped_since h1 h2"
  shows "wiped_since h h2"
proof -
  obtain n1 n2 where "freed h1 = n1 @ freed h" "\<forall>(a, b)\<in>set n1. b = replicate (length b) 0"
    "freed h2 = n2 @ freed h1" "\<forall>(a, b)\<in>set n2. b = replicate (length b) 0"
    using assms unfolding wiped_since_def by blast
  then show ?thesis unfolding wiped_since_def by (intro exI [of _ "n2 @ n1"]) auto
qed

text \<open>Wiping a block of the given size and freeing it.\<close>

lemma wipe_free:
  assumes "hp h a = Some b" "length b = n"
  shows "hp (free (Some a) (bitcoin_pqc_secure_zero (Some a) n h)) = (hp h)(a := None)"
    "wiped_since h (free (Some a) (bitcoin_pqc_secure_zero (Some a) n h))"
  using assms by (auto simp: free_def bitcoin_pqc_secure_zero_def wiped_since_def)

lemma wipe_free_freed:
  assumes "hp h a = Some b" "length b = n"
  shows "freed (free (Some a) (bitcoin_pqc_secure_zero (Some a) n h)) = (a, replicate n 0) # freed h"
  using assms by (auto simp: free_def bitcoin_pqc_secure_zero_def put_bytes_def)

section \<open>Fresh blocks\<close>

text \<open>What a correct allocator gives: nothing, or one block of the size asked for at an unused address.\<close>

lemma malloc_spec:
  assumes "good_malloc al" "malloc al n h = (p, h')"
  shows "freed h' = freed h" "p = None \<longleftrightarrow> al h n = None" "p = None \<Longrightarrow> h' = h"
    "p = Some a \<Longrightarrow> a \<notin> dom (hp h) \<and> (\<exists>b. length b = n \<and> hp h' = (hp h)(a \<mapsto> b))"
proof -
  have "a \<notin> dom (hp h) \<and> length b = n" if "al h n = Some (a, b)" for a b
    using that assms(1) unfolding good_malloc_def by blast
  then show "freed h' = freed h" "p = None \<longleftrightarrow> al h n = None" "p = None \<Longrightarrow> h' = h"
    "p = Some a \<Longrightarrow> a \<notin> dom (hp h) \<and> (\<exists>b. length b = n \<and> hp h' = (hp h)(a \<mapsto> b))"
    using assms(2) by (auto simp: malloc_def split: option.splits)
qed

end
