(* ===== verification/Slh_Dsa.thy ===== *)
theory Slh_Dsa
  imports Spx_Sign C_Heap
begin

text \<open>
  The SLH-DSA entry points of \<open>src/slh_dsa/\<close>: \<open>keygen.c\<close>, \<open>validate.c\<close>, \<open>sign.c\<close> and \<open>verify.c\<close>.
  Pointers that may be null are options; a message pointer comes with its length; key generation takes the
  allocator and the heap its derivation buffer lives in.  Overwriting local secrets and the released
  stack before returning has no effect on these values and is not represented; wiping of output
  buffers is.  \<open>hb\<close> and \<open>hb512\<close> are the dispatched SHA-256 and SHA-512 block functions.
\<close>

definition SLH_DSA_SIGN_ERROR_BAD_KEY :: int where
  [simp]: "SLH_DSA_SIGN_ERROR_BAD_KEY = -101"

definition SLH_DSA_KEYGEN_ERROR_OUT_OF_MEMORY :: int where
  [simp]: "SLH_DSA_KEYGEN_ERROR_OUT_OF_MEMORY = -102"

text \<open>\<open>SIZE_MAX\<close> of a 64-bit target.\<close>

definition SIZE_MAX :: nat where
  "SIZE_MAX = 2 ^ 64 - 1"

section \<open>Key generation\<close>

definition KEYGEN_DERIVE_DOMAIN :: bytes where
  "KEYGEN_DERIVE_DOMAIN = map of_char ''libbitcoinpqc-qbit/slh-dsa-sha2-128s-bounded30/keygen/v1''"

text \<open>The result is an error code or the seed, and the heap, in which the derivation buffer lived from its
  \<open>malloc\<close> to its \<open>free\<close>.\<close>

definition derive_keygen_seed_v1 :: "hashblocks512_fn \<Rightarrow> allocator \<Rightarrow> bytes \<Rightarrow> nat \<Rightarrow> heap \<Rightarrow> (int + bytes) \<times> heap" where
  "derive_keygen_seed_v1 hb512 al random_data random_data_size h =
     (let domain_size = length KEYGEN_DERIVE_DOMAIN;
          metadata_size = domain_size + 1 + 8
      in if random_data_size > SIZE_MAX - metadata_size then (Inl (-1), h)
         else
           (let input_size = metadata_size + random_data_size;
                (input, h) = malloc al input_size h
            in if input = None then (Inl SLH_DSA_KEYGEN_ERROR_OUT_OF_MEMORY, h)
               else
                 (let h = heap_write input 0 KEYGEN_DERIVE_DOMAIN h;
                      h = heap_write input domain_size [0] h;
                      h = heap_write input (domain_size + 1) (store_u64_le (of_nat random_data_size)) h;
                      h = heap_write input metadata_size (take random_data_size random_data) h;
                      digest = sha512 hb512 (take input_size (the (hp h (the input))));
                      seed = take CRYPTO_SEEDBYTES digest;
                      h = bitcoin_pqc_secure_zero input input_size h;
                      h = free input h
                  in (Inr seed, h))))"

definition slh_dsa_keygen_impl :: "build_config \<Rightarrow> hashblocks_fn \<Rightarrow> hashblocks512_fn \<Rightarrow> allocator \<Rightarrow> bytes option
    \<Rightarrow> bytes option \<Rightarrow> bytes option \<Rightarrow> nat \<Rightarrow> tls \<Rightarrow> heap \<Rightarrow> int \<times> bytes option \<times> bytes option \<times> tls \<times> heap" where
  "slh_dsa_keygen_impl cfg hb hb512 al pk sk random_data random_data_size ts h =
     (if pk = None \<or> sk = None \<or> random_data = None \<or> random_data_size < SLH_DSA_KEYGEN_RANDOM_DATA_MIN_SIZE
      then (-1, pk, sk, ts, h)
      else
        (let (derived, h) = derive_keygen_seed_v1 hb512 al (the random_data) random_data_size h
         in case derived of
              Inl code \<Rightarrow> (code, pk, sk, ts, h)
            | Inr seed \<Rightarrow>
                (let (result, pk, sk, ts) = crypto_sign_seed_keypair cfg hb (the pk) (the sk) seed ts
                 in (result, Some pk, Some sk, ts, h))))"

definition slh_dsa_keygen :: "build_config \<Rightarrow> hashblocks_fn \<Rightarrow> hashblocks512_fn \<Rightarrow> allocator \<Rightarrow> bytes option
    \<Rightarrow> bytes option \<Rightarrow> bytes option \<Rightarrow> nat \<Rightarrow> tls \<Rightarrow> heap \<Rightarrow> int \<times> bytes option \<times> bytes option \<times> tls \<times> heap" where
  "slh_dsa_keygen cfg hb hb512 al pk sk random_data random_data_size ts h =
     slh_dsa_keygen_impl cfg hb hb512 al pk sk random_data random_data_size ts h"

section \<open>Secret key validation\<close>

definition bytes_equal :: "bytes \<Rightarrow> bytes \<Rightarrow> nat \<Rightarrow> bool" where
  "bytes_equal lhs rhs len = (foldl (\<lambda>diff i. diff OR (lhs ! i XOR rhs ! i)) 0 [0..<len] = 0)"

definition slh_dsa_secret_key_validate_unburned :: "build_config \<Rightarrow> hashblocks_fn \<Rightarrow> bytes option \<Rightarrow> nat \<Rightarrow> tls \<Rightarrow> int \<times> tls" where
  "slh_dsa_secret_key_validate_unburned cfg hb sk sk_size ts =
     (if sk = None \<or> sk_size \<noteq> SLH_DSA_SECRET_KEY_SIZE then (-1, ts)
      else
        (let k = the sk;
             ctx = \<lparr>pub_seed = get_bytes (2 * SPX_N) SPX_N k, sk_seed = take SPX_N k, state_seeded = replicate 40 0\<rparr>;
             ctx = initialize_hash_function hb ctx;
             (res, root, g) = merkle_gen_root cfg hb (replicate SPX_N 0) ctx (ts_stats ts);
             ts = ts\<lparr>ts_stats := g\<rparr>
         in if res \<noteq> 0 then (-1, ts)
            else if bytes_equal root (drop (3 * SPX_N) k) SPX_N then (0, ts) else (-1, ts)))"

definition slh_dsa_secret_key_validate :: "build_config \<Rightarrow> hashblocks_fn \<Rightarrow> bytes option \<Rightarrow> nat \<Rightarrow> tls \<Rightarrow> int \<times> tls" where
  "slh_dsa_secret_key_validate cfg hb sk sk_size ts = slh_dsa_secret_key_validate_unburned cfg hb sk sk_size ts"

section \<open>Signing\<close>

text \<open>The result: the code, the buffer behind \<open>sig\<close>, the value behind \<open>siglen\<close>, the record behind \<open>stats\<close>
  and the thread-local state.\<close>

definition slh_dsa_sign_with_stats_impl :: "build_config \<Rightarrow> hashblocks_fn \<Rightarrow> fors_threads \<Rightarrow> bytes option \<Rightarrow> nat option
    \<Rightarrow> bytes option \<Rightarrow> nat \<Rightarrow> bytes option \<Rightarrow> stats_ptr \<Rightarrow> tls
    \<Rightarrow> int \<times> bytes option \<times> nat option \<times> stats_ptr \<times> tls" where
  "slh_dsa_sign_with_stats_impl cfg hb rt sig siglen m mlen sk stats ts =
     (if sig = None \<or> siglen = None \<or> (m = None \<and> mlen \<noteq> 0) \<or> sk = None
      then (-1, map_option (put_bytes 0 (replicate CRYPTO_BYTES 0)) sig, map_option (\<lambda>_. 0) siglen, stats, ts)
      else
        (let buf = the sig;
             zeroed = Some (put_bytes 0 (replicate CRYPTO_BYTES 0) buf);
             (valid, ts) = slh_dsa_secret_key_validate_unburned cfg hb sk SLH_DSA_SECRET_KEY_SIZE ts
         in if valid \<noteq> 0 then (SLH_DSA_SIGN_ERROR_BAD_KEY, zeroed, Some 0, stats, ts)
            else
              (let message = (case m of Some msg \<Rightarrow> msg | None \<Rightarrow> [0]);
                   active_stats = Some (case stats of Some s \<Rightarrow> s | None \<Rightarrow> zero_stats);
                   r = slh_dsa_random_source_clear_failure (ts_rng ts);
                   (seed, r) = slh_dsa_derandomize_unburned hb (Some (replicate 64 0)) (Some message) mlen sk r
               in if slh_dsa_random_source_failed r
                  then (-1, zeroed, Some 0, stats, ts\<lparr>ts_rng := r\<rparr>)
                  else
                    (let r = slh_dsa_init_random_source seed 64 r;
                         r = slh_dsa_setup_custom_random r;
                         ts = ts\<lparr>ts_rng := r, ts_stats := bitcoin_pqc_sign_stats_begin cfg active_stats\<rparr>;
                         (result, buf, len, ts) =
                           crypto_sign_signature cfg hb rt buf (take mlen message) (the sk) ts;
                         random_source_failed = slh_dsa_random_source_failed (ts_rng ts);
                         stats = (if stats = None then None else ts_stats ts);
                         ts = ts\<lparr>ts_stats := bitcoin_pqc_sign_stats_end (ts_stats ts)\<rparr>;
                         ts = ts\<lparr>ts_rng := slh_dsa_restore_original_random (ts_rng ts)\<rparr>;
                         wiped = Some (put_bytes 0 (replicate CRYPTO_BYTES 0) buf)
                     in if random_source_failed then (-1, wiped, Some 0, stats, ts)
                        else if result \<noteq> 0 then (result, wiped, Some 0, stats, ts)
                        else (result, Some buf, Some len, stats, ts)))))"

definition slh_dsa_sign_with_stats :: "build_config \<Rightarrow> hashblocks_fn \<Rightarrow> fors_threads \<Rightarrow> bytes option \<Rightarrow> nat option
    \<Rightarrow> bytes option \<Rightarrow> nat \<Rightarrow> bytes option \<Rightarrow> stats_ptr \<Rightarrow> tls
    \<Rightarrow> int \<times> bytes option \<times> nat option \<times> stats_ptr \<times> tls" where
  "slh_dsa_sign_with_stats cfg hb rt sig siglen m mlen sk stats ts =
     slh_dsa_sign_with_stats_impl cfg hb rt sig siglen m mlen sk stats ts"

definition slh_dsa_sign :: "build_config \<Rightarrow> hashblocks_fn \<Rightarrow> fors_threads \<Rightarrow> bytes option \<Rightarrow> nat option
    \<Rightarrow> bytes option \<Rightarrow> nat \<Rightarrow> bytes option \<Rightarrow> tls \<Rightarrow> int \<times> bytes option \<times> nat option \<times> stats_ptr \<times> tls" where
  "slh_dsa_sign cfg hb rt sig siglen m mlen sk ts = slh_dsa_sign_with_stats cfg hb rt sig siglen m mlen sk None ts"

section \<open>Verification\<close>

definition slh_dsa_verify :: "build_config \<Rightarrow> hashblocks_fn \<Rightarrow> bytes option \<Rightarrow> nat \<Rightarrow> bytes option \<Rightarrow> nat \<Rightarrow> bytes option
    \<Rightarrow> stats_ptr \<Rightarrow> int \<times> stats_ptr" where
  "slh_dsa_verify cfg hb sig siglen m mlen pk g =
     (if sig = None \<or> (m = None \<and> mlen \<noteq> 0) \<or> pk = None then (-1, g)
      else (let message = (case m of Some msg \<Rightarrow> msg | None \<Rightarrow> [0])
            in crypto_sign_verify cfg hb (the sig) siglen (take mlen message) (the pk) g))"

section \<open>Seed derivation\<close>

lemma derive_keygen_seed_v1_refused:
  "n > SIZE_MAX - (length KEYGEN_DERIVE_DOMAIN + 9) \<Longrightarrow> derive_keygen_seed_v1 hb512 al rd n h = (Inl (-1), h)"
  "n \<le> SIZE_MAX - (length KEYGEN_DERIVE_DOMAIN + 9) \<Longrightarrow> al h (length KEYGEN_DERIVE_DOMAIN + 9 + n) = None \<Longrightarrow>
    derive_keygen_seed_v1 hb512 al rd n h = (Inl SLH_DSA_KEYGEN_ERROR_OUT_OF_MEMORY, h)"
  by (simp_all add: derive_keygen_seed_v1_def Let_def malloc_def add_ac eval_nat_numeral)

text \<open>On success the heap is as before, and its log holds the derivation buffer, filled with zeros.\<close>

lemma derive_keygen_seed_v1_ok:
  assumes "good_malloc al" "n \<le> SIZE_MAX - (length KEYGEN_DERIVE_DOMAIN + 9)"
    and "al h (length KEYGEN_DERIVE_DOMAIN + 9 + n) \<noteq> None"
  shows "\<exists>c h' x. derive_keygen_seed_v1 hb512 al rd n h = (Inr (take 48 (sha512 hb512 x)), h') \<and>
    (n \<le> length rd \<longrightarrow> x = KEYGEN_DERIVE_DOMAIN @ [0] @ store_u64_le (of_nat n) @ take n rd) \<and>
    c \<notin> dom (hp h) \<and> hp h' = hp h \<and> freed h' = (c, replicate (length KEYGEN_DERIVE_DOMAIN + 9 + n) 0) # freed h"
proof -
  let ?d = "length KEYGEN_DERIVE_DOMAIN" and ?c = "store_u64_le (of_nat n)"
  obtain p h1 where m: "malloc al (?d + 9 + n) h = (p, h1)" by fastforce
  note ms = malloc_spec [OF assms(1) m]
  from ms(2) assms(3) obtain c where c: "p = Some c" by auto
  obtain b where b: "c \<notin> dom (hp h)" "length b = ?d + 9 + n" "hp h1 = (hp h)(c \<mapsto> b)" using ms(4) [OF c] by blast
  define x where "x = put_bytes (?d + 9) (take n rd) (put_bytes (?d + 1) ?c (put_bytes ?d [0]
    (put_bytes 0 KEYGEN_DERIVE_DOMAIN b)))"
  have lx: "length x = ?d + 9 + n" using b(2) by (simp add: x_def)
  define h2 where "h2 = heap_write (Some c) (?d + 9) (take n rd) (heap_write (Some c) (?d + 1) ?c
    (heap_write (Some c) ?d [0] (heap_write (Some c) 0 KEYGEN_DERIVE_DOMAIN h1)))"
  have blk: "hp h2 c = Some x" using b(3) by (simp add: h2_def x_def)
  let ?h3 = "free (Some c) (bitcoin_pqc_secure_zero (Some c) (?d + 9 + n) h2)"
  have "derive_keygen_seed_v1 hb512 al rd n h = (Inr (take 48 (sha512 hb512 x)), ?h3)"
  proof -
    have e: "?d + 1 + 8 = ?d + 9" by simp
    have "take (?d + 9 + n) (the (hp h2 c)) = x" unfolding blk using lx by simp
    then show ?thesis
      using assms(2)
      unfolding derive_keygen_seed_v1_def Let_def e m prod.case c option.sel h2_def [symmetric] by simp
  qed
  moreover have "n \<le> length rd \<longrightarrow> x = KEYGEN_DERIVE_DOMAIN @ [0] @ ?c @ take n rd"
    using b(2) by (simp add: x_def put_bytes_def min_def)
  moreover have "hp ?h3 = hp h"
    using wipe_free(1) [OF blk lx] b(1,3) by (auto simp: h2_def fun_eq_iff domIff)
  moreover have "freed ?h3 = (c, replicate (?d + 9 + n) 0) # freed h"
    using wipe_free_freed [OF blk lx] ms(1) by (simp add: h2_def)
  ultimately show ?thesis using b(1) by blast
qed

section \<open>Keys\<close>

lemma or_fold_zero:
  "foldl (\<lambda>diff i. diff OR f i) d xs = 0 \<longleftrightarrow> d = 0 \<and> (\<forall>i\<in>set xs. f i = (0 :: u8))"
  by (induction xs arbitrary: d) (auto simp: or_eq_0_iff)

lemma bytes_equal_iff:
  assumes "n \<le> length a" "n \<le> length b"
  shows "bytes_equal a b n \<longleftrightarrow> take n a = take n b"
proof -
  have "bytes_equal a b n \<longleftrightarrow> (\<forall>i<n. a ! i XOR b ! i = 0)"
    by (auto simp: bytes_equal_def or_fold_zero)
  also have "\<dots> \<longleftrightarrow> (\<forall>i<n. a ! i = b ! i)"
    by (simp add: word_xor_eq_0)
  also have "\<dots> \<longleftrightarrow> take n a = take n b"
    using assms by (simp add: list_eq_iff_nth_eq)
  finally show ?thesis .
qed

lemma key_ctx_prefix: "length seed = 48 \<Longrightarrow> key_ctx hb (seed @ x) = key_ctx hb (seed @ y)"
  by (simp add: key_ctx_def)

lemma key_root_prefix: "length seed = 48 \<Longrightarrow> key_root hb (seed @ x) = key_root hb (seed @ y)"
  unfolding key_root_def by (metis key_ctx_prefix)

text \<open>The key pair a seed determines.\<close>

definition seed_sk :: "hashblocks_fn \<Rightarrow> bytes \<Rightarrow> bytes" where
  "seed_sk hb seed = seed @ key_root hb (seed @ replicate 16 0)"

context sha256_backend
begin

lemma length_seed_sk: "length seed = 48 \<Longrightarrow> length (seed_sk hb seed) = 64"
  by (simp add: seed_sk_def length_key_root)

lemma consistent_seed_sk: "length seed = 48 \<Longrightarrow> consistent_sk hb (seed_sk hb seed)"
  using length_seed_sk [of seed] key_root_prefix [of seed hb "key_root hb (seed @ replicate 16 0)" "replicate 16 0"]
  by (simp add: consistent_sk_def seed_sk_def)

lemma crypto_sign_seed_keypair_ok:
  assumes "length pk = 32" "length sk = 64" "length seed = 48"
  shows "crypto_sign_seed_keypair cfg hb pk sk seed ts = (0, drop 32 (seed_sk hb seed), seed_sk hb seed, ts)"
proof -
  let ?root = "key_root hb (seed @ replicate 16 0)"
  have lr: "length ?root = 16" using assms(3) by (simp add: length_key_root)
  have sk: "put_bytes 0 (take 48 seed) sk = seed @ drop 48 sk" using assms by (simp add: put_bytes_def)
  have "initialize_hash_function hb \<lparr>pub_seed = take 16 (put_bytes 0 (get_bytes 32 16 (seed @ drop 48 sk)) pk),
      sk_seed = take 16 (seed @ drop 48 sk), state_seeded = []\<rparr> = key_ctx hb (seed @ replicate 16 0)"
    using assms by (simp add: key_ctx_def put_bytes_def get_bytes_def)
  moreover have "merkle_gen_root cfg hb r (key_ctx hb (seed @ replicate 16 0)) g = (0, ?root, g)" for r g
    using assms(3) by (intro merkle_gen_root_key) simp
  ultimately show ?thesis
    using assms lr sk
    by (simp add: crypto_sign_seed_keypair_def Let_def seed_sk_def put_bytes_def get_bytes_def)
qed

lemma validate_iff:
  assumes "length sk = 64"
  shows "slh_dsa_secret_key_validate_unburned cfg hb (Some sk) 64 ts = (if consistent_sk hb sk then 0 else -1, ts)"
proof -
  have "initialize_hash_function hb \<lparr>pub_seed = get_bytes 32 16 sk, sk_seed = take 16 sk, state_seeded = replicate 40 0\<rparr> = key_ctx hb sk"
    by (simp add: key_ctx_def get_bytes_def initialize_hash_function_def seed_state_def)
  moreover have "bytes_equal (key_root hb sk) (drop 48 sk) 16 \<longleftrightarrow> consistent_sk hb sk"
    using assms length_key_root [OF assms] by (auto simp: bytes_equal_iff consistent_sk_def)
  ultimately show ?thesis
    using merkle_gen_root_key [OF assms, of cfg] by (simp add: slh_dsa_secret_key_validate_unburned_def)
qed

end

section \<open>Signing\<close>

lemma crypto_sign_signature_rng:
  "ts_rng (snd (snd (snd (crypto_sign_signature cfg hb rt sig m sk ts)))) =
    snd (randombytes (Some (replicate 16 0)) 16 (slh_dsa_random_source_clear_failure (ts_rng ts)))"
  by (auto simp: crypto_sign_signature_def Let_def split: prod.split sum.split)

text \<open>The thread-local state of the signing run proper: the derived seed as the random source and a fresh
  statistics session.\<close>

definition signing_tls :: "build_config \<Rightarrow> hashblocks_fn \<Rightarrow> bytes \<Rightarrow> bytes \<Rightarrow> tls" where
  "signing_tls cfg hb sk msg =
     \<lparr>ts_rng = \<lparr>g_random_data = Some (sha256_md hb (sk @ msg) @ sha256_md hb (sha256_md hb (sk @ msg) @ [1])),
        g_random_data_size = 64, g_random_data_offset = 0, g_random_source_failed = False\<rparr>,
      ts_stats = bitcoin_pqc_sign_stats_begin cfg (Some zero_stats)\<rparr>"

text \<open>The pointer \<open>m\<close> gives access to the \<open>mlen\<close> bytes \<open>msg\<close>; it may be null for the empty message.\<close>

definition message_at :: "bytes option \<Rightarrow> nat \<Rightarrow> bytes \<Rightarrow> bool" where
  "message_at m mlen msg \<longleftrightarrow> length msg = mlen \<and> (case m of None \<Rightarrow> msg = [] | Some x \<Rightarrow> take mlen x = msg)"

lemma message_at_take: "message_at m mlen msg \<Longrightarrow> take mlen (case m of Some x \<Rightarrow> x | None \<Rightarrow> [0]) = msg"
  by (auto simp: message_at_def split: option.splits)

lemma message_at_null: "message_at None mlen msg \<Longrightarrow> mlen = 0"
  by (auto simp: message_at_def)

context sha256_backend
begin

lemma signing_tls_rng_ok:
  "\<not> g_random_source_failed (ts_rng (snd (snd (snd (crypto_sign_signature cfg hb rt sig m sk (signing_tls cfg hb sk msg))))))"
proof -
  let ?d = "sha256_md hb (sk @ msg) @ sha256_md hb (sha256_md hb (sk @ msg) @ [1])"
  let ?r = "slh_dsa_random_source_clear_failure (ts_rng (signing_tls cfg hb sk msg))"
  have "length ?d = 64" by (simp add: length_sha256_md)
  then have "?d \<noteq> []" "rng_ok ?r" "g_random_data ?r = Some ?d"
    by (auto simp: rng_ok_def signing_tls_def slh_dsa_random_source_clear_failure_def)
  from randombytes_cyclic [OF this(2,3,1), of "replicate 16 0" 16] show ?thesis
    by (simp add: crypto_sign_signature_rng slh_dsa_random_source_clear_failure_def)
qed

lemma slh_dsa_sign_run:
  assumes "length sk = 64" "message_at m mlen msg" "consistent_sk hb sk"
    and run: "crypto_sign_signature cfg hb rt sig msg sk (signing_tls cfg hb sk msg) = (res, sig', len, ts')"
  shows "slh_dsa_sign_with_stats cfg hb rt (Some sig) (Some l0) m mlen (Some sk) stats ts =
    (res, Some (if res = 0 then sig' else put_bytes 0 (replicate 3680 0) sig'), Some (if res = 0 then len else 0),
     if stats = None then None else ts_stats ts',
     \<lparr>ts_rng = slh_dsa_restore_original_random (ts_rng ts'), ts_stats = None\<rparr>)"
proof -
  let ?message = "case m of Some msg \<Rightarrow> msg | None \<Rightarrow> [0]"
  have msg: "take mlen ?message = msg" using assms(2) by (rule message_at_take)
  have len: "length msg = mlen" using assms(2) by (simp add: message_at_def)
  have nn: "(\<exists>y. m = Some y) \<or> mlen = 0" using assms(2) message_at_null by (cases m) auto
  have "slh_dsa_derandomize_unburned hb (Some (replicate 64 0)) (Some ?message) mlen (Some sk) r =
      (Some (sha256_md hb (sk @ msg) @ sha256_md hb (sha256_md hb (sk @ msg) @ [1])), r)" for r
    using derandomize_hash [of sk "take mlen ?message" mlen "replicate 64 0" "Some (take mlen ?message)" r] assms(1) len msg
    by (simp add: slh_dsa_derandomize_unburned_def)
  moreover have "slh_dsa_init_random_source (Some d) 64 r =
      \<lparr>g_random_data = Some d, g_random_data_size = 64, g_random_data_offset = 0, g_random_source_failed = False\<rparr>" for d r
    by (simp add: slh_dsa_init_random_source_def slh_dsa_random_source_clear_failure_def)
  moreover have "ts\<lparr>ts_rng := r, ts_stats := bitcoin_pqc_sign_stats_begin cfg (Some s)\<rparr> =
      \<lparr>ts_rng = r, ts_stats = bitcoin_pqc_sign_stats_begin cfg (Some zero_stats)\<rparr>" for ts r s
    by (simp add: bitcoin_pqc_sign_stats_begin_def)
  moreover have "\<not> g_random_source_failed (ts_rng ts')"
    using signing_tls_rng_ok [of cfg rt sig msg sk msg] run by simp
  ultimately show ?thesis
    using assms msg run validate_iff [OF assms(1), of cfg ts] nn
    by (auto simp: slh_dsa_sign_with_stats_def slh_dsa_sign_with_stats_impl_def Let_def signing_tls_def
        slh_dsa_random_source_failed_def slh_dsa_random_source_clear_failure_def slh_dsa_setup_custom_random_def
        bitcoin_pqc_sign_stats_end_def)
qed

lemma slh_dsa_sign_bad_key:
  assumes "length sk = 64" "\<not> consistent_sk hb sk" "m = None \<longrightarrow> mlen = 0"
  shows "slh_dsa_sign_with_stats cfg hb rt (Some sig) (Some l0) m mlen (Some sk) stats ts =
    (SLH_DSA_SIGN_ERROR_BAD_KEY, Some (put_bytes 0 (replicate 3680 0) sig), Some 0, stats, ts)"
  using assms validate_iff [OF assms(1), of cfg ts]
  by (auto simp: slh_dsa_sign_with_stats_def slh_dsa_sign_with_stats_impl_def)

text \<open>Whether the bounded searches of the signer succeed is a function of the key and the message.\<close>

lemma signing_tls_outcome:
  assumes "length sk = 64" "valid_config cfg" "joins_all rt" "length sig = 3680"
  shows "fst (crypto_sign_signature cfg hb rt sig m sk (signing_tls cfg hb sk msg)) =
    (if sign_searches_succeed cfg hb
          (gen_message_random hb (drop 16 sk) (take 16 (sha256_md hb (sk @ msg))) m) m sk (Some zero_stats)
     then 0 else BITCOINPQC_SIGN_LIMIT_EXCEEDED)"
proof -
  let ?d = "sha256_md hb (sk @ msg) @ sha256_md hb (sha256_md hb (sk @ msg) @ [1])"
  let ?t = "signing_tls cfg hb sk msg"
  have d: "length ?d = 64" by (simp add: length_sha256_md)
  have "rng_ok (ts_rng ?t)" "g_random_data (ts_rng ?t) = Some ?d" "?d \<noteq> []" "g_random_data_offset (ts_rng ?t) = 0"
    using d by (auto simp: rng_ok_def signing_tls_def)
  moreover have "cyclic ?d 0 16 = take 16 (sha256_md hb (sk @ msg))"
    using d by (subst cyclic_short) (simp_all add: get_bytes_def length_sha256_md)
  moreover have "sign_searches_succeed cfg hb r m sk (ts_stats ?t) = sign_searches_succeed cfg hb r m sk (Some zero_stats)" for r
    by (simp add: sign_searches_succeed_def wotsc_limit_def signing_tls_def bitcoin_pqc_sign_stats_begin_def)
  ultimately show ?thesis using crypto_sign_signature_succeeds [OF assms, of ?t ?d m] by simp
qed

end

definition signable :: "build_config \<Rightarrow> hashblocks_fn \<Rightarrow> bytes \<Rightarrow> bytes \<Rightarrow> bool" where
  "signable cfg hb sk msg = sign_searches_succeed cfg hb
     (gen_message_random hb (drop 16 sk) (take 16 (sha256_md hb (sk @ msg))) msg) msg sk (Some zero_stats)"

context sha256_backend
begin

text \<open>The contract of \<open>slh_dsa_sign_with_stats\<close> for non-null arguments.\<close>

theorem slh_dsa_sign_contract:
  assumes "length sk = 64" "length sig = 3680" "message_at m mlen msg" "valid_config cfg" "joins_all rt"
    and "slh_dsa_sign_with_stats cfg hb rt (Some sig) (Some l0) m mlen (Some sk) stats ts = (res, sig', len, stats', ts')"
  shows "res = (if \<not> consistent_sk hb sk then SLH_DSA_SIGN_ERROR_BAD_KEY
       else if signable cfg hb sk msg then 0 else BITCOINPQC_SIGN_LIMIT_EXCEEDED) \<and>
    (res = 0 \<longrightarrow> (\<exists>s. sig' = Some s \<and> length s = 3680 \<and> len = Some 3680 \<and>
       crypto_sign_verify cfg hb s 3680 msg (drop 32 sk) None = (0, None))) \<and>
    (res \<noteq> 0 \<longrightarrow> sig' = Some (replicate 3680 0) \<and> len = Some 0) \<and>
    (consistent_sk hb sk \<longrightarrow> ts_stats ts' = None \<and> g_random_data (ts_rng ts') = None) \<and>
    (\<not> consistent_sk hb sk \<longrightarrow> ts' = ts \<and> stats' = stats)"
proof (cases "consistent_sk hb sk")
  case True
  obtain r s l t where run: "crypto_sign_signature cfg hb rt sig msg sk (signing_tls cfg hb sk msg) = (r, s, l, t)"
    by (metis prod_cases4)
  have eq: "(res, sig', len, stats', ts') =
      (r, Some (if r = 0 then s else put_bytes 0 (replicate 3680 0) s), Some (if r = 0 then l else 0),
       if stats = None then None else ts_stats t,
       \<lparr>ts_rng = slh_dsa_restore_original_random (ts_rng t), ts_stats = None\<rparr>)"
    unfolding assms(6) [symmetric] by (rule slh_dsa_sign_run [OF assms(1,3) True run])
  have "length s = 3680" using crypto_sign_signature_result [OF assms(1,4,5,2) run] by simp
  moreover have "r = (if signable cfg hb sk msg then 0 else BITCOINPQC_SIGN_LIMIT_EXCEEDED)"
    using signing_tls_outcome [OF assms(1,4,5,2), of msg msg] run by (simp add: signable_def)
  moreover have "r = 0 \<Longrightarrow> l = 3680 \<and> crypto_sign_verify cfg hb s 3680 msg (drop 32 sk) None = (0, None)"
    using sign_verify [OF True assms(4,5,2)] run by metis
  ultimately show ?thesis
    using eq True by (auto simp: slh_dsa_restore_original_random_def)
next
  case False
  have "m = None \<longrightarrow> mlen = 0" using assms(3) message_at_null by blast
  from slh_dsa_sign_bad_key [OF assms(1) False this] assms(2,6) False show ?thesis
    by auto
qed

end

end
