(* ===== verification/Bitcoin_Pqc.thy ===== *)
theory Bitcoin_Pqc
  imports Slh_Dsa
begin

text \<open>
  The public API, \<open>src/bitcoinpqc.c\<close>, over the heap of theory \<open>C_Heap\<close>.  Structures passed by pointer are
  optional records; a null pointer is \<open>None\<close>.
\<close>

section \<open>Data\<close>

datatype bitcoin_pqc_error_t =
    BITCOIN_PQC_OK
  | BITCOIN_PQC_ERROR_BAD_ARG
  | BITCOIN_PQC_ERROR_BAD_KEY
  | BITCOIN_PQC_ERROR_BAD_SIGNATURE
  | BITCOIN_PQC_ERROR_NOT_IMPLEMENTED
  | BITCOIN_PQC_ERROR_SIGNING_LIMIT
  | BITCOIN_PQC_ERROR_OUT_OF_MEMORY

record bitcoin_pqc_keypair_t =
  public_key :: "addr option"
  secret_key :: "addr option"
  public_key_size :: nat
  secret_key_size :: nat

record bitcoin_pqc_signature_t =
  signature :: "addr option"
  signature_size :: nat

text \<open>The rest of the library's surroundings: build configuration, block functions and worker pool.\<close>

record lib_env =
  le_cfg :: build_config
  le_hb :: hashblocks_fn
  le_hb512 :: hashblocks512_fn
  le_rt :: fors_threads
  le_malloc :: allocator

definition keypair_output_is_empty :: "bitcoin_pqc_keypair_t \<Rightarrow> bool" where
  "keypair_output_is_empty kp \<longleftrightarrow> public_key kp = None \<and> secret_key kp = None \<and>
     public_key_size kp = 0 \<and> secret_key_size kp = 0"

definition signature_output_is_empty :: "bitcoin_pqc_signature_t \<Rightarrow> bool" where
  "signature_output_is_empty s \<longleftrightarrow> signature s = None \<and> signature_size s = 0"

definition bitcoin_pqc_public_key_size :: nat where
  [simp]: "bitcoin_pqc_public_key_size = SLH_DSA_PUBLIC_KEY_SIZE"

definition bitcoin_pqc_secret_key_size :: nat where
  [simp]: "bitcoin_pqc_secret_key_size = SLH_DSA_SECRET_KEY_SIZE"

definition bitcoin_pqc_signature_size :: nat where
  [simp]: "bitcoin_pqc_signature_size = SLH_DSA_SIGNATURE_SIZE"

section \<open>Key generation\<close>

text \<open>The wipe-and-release sequence of the failure paths.\<close>

definition release_keys :: "addr option \<Rightarrow> addr option \<Rightarrow> heap \<Rightarrow> heap" where
  "release_keys pk sk h =
     free sk (free pk (bitcoin_pqc_secure_zero sk bitcoin_pqc_secret_key_size
       (bitcoin_pqc_secure_zero pk bitcoin_pqc_public_key_size h)))"

definition bitcoin_pqc_keygen :: "lib_env \<Rightarrow> bitcoin_pqc_keypair_t option \<Rightarrow> bytes option \<Rightarrow> nat \<Rightarrow> tls \<Rightarrow> heap
    \<Rightarrow> bitcoin_pqc_error_t \<times> bitcoin_pqc_keypair_t option \<times> tls \<times> heap" where
  "bitcoin_pqc_keygen env keypair random_data random_data_size ts h =
     (if keypair = None \<or> random_data = None then (BITCOIN_PQC_ERROR_BAD_ARG, keypair, ts, h)
      else if \<not> keypair_output_is_empty (the keypair) then (BITCOIN_PQC_ERROR_BAD_ARG, keypair, ts, h)
      else if random_data_size < SLH_DSA_KEYGEN_RANDOM_DATA_MIN_SIZE then (BITCOIN_PQC_ERROR_BAD_ARG, keypair, ts, h)
      else
        (let (pk, h) = malloc (le_malloc env) bitcoin_pqc_public_key_size h;
             (sk, h) = malloc (le_malloc env) bitcoin_pqc_secret_key_size h
         in if pk = None \<or> sk = None then (BITCOIN_PQC_ERROR_OUT_OF_MEMORY, keypair, ts, release_keys pk sk h)
            else
              (let (keygen_result, pkb, skb, ts, h) =
                     slh_dsa_keygen (le_cfg env) (le_hb env) (le_hb512 env) (le_malloc env)
                       (hp h (the pk)) (hp h (the sk)) random_data random_data_size ts h;
                   h = h\<lparr>hp := (hp h)(the pk := pkb, the sk := skb)\<rparr>
               in if keygen_result \<noteq> 0
                  then (if keygen_result = SLH_DSA_KEYGEN_ERROR_OUT_OF_MEMORY then BITCOIN_PQC_ERROR_OUT_OF_MEMORY
                        else BITCOIN_PQC_ERROR_BAD_KEY, keypair, ts, release_keys pk sk h)
                  else (BITCOIN_PQC_OK,
                        Some ((the keypair)\<lparr>public_key := pk, secret_key := sk,
                          public_key_size := bitcoin_pqc_public_key_size,
                          secret_key_size := bitcoin_pqc_secret_key_size\<rparr>), ts, h))))"

definition bitcoin_pqc_secret_key_validate :: "lib_env \<Rightarrow> bytes option \<Rightarrow> nat \<Rightarrow> tls \<Rightarrow> bitcoin_pqc_error_t \<times> tls" where
  "bitcoin_pqc_secret_key_validate env sk n ts =
     (if sk = None then (BITCOIN_PQC_ERROR_BAD_ARG, ts)
      else (let (res, ts) = slh_dsa_secret_key_validate (le_cfg env) (le_hb env) sk n ts
            in (if res \<noteq> 0 then BITCOIN_PQC_ERROR_BAD_KEY else BITCOIN_PQC_OK, ts)))"

definition bitcoin_pqc_keypair_free :: "bitcoin_pqc_keypair_t option \<Rightarrow> heap \<Rightarrow> bitcoin_pqc_keypair_t option \<times> heap" where
  "bitcoin_pqc_keypair_free keypair h =
     (case keypair of
        None \<Rightarrow> (None, h)
      | Some kp \<Rightarrow>
          (let h = (if public_key kp \<noteq> None
                 then free (public_key kp) (bitcoin_pqc_secure_zero (public_key kp) (public_key_size kp) h) else h);
               kp = (if public_key kp \<noteq> None then kp\<lparr>public_key := None\<rparr> else kp);
               h = (if secret_key kp \<noteq> None
                 then free (secret_key kp) (bitcoin_pqc_secure_zero (secret_key kp) (secret_key_size kp) h) else h);
               kp = (if secret_key kp \<noteq> None then kp\<lparr>secret_key := None\<rparr> else kp)
           in (Some (kp\<lparr>public_key_size := 0, secret_key_size := 0\<rparr>), h)))"

section \<open>Signing\<close>

definition bitcoin_pqc_sign_impl :: "lib_env \<Rightarrow> bytes option \<Rightarrow> nat \<Rightarrow> bytes option \<Rightarrow> nat
    \<Rightarrow> bitcoin_pqc_signature_t option \<Rightarrow> stats_ptr \<Rightarrow> tls \<Rightarrow> heap
    \<Rightarrow> bitcoin_pqc_error_t \<times> bitcoin_pqc_signature_t option \<times> stats_ptr \<times> tls \<times> heap" where
  "bitcoin_pqc_sign_impl env sk sk_size message message_size sg stats ts h =
     (if sk = None \<or> sg = None then (BITCOIN_PQC_ERROR_BAD_ARG, sg, stats, ts, h)
      else if message = None \<and> message_size \<noteq> 0 then (BITCOIN_PQC_ERROR_BAD_ARG, sg, stats, ts, h)
      else if \<not> signature_output_is_empty (the sg) then (BITCOIN_PQC_ERROR_BAD_ARG, sg, stats, ts, h)
      else if sk_size \<noteq> bitcoin_pqc_secret_key_size then (BITCOIN_PQC_ERROR_BAD_KEY, sg, stats, ts, h)
      else
        (let derived_public_key = drop (sk_size - bitcoin_pqc_public_key_size) (the sk);
             (sig, h) = malloc (le_malloc env) bitcoin_pqc_signature_size h
         in if sig = None then (BITCOIN_PQC_ERROR_OUT_OF_MEMORY, sg, stats, ts, h)
            else
              (let message_ptr = Some (case message of Some msg \<Rightarrow> msg | None \<Rightarrow> [0]);
                   (result, sigb, len, stats, ts) =
                     slh_dsa_sign_with_stats (le_cfg env) (le_hb env) (le_rt env) (hp h (the sig)) (Some 0)
                       message_ptr message_size sk stats ts;
                   actual_sig_len = the len;
                   h = h\<lparr>hp := (hp h)(the sig := sigb)\<rparr>;
                   released = free sig (bitcoin_pqc_secure_zero sig bitcoin_pqc_signature_size h)
               in if result \<noteq> 0 \<or> actual_sig_len \<noteq> bitcoin_pqc_signature_size
                  then (if result = BITCOINPQC_SIGN_LIMIT_EXCEEDED then BITCOIN_PQC_ERROR_SIGNING_LIMIT
                        else if result = SLH_DSA_SIGN_ERROR_BAD_KEY then BITCOIN_PQC_ERROR_BAD_KEY
                        else BITCOIN_PQC_ERROR_BAD_SIGNATURE, sg, stats, ts, released)
                  else
                    (let (v, g) = slh_dsa_verify (le_cfg env) (le_hb env) sigb actual_sig_len message_ptr message_size
                           (Some derived_public_key) (ts_stats ts);
                         ts = ts\<lparr>ts_stats := g\<rparr>
                     in if v \<noteq> 0 then (BITCOIN_PQC_ERROR_BAD_SIGNATURE, sg, stats, ts, released)
                        else (BITCOIN_PQC_OK, Some ((the sg)\<lparr>signature := sig, signature_size := actual_sig_len\<rparr>),
                              stats, ts, h)))))"

definition bitcoin_pqc_sign :: "lib_env \<Rightarrow> bytes option \<Rightarrow> nat \<Rightarrow> bytes option \<Rightarrow> nat
    \<Rightarrow> bitcoin_pqc_signature_t option \<Rightarrow> tls \<Rightarrow> heap
    \<Rightarrow> bitcoin_pqc_error_t \<times> bitcoin_pqc_signature_t option \<times> stats_ptr \<times> tls \<times> heap" where
  "bitcoin_pqc_sign env sk sk_size message message_size sg ts h =
     bitcoin_pqc_sign_impl env sk sk_size message message_size sg None ts h"

definition bitcoin_pqc_sign_with_stats :: "lib_env \<Rightarrow> bytes option \<Rightarrow> nat \<Rightarrow> bytes option \<Rightarrow> nat
    \<Rightarrow> bitcoin_pqc_signature_t option \<Rightarrow> stats_ptr \<Rightarrow> tls \<Rightarrow> heap
    \<Rightarrow> bitcoin_pqc_error_t \<times> bitcoin_pqc_signature_t option \<times> stats_ptr \<times> tls \<times> heap" where
  "bitcoin_pqc_sign_with_stats env sk sk_size message message_size sg stats ts h =
     bitcoin_pqc_sign_impl env sk sk_size message message_size sg stats ts h"

definition bitcoin_pqc_signature_free :: "bitcoin_pqc_signature_t option \<Rightarrow> heap \<Rightarrow> bitcoin_pqc_signature_t option \<times> heap" where
  "bitcoin_pqc_signature_free sg h =
     (case sg of
        None \<Rightarrow> (None, h)
      | Some s \<Rightarrow>
          (let h = (if signature s \<noteq> None
                 then free (signature s) (bitcoin_pqc_secure_zero (signature s) (signature_size s) h) else h);
               s = (if signature s \<noteq> None then s\<lparr>signature := None\<rparr> else s)
           in (Some (s\<lparr>signature_size := 0\<rparr>), h)))"

section \<open>Verification\<close>

definition bitcoin_pqc_verify :: "lib_env \<Rightarrow> bytes option \<Rightarrow> nat \<Rightarrow> bytes option \<Rightarrow> nat \<Rightarrow> bytes option \<Rightarrow> nat
    \<Rightarrow> tls \<Rightarrow> bitcoin_pqc_error_t \<times> tls" where
  "bitcoin_pqc_verify env pk pk_size message message_size sig sig_size ts =
     (if pk = None \<or> sig = None then (BITCOIN_PQC_ERROR_BAD_ARG, ts)
      else if message = None \<and> message_size \<noteq> 0 then (BITCOIN_PQC_ERROR_BAD_ARG, ts)
      else if pk_size \<noteq> bitcoin_pqc_public_key_size then (BITCOIN_PQC_ERROR_BAD_KEY, ts)
      else if sig_size \<noteq> bitcoin_pqc_signature_size then (BITCOIN_PQC_ERROR_BAD_SIGNATURE, ts)
      else
        (let message_ptr = Some (case message of Some msg \<Rightarrow> msg | None \<Rightarrow> [0]);
             (v, g) = slh_dsa_verify (le_cfg env) (le_hb env) sig sig_size message_ptr message_size pk (ts_stats ts);
             ts = ts\<lparr>ts_stats := g\<rparr>
         in (if v \<noteq> 0 then BITCOIN_PQC_ERROR_BAD_SIGNATURE else BITCOIN_PQC_OK, ts)))"

section \<open>The release of a key pair\<close>

lemma release_keys_none: "release_keys None None h = h"
  by (simp add: release_keys_def free_def bitcoin_pqc_secure_zero_def)

lemma release_keys_one:
  "hp h a = Some b \<Longrightarrow> length b = 32 \<Longrightarrow>
    hp (release_keys (Some a) None h) = (hp h)(a := None) \<and> wiped_since h (release_keys (Some a) None h)"
  "hp h c = Some d \<Longrightarrow> length d = 64 \<Longrightarrow>
    hp (release_keys None (Some c) h) = (hp h)(c := None) \<and> wiped_since h (release_keys None (Some c) h)"
  by (simp_all add: release_keys_def free_def bitcoin_pqc_secure_zero_def wiped_since_def)

lemma release_keys_both:
  "hp h a = Some b \<Longrightarrow> length b = 32 \<Longrightarrow> hp h c = Some d \<Longrightarrow> length d = 64 \<Longrightarrow> a \<noteq> c \<Longrightarrow>
    hp (release_keys (Some a) (Some c) h) = (hp h)(a := None, c := None) \<and>
    wiped_since h (release_keys (Some a) (Some c) h)"
  by (simp add: release_keys_def free_def bitcoin_pqc_secure_zero_def wiped_since_def)

section \<open>The contracts of the API\<close>

text \<open>The two allocations of the API.\<close>

definition keygen_buffers :: "lib_env \<Rightarrow> heap \<Rightarrow> addr option \<Rightarrow> addr option \<Rightarrow> heap \<Rightarrow> bool" where
  "keygen_buffers env h pk sk h2 \<longleftrightarrow> (case malloc (le_malloc env) 32 h of (p, h1) \<Rightarrow> pk = p \<and> (sk, h2) = malloc (le_malloc env) 64 h1)"

text \<open>The specification of key generation: its error as a function of the arguments and the allocator.\<close>

definition keygen_error_spec :: "lib_env \<Rightarrow> bitcoin_pqc_keypair_t option \<Rightarrow> bytes option \<Rightarrow> nat \<Rightarrow> heap \<Rightarrow> bitcoin_pqc_error_t" where
  "keygen_error_spec env kp rd n h =
    (if kp = None \<or> rd = None \<or> \<not> keypair_output_is_empty (the kp) \<or> n < 128 then BITCOIN_PQC_ERROR_BAD_ARG
     else case malloc (le_malloc env) 32 h of (pk, h1) \<Rightarrow> (case malloc (le_malloc env) 64 h1 of (sk, h2) \<Rightarrow>
       if pk = None \<or> sk = None then BITCOIN_PQC_ERROR_OUT_OF_MEMORY
       else if n > SIZE_MAX - (length KEYGEN_DERIVE_DOMAIN + 9) then BITCOIN_PQC_ERROR_BAD_KEY
       else if le_malloc env h2 (length KEYGEN_DERIVE_DOMAIN + 9 + n) = None then BITCOIN_PQC_ERROR_OUT_OF_MEMORY
       else BITCOIN_PQC_OK))"

text \<open>What the library needs of its surroundings: block functions that absorb block by block, limits the
  headers accept, workers that are joined, and a correct allocator.\<close>

locale library = s256: sha256_backend "le_hb env" + s512: sha512_backend "le_hb512 env" for env :: lib_env +
  assumes cfg_ok: "valid_config (le_cfg env)"
    and rt_ok: "joins_all (le_rt env)"
    and malloc_fresh: "good_malloc (le_malloc env)"
begin

lemmas malloc_cases = malloc_spec [OF malloc_fresh]

text \<open>\<open>slh_dsa_keygen\<close> on the buffers the API passes.\<close>

lemma slh_dsa_keygen_refused:
  assumes "n > SIZE_MAX - (length KEYGEN_DERIVE_DOMAIN + 9) \<or> le_malloc env h (length KEYGEN_DERIVE_DOMAIN + 9 + n) = None"
    and "128 \<le> n"
  shows "slh_dsa_keygen (le_cfg env) (le_hb env) (le_hb512 env) (le_malloc env) (Some pk) (Some sk) (Some rd) n ts h =
    (if n > SIZE_MAX - (length KEYGEN_DERIVE_DOMAIN + 9) then -1 else SLH_DSA_KEYGEN_ERROR_OUT_OF_MEMORY, Some pk, Some sk, ts, h)"
  using assms derive_keygen_seed_v1_refused(1) [of n "le_hb512 env" "le_malloc env" rd h]
    derive_keygen_seed_v1_refused(2) [of n "le_malloc env" h "le_hb512 env" rd]
  by (auto simp: slh_dsa_keygen_def slh_dsa_keygen_impl_def)

lemma slh_dsa_keygen_ok:
  assumes "length pk = 32" "length sk = 64" "128 \<le> n"
    and "n \<le> SIZE_MAX - (length KEYGEN_DERIVE_DOMAIN + 9)" "le_malloc env h (length KEYGEN_DERIVE_DOMAIN + 9 + n) \<noteq> None"
  shows "\<exists>c h' K. slh_dsa_keygen (le_cfg env) (le_hb env) (le_hb512 env) (le_malloc env) (Some pk) (Some sk) (Some rd) n ts h =
      (0, Some (drop 32 K), Some K, ts, h') \<and> consistent_sk (le_hb env) K \<and>
    c \<notin> dom (hp h) \<and> hp h' = hp h \<and> freed h' = (c, replicate (length KEYGEN_DERIVE_DOMAIN + 9 + n) 0) # freed h"
proof -
  obtain c h' x where d: "derive_keygen_seed_v1 (le_hb512 env) (le_malloc env) rd n h = (Inr (take 48 (sha512 (le_hb512 env) x)), h')"
    "c \<notin> dom (hp h)" "hp h' = hp h" "freed h' = (c, replicate (length KEYGEN_DERIVE_DOMAIN + 9 + n) 0) # freed h"
    using derive_keygen_seed_v1_ok [OF malloc_fresh assms(4,5)] by blast
  have l: "length (take 48 (sha512 (le_hb512 env) x)) = 48"
    by (simp add: s512.sha512_eq_md s512.length_sha512_md)
  show ?thesis
    using d assms(3) s256.crypto_sign_seed_keypair_ok [OF assms(1,2) l] s256.consistent_seed_sk [OF l]
    by (intro exI [of _ c] exI [of _ h'] exI) (simp add: slh_dsa_keygen_def slh_dsa_keygen_impl_def)
qed

lemma keygen_buffers_some:
  assumes "keygen_buffers env h (Some a) (Some b) h2"
  shows "\<exists>x y. a \<noteq> b \<and> a \<notin> dom (hp h) \<and> b \<notin> dom (hp h) \<and> length x = 32 \<and> length y = 64 \<and>
    hp h2 = (hp h)(a \<mapsto> x, b \<mapsto> y) \<and> freed h2 = freed h"
proof -
  obtain p h1 where m1: "malloc (le_malloc env) 32 h = (p, h1)" by fastforce
  then have m2: "p = Some a" "malloc (le_malloc env) 64 h1 = (Some b, h2)" using assms by (auto simp: keygen_buffers_def)
  from malloc_cases(4) [OF m1 m2(1)] obtain x where x: "a \<notin> dom (hp h)" "length x = 32" "hp h1 = (hp h)(a \<mapsto> x)" by blast
  from malloc_cases(4) [OF m2(2) refl] obtain y where "b \<notin> dom (hp h1)" "length y = 64" "hp h2 = (hp h1)(b \<mapsto> y)" by blast
  then show ?thesis using x malloc_cases(1) [OF m1] malloc_cases(1) [OF m2(2)] by auto
qed

lemma keygen_buffers_fail:
  assumes "keygen_buffers env h pk sk h2" "pk = None \<or> sk = None"
  shows "hp (release_keys pk sk h2) = hp h \<and> wiped_since h (release_keys pk sk h2)"
proof -
  obtain p h1 where m1: "malloc (le_malloc env) 32 h = (p, h1)" by fastforce
  then have m2: "p = pk" "malloc (le_malloc env) 64 h1 = (sk, h2)" using assms by (auto simp: keygen_buffers_def)
  note a1 = malloc_cases [OF m1 [unfolded m2(1)]] and a2 = malloc_cases [OF m2(2)]
  have fr: "wiped_since h h2" using a1(1) a2(1) by (simp add: wiped_since_same)
  show ?thesis
  proof (cases pk)
    case None
    then have h1: "h1 = h" using a1(3) by simp
    show ?thesis
    proof (cases sk)
      case (Some c)
      with a2(4) [of c] h1 obtain d where "c \<notin> dom (hp h)" "length d = 64" "hp h2 = (hp h)(c \<mapsto> d)" by blast
      with None Some fr release_keys_one(2) [of h2 c d] show ?thesis
        using wiped_since_trans by (auto simp: domIff fun_upd_idem)
    qed (use None h1 a2(3) in \<open>simp add: release_keys_none\<close>)
  next
    case (Some a)
    with assms(2) have n: "sk = None" "h2 = h1" using a2(3) by auto
    from a1(4) [OF Some] obtain b where "a \<notin> dom (hp h)" "length b = 32" "hp h1 = (hp h)(a \<mapsto> b)" by blast
    with Some n fr release_keys_one(1) [of h1 a b] show ?thesis
      using wiped_since_trans by (auto simp: domIff fun_upd_idem)
  qed
qed

theorem keygen_contract:
  assumes "bitcoin_pqc_keygen env kp rd n ts h = (err, kp', ts', h')"
  shows "ts' = ts \<and> wiped_since h h' \<and> err = keygen_error_spec env kp rd n h \<and>
    (err = BITCOIN_PQC_ERROR_BAD_ARG \<longrightarrow> h' = h) \<and>
    (err \<noteq> BITCOIN_PQC_OK \<longrightarrow> kp' = kp \<and> hp h' = hp h) \<and>
    (err = BITCOIN_PQC_OK \<longrightarrow> (\<exists>kp0 a b c sk. kp = Some kp0 \<and> keypair_output_is_empty kp0 \<and> 128 \<le> n \<and>
        a \<noteq> b \<and> a \<notin> dom (hp h) \<and> b \<notin> dom (hp h) \<and> consistent_sk (le_hb env) sk \<and>
        kp' = Some (kp0\<lparr>public_key := Some a, secret_key := Some b, public_key_size := 32, secret_key_size := 64\<rparr>) \<and>
        hp h' = (hp h)(a \<mapsto> drop 32 sk, b \<mapsto> sk) \<and>
        c \<notin> dom (hp h') \<and> freed h' = (c, replicate (length KEYGEN_DERIVE_DOMAIN + 9 + n) 0) # freed h))"
proof (cases "kp = None \<or> rd = None \<or> \<not> keypair_output_is_empty (the kp) \<or> n < 128")
  case True
  then show ?thesis using assms by (auto simp: bitcoin_pqc_keygen_def keygen_error_spec_def split: if_splits)
next
  case ok: False
  then obtain kp0 r where args: "kp = Some kp0" "rd = Some r" "keypair_output_is_empty kp0" "128 \<le> n" by auto
  obtain pk h1 where m1: "malloc (le_malloc env) 32 h = (pk, h1)" by fastforce
  obtain sk h2 where m2: "malloc (le_malloc env) 64 h1 = (sk, h2)" by fastforce
  have bufs: "keygen_buffers env h pk sk h2" using m1 m2 by (simp add: keygen_buffers_def)
  note run = assms [unfolded bitcoin_pqc_keygen_def args] and spec = keygen_error_spec_def args(1-3) m1 m2
  show ?thesis
  proof (cases "pk = None \<or> sk = None")
    case True
    then have "(err, kp', ts', h') = (BITCOIN_PQC_ERROR_OUT_OF_MEMORY, kp, ts, release_keys pk sk h2)"
      using run args m1 m2 by auto
    then show ?thesis
      using True args(4) keygen_buffers_fail [OF bufs True] by (auto simp: spec)
  next
    case False
    then obtain a b where ab: "pk = Some a" "sk = Some b" by auto
    from keygen_buffers_some [OF bufs [unfolded ab]] obtain x y where
      xy: "a \<noteq> b" "a \<notin> dom (hp h)" "b \<notin> dom (hp h)" "length x = 32" "length y = 64"
        "hp h2 = (hp h)(a \<mapsto> x, b \<mapsto> y)" "freed h2 = freed h" by blast
    have at: "hp h2 a = Some x" "hp h2 b = Some y" using xy by auto
    show ?thesis
    proof (cases "n > SIZE_MAX - (length KEYGEN_DERIVE_DOMAIN + 9) \<or> le_malloc env h2 (length KEYGEN_DERIVE_DOMAIN + 9 + n) = None")
      case True
      have up: "h2\<lparr>hp := (hp h2)(a \<mapsto> x, b \<mapsto> y)\<rparr> = h2" using at by (simp add: fun_upd_idem)
      have "kp' = kp \<and> ts' = ts \<and> h' = release_keys pk sk h2 \<and> err = keygen_error_spec env kp rd n h \<and>
          err \<noteq> BITCOIN_PQC_OK \<and> err \<noteq> BITCOIN_PQC_ERROR_BAD_ARG"
        using run args m1 m2 ab at up slh_dsa_keygen_refused [OF True args(4), of x y r ts] True
        by (auto simp: spec split: if_splits)
      moreover have "(hp h2)(a := None, b := None) = hp h" using xy by (auto simp: fun_eq_iff domIff)
      ultimately show ?thesis
        using release_keys_both [OF at(1) xy(4) at(2) xy(5,1)] wiped_since_trans [OF wiped_since_same [OF xy(7)]]
        unfolding ab by force
    next
      case False
      then have mem: "n \<le> SIZE_MAX - (length KEYGEN_DERIVE_DOMAIN + 9)" "le_malloc env h2 (length KEYGEN_DERIVE_DOMAIN + 9 + n) \<noteq> None"
        by simp_all
      from slh_dsa_keygen_ok [OF xy(4,5) args(4) mem, of r ts] obtain c h3 K where
        kg: "slh_dsa_keygen (le_cfg env) (le_hb env) (le_hb512 env) (le_malloc env) (Some x) (Some y) (Some r) n ts h2 =
          (0, Some (drop 32 K), Some K, ts, h3)" "consistent_sk (le_hb env) K"
        "c \<notin> dom (hp h2)" "hp h3 = hp h2" "freed h3 = (c, replicate (length KEYGEN_DERIVE_DOMAIN + 9 + n) 0) # freed h2" by blast
      have "(err, kp', ts', h') = (BITCOIN_PQC_OK,
          Some (kp0\<lparr>public_key := Some a, secret_key := Some b, public_key_size := 32, secret_key_size := 64\<rparr>), ts,
          h3\<lparr>hp := (hp h3)(a \<mapsto> drop 32 K, b \<mapsto> K)\<rparr>)"
        using run args m1 m2 ab at kg(1) by simp
      moreover have "(hp h3)(a \<mapsto> drop 32 K, b \<mapsto> K) = (hp h)(a \<mapsto> drop 32 K, b \<mapsto> K)"
        using xy(1,6) kg(4) by (auto simp: fun_eq_iff)
      moreover have "keygen_error_spec env kp rd n h = BITCOIN_PQC_OK" using mem args(3,4) by (simp add: spec ab)
      ultimately show ?thesis
        using args xy(1-3,6,7) kg(2-5) by (auto simp: wiped_since_def)
    qed
  qed
qed

text \<open>Signing: the caller owns a 64-byte secret key and a message of its stated length.\<close>

theorem sign_contract:
  assumes sk: "length sk = 64" and msg: "message_at m mlen msg"
    and run: "bitcoin_pqc_sign_impl env (Some sk) 64 m mlen (Some sg) stats ts h = (err, sg', stats', ts', h')"
  shows "wiped_since h h' \<and>
    err = (if \<not> signature_output_is_empty sg then BITCOIN_PQC_ERROR_BAD_ARG
      else if le_malloc env h 3680 = None then BITCOIN_PQC_ERROR_OUT_OF_MEMORY
      else if \<not> consistent_sk (le_hb env) sk then BITCOIN_PQC_ERROR_BAD_KEY
      else if \<not> signable (le_cfg env) (le_hb env) sk msg then BITCOIN_PQC_ERROR_SIGNING_LIMIT
      else BITCOIN_PQC_OK) \<and>
    (err \<noteq> BITCOIN_PQC_OK \<longrightarrow> sg' = Some sg \<and> hp h' = hp h) \<and>
    (err = BITCOIN_PQC_OK \<longrightarrow> (\<exists>a s. a \<notin> dom (hp h) \<and> sg' = Some (sg\<lparr>signature := Some a, signature_size := 3680\<rparr>) \<and>
        hp h' = (hp h)(a \<mapsto> s) \<and> length s = 3680 \<and> freed h' = freed h \<and>
        crypto_sign_verify (le_cfg env) (le_hb env) s 3680 msg (drop 32 sk) None = (0, None)))"
proof (cases "signature_output_is_empty sg")
  case empty: True
  let ?mp = "Some (case m of Some msg \<Rightarrow> msg | None \<Rightarrow> [0])"
  have mp: "message_at ?mp mlen msg" using message_at_take [OF msg] msg by (simp add: message_at_def)
  have nn: "\<not> (m = None \<and> mlen \<noteq> 0)" using msg message_at_null by blast
  obtain p h1 where m1: "malloc (le_malloc env) 3680 h = (p, h1)" by fastforce
  note a1 = malloc_cases [OF m1]
  show ?thesis
  proof (cases p)
    case None
    then have "le_malloc env h 3680 = None" using m1 by (auto simp: malloc_def split: option.splits)
    with None show ?thesis
      using run empty m1 nn a1(3) by (auto simp: bitcoin_pqc_sign_impl_def)
  next
    case (Some a)
    then obtain b where b: "a \<notin> dom (hp h)" "length b = 3680" "hp h1 = (hp h)(a \<mapsto> b)" using a1(4) by blast
    have al: "le_malloc env h 3680 \<noteq> None" using m1 Some by (auto simp: malloc_def split: option.splits)
    obtain res sig' len st t where sn: "slh_dsa_sign_with_stats (le_cfg env) (le_hb env) (le_rt env) (Some b) (Some 0)
        ?mp mlen (Some sk) stats ts = (res, sig', len, st, t)" by (metis prod_cases5)
    note c = s256.slh_dsa_sign_contract [OF sk b(2) mp cfg_ok rt_ok sn]
    let ?h2 = "h1\<lparr>hp := (hp h1)(a := sig')\<rparr>"
    let ?rel = "free p (bitcoin_pqc_secure_zero p 3680 ?h2)"
    have un: "hp h1 a = Some b" "(hp h)(a := None) = hp h" using b by (auto simp: fun_eq_iff domIff)
    show ?thesis
    proof (cases "res = 0")
      case True
      then obtain s where s: "sig' = Some s" "length s = 3680" "len = Some 3680"
        "crypto_sign_verify (le_cfg env) (le_hb env) s 3680 msg (drop 32 sk) None = (0, None)" using c by auto
      have "slh_dsa_verify (le_cfg env) (le_hb env) (Some s) 3680 ?mp mlen (Some (drop 32 sk)) None = (0, None)"
        using s(4) message_at_take [OF msg] by (simp add: slh_dsa_verify_def)
      moreover have cs: "consistent_sk (le_hb env) sk" "signable (le_cfg env) (le_hb env) sk msg" "ts_stats t = None"
        using c True by (auto split: if_splits)
      ultimately have "(err, sg', h') = (BITCOIN_PQC_OK, Some (sg\<lparr>signature := Some a, signature_size := 3680\<rparr>), ?h2)"
        using run empty m1 nn Some sn un(1) s(1,3) True
        by (auto simp: bitcoin_pqc_sign_impl_def)
      moreover have "hp ?h2 = (hp h)(a \<mapsto> s)" "freed ?h2 = freed h" using b(3) s(1) a1(1) by simp_all
      ultimately show ?thesis
        using b(1) s(2,4) empty al cs(1,2) wiped_since_same [of h' h] by auto
    next
      case False
      then have s: "sig' = Some (replicate 3680 0)" "len = Some 0"
        "res = (if consistent_sk (le_hb env) sk then BITCOINPQC_SIGN_LIMIT_EXCEEDED else SLH_DSA_SIGN_ERROR_BAD_KEY)"
        "consistent_sk (le_hb env) sk \<Longrightarrow> \<not> signable (le_cfg env) (le_hb env) sk msg"
        using c by (auto split: if_splits)
      have "(sg', h') = (Some sg, ?rel) \<and> err = (if consistent_sk (le_hb env) sk
          then BITCOIN_PQC_ERROR_SIGNING_LIMIT else BITCOIN_PQC_ERROR_BAD_KEY)"
        using run empty m1 nn Some sn un(1) s False
        by (auto simp: bitcoin_pqc_sign_impl_def)
      moreover have "hp ?rel = (hp ?h2)(a := None) \<and> wiped_since ?h2 ?rel"
        unfolding Some using wipe_free [of ?h2 a "replicate 3680 0" 3680] s(1) by simp
      moreover have "(hp ?h2)(a := None) = hp h" using b(3) un(2) by simp
      moreover have "wiped_since h ?h2" using a1(1) by (intro wiped_since_same) simp
      ultimately show ?thesis using wiped_since_trans empty al s(4) by auto
    qed
  qed
next
  case False
  then show ?thesis using run msg by (auto simp: bitcoin_pqc_sign_impl_def split: if_splits)
qed

end

section \<open>Releasing keys and signatures\<close>

lemma keypair_free_idem:
  "bitcoin_pqc_keypair_free kp h = (kp', h') \<Longrightarrow> bitcoin_pqc_keypair_free kp' h' = (kp', h')"
  by (auto simp: bitcoin_pqc_keypair_free_def Let_def split: option.splits if_splits)

lemma keypair_free_contract:
  assumes "public_key kp = Some a" "secret_key kp = Some b" "a \<noteq> b"
    and "hp h a = Some x" "length x = public_key_size kp" "hp h b = Some y" "length y = secret_key_size kp"
  shows "\<exists>kp' h'. bitcoin_pqc_keypair_free (Some kp) h = (Some kp', h') \<and> keypair_output_is_empty kp' \<and>
    hp h' = (hp h)(a := None, b := None) \<and> wiped_since h h'"
proof -
  let ?h1 = "free (Some a) (bitcoin_pqc_secure_zero (Some a) (public_key_size kp) h)"
  let ?h2 = "free (Some b) (bitcoin_pqc_secure_zero (Some b) (secret_key_size kp) ?h1)"
  note w1 = wipe_free [OF assms(4,5)]
  have "hp ?h1 b = Some y" using w1(1) assms(3,6) by simp
  note w2 = wipe_free [OF this assms(7)]
  have "bitcoin_pqc_keypair_free (Some kp) h =
      (Some (kp\<lparr>public_key := None, secret_key := None, public_key_size := 0, secret_key_size := 0\<rparr>), ?h2)"
    using assms(1,2) by (simp add: bitcoin_pqc_keypair_free_def Let_def)
  moreover have "hp ?h2 = (hp h)(a := None, b := None)" using w1(1) w2(1) by simp
  moreover have "wiped_since h ?h2" using wiped_since_trans [OF w1(2) w2(2)] .
  ultimately show ?thesis by (simp add: keypair_output_is_empty_def)
qed

lemma signature_free_contract:
  assumes "signature sg = Some a" "hp h a = Some x" "length x = signature_size sg"
  shows "\<exists>sg' h'. bitcoin_pqc_signature_free (Some sg) h = (Some sg', h') \<and> signature_output_is_empty sg' \<and>
    hp h' = (hp h)(a := None) \<and> wiped_since h h'"
  using assms wipe_free [OF assms(2,3)]
  by (simp add: bitcoin_pqc_signature_free_def Let_def signature_output_is_empty_def)

section \<open>A production environment\<close>

text \<open>The reference block functions, the default limits, no worker threads (production builds disable the
  environment knobs), and a first-fit allocator over a small address range.\<close>

definition no_threads :: fors_threads where
  "no_threads = \<lparr>ft_knobs = False, ft_env = None, ft_spawn = (\<lambda>_. False), ft_order = concat\<rparr>"

definition first_fit :: allocator where
  "first_fit h n = map_option (\<lambda>a. (a, replicate n 0)) (find (\<lambda>a. hp h a = None) [1..<9])"

definition prod_env :: lib_env where
  "prod_env = \<lparr>le_cfg = default_config, le_hb = crypto_hashblocks_sha256_ref, le_hb512 = crypto_hashblocks_sha512_ref,
     le_rt = no_threads, le_malloc = first_fit\<rparr>"

lemma joins_all_no_threads: "joins_all no_threads"
  by (simp add: joins_all_def no_threads_def)

lemma good_first_fit: "good_malloc first_fit"
  by (auto simp: good_malloc_def first_fit_def find_Some_iff domIff)

interpretation prod: library prod_env
  by (unfold_locales)
    (simp_all add: prod_env_def ref256.hashblocks_axioms valid_default_config joins_all_no_threads good_first_fit
      ref256.hb_length ref256.hb_short ref256.hb_block ref512.hb_length ref512.hb_short ref512.hb_block)

end
