(* ===== verification/Sample_Backend.thy ===== *)
theory Sample_Backend
  imports Bitcoin_Pqc
begin

text \<open>
  Instances on which the contracts of the library can be run.  The reference hash is far too long to
  evaluate over the millions of calls of a signature, so \<open>hb_const\<close> is a second block function that satisfies
  the same laws and whose every digest is one constant, chosen so that the two searches of the signer
  succeed at once: its digits have the WOTS+C checksum, and the bits of the omitted FORS tree are zero.
  The interpretations at the end place the locales of the tree components on the reference hash.
\<close>

section \<open>A block function with a constant digest\<close>

definition const_digest :: bytes where
  "const_digest = replicate 8 255 @ replicate 24 0"

definition hb_const :: hashblocks_fn where
  "hb_const st inp = (if length inp < 64 then st else const_digest, length inp mod 64)"

lemma length_const_digest [simp]: "length const_digest = 32"
  by (simp add: const_digest_def)

interpretation const256: sha256_backend hb_const
  by unfold_locales (simp_all add: hb_const_def)

lemma const_md [simp]: "sha256_md hb_const m = const_digest"
proof -
  have "\<not> length m + (119 - length m mod 64) mod 64 < 55"
  proof (cases "length m < 55")
    case True
    then have "(119 - length m) mod 64 = 55 - length m"
      using mod_add_self2 [of "55 - length m" 64] by simp
    with True show ?thesis by simp
  qed simp
  then show ?thesis by (simp add: sha256_md_def hb_const_def sha256_pad_def)
qed

lemma const_sha256 [simp]: "sha256 hb_const m = const_digest"
  by (simp add: const256.sha256_eq_md)

lemma const_mgf1: "mgf1_256 hb_const 20 inp = take 20 const_digest"
  by (simp add: mgf1_256_def mgf1_256_loop.simps)

lemma const_thash: "ctx_seeded hb_const ctx \<Longrightarrow> thash hb_const inp n ctx addr = take 16 const_digest"
  by (simp add: thash_def const256.seeded_finalize)

section \<open>Both searches of the signer succeed at the first candidate\<close>

lemma const_wotsc_good: "wotsc_good hb_const msg c"
proof -
  have "wotsc_checksum (base_w 16 (take 16 const_digest)) = 2040" by code_simp
  then show ?thesis by (simp add: wotsc_good_def wotsc_hash_counter_def)
qed

lemma const_hash_message:
  assumes "length R = 16" "length pk = 32"
  shows "hash_message hb_const R pk m = (take 16 const_digest, 0, 0)"
proof -
  have "bytes_to_ull (drop 16 (take 20 const_digest)) 3 = 0" "bytes_to_ull (drop 19 (take 20 const_digest)) 1 = 0"
    by code_simp+
  then show ?thesis
    using assms by (simp add: const256.hash_message_H_msg fips205_H_msg_def const_mgf1)
qed

lemma const_forsc_good:
  assumes "length r = 16" "length pk = 32"
  shows "forsc_good hb_const pk m r k"
proof -
  have "forsc_compressed_index (take 16 const_digest) = 0" by code_simp
  then show ?thesis using assms by (simp add: forsc_good_def const_hash_message)
qed

lemma const_searches:
  assumes "valid_config cfg" "length r = 16" "length sk = 64"
  shows "sign_searches_succeed cfg hb_const r m sk g"
proof -
  have "0 < FORSC_MAX_GRIND_ATTEMPTS cfg" using assms(1) by (auto simp: valid_config_def word_gt_0)
  moreover have "forsc_good hb_const (drop 32 sk) m r 0" using assms by (intro const_forsc_good) auto
  moreover have "\<exists>c\<le>wotsc_limit cfg g. wotsc_good hb_const root c" for root
    by (rule exI [of _ 0]) (simp add: const_wotsc_good)
  ultimately show ?thesis
    unfolding sign_searches_succeed_def by (intro exI [of _ 0]) (auto split: prod.split)
qed

lemma const_key_root:
  assumes "length sk = 64"
  shows "key_root hb_const sk = take 16 const_digest"
proof -
  have "ctx_seeded hb_const (key_ctx hb_const sk)"
    using const256.seeded_key_ctx [OF assms] by (rule seeded.seeded)
  then show ?thesis
    by (simp add: key_root_def layer_root_def subtree_root_def const_thash eval_nat_numeral)
qed

text \<open>A consistent key of this hash, and the signing of any message with it.\<close>

definition const_sk :: bytes where
  "const_sk = replicate 48 7 @ take 16 const_digest"

lemma consistent_const_sk: "consistent_sk hb_const const_sk"
  by (simp add: consistent_sk_def const_key_root const_sk_def)

lemma length_const_sk: "length const_sk = 64"
  by (simp add: const_sk_def)

lemma const_chain_lengths:
  obtains steps g' where "chain_lengths cfg hb_const msg g = (Inr steps, g')"
  by (rule chain_lengths_run [of cfg g hb_const msg]) (use that const_wotsc_good [of msg 0] in auto)

definition const_tls :: tls where
  "const_tls = \<lparr>ts_rng = \<lparr>g_random_data = Some [1, 2, 3], g_random_data_size = 3, g_random_data_offset = 0,
     g_random_source_failed = False\<rparr>, ts_stats = None\<rparr>"

text \<open>A thread that has neither a random source nor a statistics session.\<close>

definition dead_tls :: tls where
  "dead_tls = \<lparr>ts_rng = rng_start, ts_stats = None\<rparr>"

lemma const_sign:
  assumes "length sig = 3680" "joins_all rt" "valid_config cfg" "length sk = 64"
  obtains sig' siglen ts' where "crypto_sign_signature cfg hb_const rt sig m sk const_tls = (0, sig', siglen, ts')"
proof -
  have "fst (crypto_sign_signature cfg hb_const rt sig m sk const_tls) = 0"
    using const256.crypto_sign_signature_succeeds [OF assms(4,3,2,1), of const_tls "[1, 2, 3]" m]
    by (simp add: const_searches [OF assms(3)] const256.length_gen_message_random assms(4) const_tls_def rng_ok_def)
  then show thesis by (metis that prod.collapse)
qed

lemma const_signable: "valid_config cfg \<Longrightarrow> length sk = 64 \<Longrightarrow> signable cfg hb_const sk msg"
  by (simp add: signable_def const_searches const256.length_gen_message_random)

section \<open>A library environment over it\<close>

definition demo_env :: lib_env where
  "demo_env = prod_env\<lparr>le_hb := hb_const\<rparr>"

interpretation demo: library demo_env
  by unfold_locales
    (simp_all add: demo_env_def prod_env_def const256.hb_length const256.hb_short const256.hb_block ref512.hb_length
      ref512.hb_short ref512.hb_block valid_default_config joins_all_no_threads good_first_fit)

definition empty_heap :: heap where
  "empty_heap = \<lparr>hp = Map.empty, freed = []\<rparr>"

definition empty_signature :: bitcoin_pqc_signature_t where
  "empty_signature = \<lparr>signature = None, signature_size = 0\<rparr>"

definition empty_keypair :: bitcoin_pqc_keypair_t where
  "empty_keypair = \<lparr>public_key = None, secret_key = None, public_key_size = 0, secret_key_size = 0\<rparr>"

lemma first_fit_empty: "le_malloc demo_env empty_heap n = Some (1, replicate n 0)"
  by (simp add: demo_env_def prod_env_def first_fit_def empty_heap_def upt_conv_Cons)

lemma demo_keygen:
  "fst (bitcoin_pqc_keygen demo_env (Some empty_keypair) (Some (replicate 128 1)) 128 ts empty_heap) = BITCOIN_PQC_OK"
proof -
  obtain err kp' ts' h' where run: "bitcoin_pqc_keygen demo_env (Some empty_keypair) (Some (replicate 128 1)) 128 ts empty_heap
      = (err, kp', ts', h')" by (metis prod_cases4)
  have "\<not> (128 :: nat) > SIZE_MAX - (length KEYGEN_DERIVE_DOMAIN + 9)"
    by (simp add: SIZE_MAX_def KEYGEN_DERIVE_DOMAIN_def)
  moreover have "le_malloc demo_env = first_fit" by (simp add: demo_env_def prod_env_def)
  ultimately have "keygen_error_spec demo_env (Some empty_keypair) (Some (replicate 128 1)) 128 empty_heap = BITCOIN_PQC_OK"
    by (simp add: keygen_error_spec_def keypair_output_is_empty_def empty_keypair_def malloc_def first_fit_def
        empty_heap_def upt_conv_Cons)
  then show ?thesis using demo.keygen_contract [OF run] run by simp
qed

end
