(* ===== verification/Treehash_Plain.thy ===== *)
theory Treehash_Plain
  imports Fors
begin

text \<open>
  \<open>treehash\<close> of \<open>sphincsplus/ref/utils.c\<close>: Merkle's algorithm with an explicit stack of nodes and an array of their
  heights.  The stack is a tiling of the leaves read so far by complete subtrees of decreasing height; the result
  is the root and the authentication path that \<open>treehashx1\<close> computes.
\<close>

section \<open>The code\<close>

text \<open>The \<open>while\<close> loop that joins the two top-most nodes.\<close>

function treehash_join :: "hashblocks_fn \<Rightarrow> spx_ctx \<Rightarrow> u32 \<Rightarrow> u32 \<Rightarrow> u32 \<Rightarrow> bytes \<Rightarrow> u32 list \<Rightarrow> nat \<Rightarrow> bytes \<Rightarrow> spx_addr
    \<Rightarrow> bytes \<times> u32 list \<times> nat \<times> bytes \<times> spx_addr" where
  "treehash_join hb ctx leaf_idx idx_offset idx stack heights offset auth_path tree_addr =
     (if offset \<ge> 2 \<and> heights ! (offset - 1) = heights ! (offset - 2)
      then (let tree_idx = drop_bit (unat (heights ! (offset - 1) + 1)) idx;
                tree_addr = set_tree_height tree_addr (heights ! (offset - 1) + 1);
                tree_addr = set_tree_index tree_addr
                  (tree_idx + drop_bit (unat (heights ! (offset - 1) + 1)) idx_offset);
                stack = put_bytes ((offset - 2) * SPX_N)
                  (thash hb (get_bytes ((offset - 2) * SPX_N) (2 * SPX_N) stack) 2 ctx tree_addr) stack;
                offset = offset - 1;
                heights = heights[offset - 1 := heights ! (offset - 1) + 1];
                auth_path =
                  (if drop_bit (unat (heights ! (offset - 1))) leaf_idx XOR 1 = tree_idx
                   then put_bytes (unat (heights ! (offset - 1)) * SPX_N)
                          (get_bytes ((offset - 1) * SPX_N) SPX_N stack) auth_path
                   else auth_path)
            in treehash_join hb ctx leaf_idx idx_offset idx stack heights offset auth_path tree_addr)
      else (stack, heights, offset, auth_path, tree_addr))"
  by pat_completeness auto
termination
  by (relation "measure (\<lambda>(hb, ctx, li, io, i, st, hs, offset, r). offset)") auto
declare treehash_join.simps [simp del]

text \<open>The loop over the leaves.  The generator reads the address and does not change it.\<close>

type_synonym plain_gen_leaf = "u32 \<Rightarrow> spx_addr \<Rightarrow> bytes"

function treehash_loop :: "hashblocks_fn \<Rightarrow> spx_ctx \<Rightarrow> u32 \<Rightarrow> u32 \<Rightarrow> plain_gen_leaf \<Rightarrow> u32 \<Rightarrow> u32 \<Rightarrow> bytes \<Rightarrow> u32 list \<Rightarrow> nat
    \<Rightarrow> bytes \<Rightarrow> spx_addr \<Rightarrow> bytes \<times> bytes \<times> spx_addr" where
  "treehash_loop hb ctx leaf_idx idx_offset gen_leaf max_idx idx stack heights offset auth_path tree_addr =
     (if idx < max_idx
      then (let stack = put_bytes (offset * SPX_N) (gen_leaf (idx + idx_offset) tree_addr) stack;
                offset = offset + 1;
                heights = heights[offset - 1 := 0];
                auth_path =
                  (if leaf_idx XOR 1 = idx
                   then put_bytes 0 (get_bytes ((offset - 1) * SPX_N) SPX_N stack) auth_path
                   else auth_path);
                (stack, heights, offset, auth_path, tree_addr) =
                  treehash_join hb ctx leaf_idx idx_offset idx stack heights offset auth_path tree_addr
            in treehash_loop hb ctx leaf_idx idx_offset gen_leaf max_idx (idx + 1) stack heights offset auth_path tree_addr)
      else (get_bytes 0 SPX_N stack, auth_path, tree_addr))"
  by pat_completeness auto
termination
  by (relation "measure (\<lambda>(hb, ctx, li, io, g, max_idx, idx, r). unat max_idx - unat idx)") (auto intro: word_count_up)
declare treehash_loop.simps [simp del]

text \<open>The local arrays are uninitialised in C and written before they are read; they start as zeros here.\<close>

definition treehash :: "hashblocks_fn \<Rightarrow> bytes \<Rightarrow> spx_ctx \<Rightarrow> u32 \<Rightarrow> u32 \<Rightarrow> u32 \<Rightarrow> plain_gen_leaf \<Rightarrow> spx_addr
    \<Rightarrow> bytes \<times> bytes \<times> spx_addr" where
  "treehash hb auth_path ctx leaf_idx idx_offset tree_height gen_leaf tree_addr =
     treehash_loop hb ctx leaf_idx idx_offset gen_leaf (push_bit (unat tree_height) 1) 0
       (replicate ((unat tree_height + 1) * SPX_N) 0) (replicate (unat tree_height + 1) 0) 0 auth_path tree_addr"

section \<open>Tilings\<close>

text \<open>The nodes \<open>(h, i)\<close> of \<open>ps\<close> cover the leaves from \<open>a\<close> to \<open>b\<close> without gaps.\<close>

fun tiles :: "nat \<Rightarrow> (nat \<times> nat) list \<Rightarrow> nat \<Rightarrow> bool" where
  "tiles a [] b \<longleftrightarrow> a = b"
| "tiles a ((h, i) # ps) b \<longleftrightarrow> a = i * 2 ^ h \<and> tiles (Suc i * 2 ^ h) ps b"

abbreviation falling :: "(nat \<times> nat) list \<Rightarrow> bool" where
  "falling ps \<equiv> sorted_wrt (\<lambda>p q. fst q < fst p) ps"

lemma tiles_append: "tiles a (ps @ qs) b \<longleftrightarrow> (\<exists>c. tiles a ps c \<and> tiles c qs b)"
  by (induction a ps b rule: tiles.induct) auto

lemma tiles_dvd: "tiles a ps b \<Longrightarrow> 2 ^ m dvd a \<Longrightarrow> (\<And>p. p \<in> set ps \<Longrightarrow> m \<le> fst p) \<Longrightarrow> 2 ^ m dvd b"
proof (induction a ps b rule: tiles.induct)
  case (2 a h i ps b)
  then have "m \<le> h" by force
  then have "2 ^ m dvd Suc i * 2 ^ h" by (simp add: le_imp_power_dvd)
  with 2 show ?case by auto
qed simp

lemma tiles_below: "tiles a ps b \<Longrightarrow> falling ps \<Longrightarrow> (\<And>p. p \<in> set ps \<Longrightarrow> fst p < m) \<Longrightarrow> b < a + 2 ^ m"
proof (induction a ps b arbitrary: m rule: tiles.induct)
  case (2 a h i ps b)
  have "b < Suc i * 2 ^ h + 2 ^ h" using 2 by (intro "2.IH") auto
  moreover have "(2 :: nat) ^ Suc h \<le> 2 ^ m" using "2.prems"(3) [of "(h, i)"] by (intro power_increasing) auto
  moreover have "a = i * 2 ^ h" using "2.prems"(1) by simp
  ultimately show ?case by simp
qed simp

lemma tiles_mono: "tiles a ps b \<Longrightarrow> a \<le> b"
proof (induction a ps b rule: tiles.induct)
  case (2 a h i ps b)
  then have "Suc i * 2 ^ h \<le> b" "a = i * 2 ^ h" by simp_all
  then show ?case by simp
qed simp

lemma tiles_full: "tiles 0 ps (2 ^ th) \<Longrightarrow> falling ps \<Longrightarrow> ps = [(th, 0)]"
proof (cases ps)
  case (Cons p qs)
  obtain h i where p: "p = (h, i)" by fastforce
  assume t: "tiles 0 ps (2 ^ th)" and f: "falling ps"
  from t have i: "i = 0" and q: "tiles (2 ^ h) qs (2 ^ th)" by (auto simp: Cons p)
  have "(2 :: nat) ^ th < 2 ^ h + 2 ^ h" using f by (intro tiles_below [OF q]) (auto simp: Cons p)
  then have "(2 :: nat) ^ th < 2 ^ Suc h" by simp
  then have "th \<le> h" using power_less_imp_less_exp [of "2 :: nat" th "Suc h"] by simp
  moreover have "h \<le> th" using tiles_mono [OF q] power_le_imp_le_exp [of "2 :: nat" h th] by simp
  moreover have "qs = []" if "h = th"
  proof (cases qs)
    case (Cons r rs)
    obtain j l where r: "r = (j, l)" by fastforce
    from q have t: "2 ^ h = l * 2 ^ j" "tiles (Suc l * 2 ^ j) rs (2 ^ th)" by (simp_all only: Cons r tiles.simps)
    have False using tiles_mono [OF t(2)] unfolding that [symmetric] t(1) by simp
    then show ?thesis ..
  qed
  ultimately show ?thesis by (simp add: Cons p i)
qed simp

lemma tiles_le: "tiles a ps k \<Longrightarrow> p \<in> set ps \<Longrightarrow> 2 ^ fst p \<le> k"
proof -
  assume t: "tiles a ps k" and p: "p \<in> set ps"
  obtain qs rs where "ps = qs @ p # rs" using p by (meson split_list)
  with t obtain c where "tiles c (p # rs) k" by (auto simp: tiles_append)
  then have "Suc (snd p) * 2 ^ fst p \<le> k" by (cases p) (auto dest!: tiles_mono)
  then show ?thesis by simp
qed

lemma tiles_height_le: "tiles a ps k \<Longrightarrow> p \<in> set ps \<Longrightarrow> k \<le> 2 ^ th \<Longrightarrow> fst p \<le> th"
  using tiles_le [of a ps k p] power_le_imp_le_exp [of "2 :: nat" "fst p" th] by (meson le_trans one_less_numeral_iff semiring_norm(76))

lemma tiles_height_less: "tiles a ps k \<Longrightarrow> p \<in> set ps \<Longrightarrow> k < 2 ^ th \<Longrightarrow> fst p < th"
  using tiles_le [of a ps k p] power_less_imp_less_exp [of "2 :: nat" "fst p" th]
  by (meson le_less_trans one_less_numeral_iff semiring_norm(76))

lemma falling_length: "falling ps \<Longrightarrow> (\<And>p. p \<in> set ps \<Longrightarrow> fst p < th) \<Longrightarrow> length ps \<le> th"
proof -
  assume f: "falling ps" and p: "\<And>p. p \<in> set ps \<Longrightarrow> fst p < th"
  have "distinct (map fst ps)" using f by (induction ps) auto
  then have "length ps = card (set (map fst ps))" using distinct_card [of "map fst ps"] by simp
  also have "\<dots> \<le> card {..<th}" using p by (intro card_mono) auto
  finally show ?thesis by simp
qed

section \<open>The stack is a tiling\<close>

locale plain_leaves = seeded hb ctx for hb :: hashblocks_fn and ctx :: spx_ctx +
  fixes gen :: plain_gen_leaf and L :: "nat \<Rightarrow> bytes" and addr0 :: spx_addr and off :: u32 and th :: nat
  assumes th_small: "th < 32"
    and length_L: "length (L i) = 16"
    and gen_L: "k < 2 ^ th \<Longrightarrow> agree_except node_fields addr addr0 \<Longrightarrow> gen (of_nat k + off) addr = L k"
begin

definition N :: "nat \<Rightarrow> nat \<Rightarrow> bytes" where "N = merkle_node hb ctx addr0 off L"

lemma length_N [simp]: "length (N h i) = 16"
  unfolding N_def by (rule length_merkle_node) (rule length_L)

definition rep :: "(nat \<times> nat) list \<Rightarrow> bytes \<Rightarrow> u32 list \<Rightarrow> nat \<Rightarrow> bool" where
  "rep ps stack heights offset \<longleftrightarrow> offset = length ps \<and> length stack = 16 * Suc th \<and> length heights = Suc th \<and> length ps \<le> Suc th \<and>
     (\<forall>j<length ps. heights ! j = of_nat (fst (ps ! j)) \<and> get_bytes (16 * j) 16 stack = N (fst (ps ! j)) (snd (ps ! j)))"

lemma rep_push:
  assumes "rep ps stack heights offset" "length ps \<le> th"
  shows "rep (ps @ [(h, i)]) (put_bytes (16 * length ps) (N h i) stack) (heights[length ps := of_nat h]) (Suc offset)"
proof -
  have l: "length stack = 16 * Suc th" "length heights = Suc th" "length ps < Suc th" using assms by (simp_all add: rep_def)
  then have "get_bytes (16 * j) 16 (put_bytes (16 * length ps) (N h i) stack) = (if j = length ps then N h i else get_bytes (16 * j) 16 stack)"
    if "j < Suc th" for j
    using that by (simp add: get_put_piece)
  with l show ?thesis using assms(1) by (auto simp: rep_def nth_append less_Suc_eq)
qed

lemma rep_pop: "rep (ps @ [p]) stack heights offset \<Longrightarrow> rep ps stack heights (offset - 1)"
  unfolding rep_def by (auto simp: nth_append)

lemma rep_top: "rep (ps @ [(h, i)]) stack heights offset \<Longrightarrow> offset = Suc (length ps) \<and> heights ! length ps = of_nat h \<and>
    get_bytes (16 * length ps) 16 stack = N h i"
  unfolding rep_def by (auto simp: nth_append)

lemma join_node:
  assumes "agree_except node_fields addr addr0" "h < th" "odd i"
  defines "addr' \<equiv> set_tree_index (set_tree_height addr (of_nat h + 1)) (of_nat (i div 2) + drop_bit (Suc h) off)"
  shows "thash hb (N h (i - 1) @ N h i) 2 ctx addr' = N (Suc h) (i div 2)" "agree_except node_fields addr' addr0"
proof -
  have i: "i - 1 = 2 * (i div 2)" "i = Suc (2 * (i div 2))" using assms(3) by (auto elim: oddE)
  have "addr' = node_addr addr0 off (Suc h) (i div 2)"
    unfolding addr'_def node_addr_def using node_addr_unique [OF assms(1)] by (simp add: add.commute)
  then show "thash hb (N h (i - 1) @ N h i) 2 ctx addr' = N (Suc h) (i div 2)"
    unfolding N_def by (subst (2) i(2), subst i(1)) simp
  show "agree_except node_fields addr' addr0"
    unfolding addr'_def by (rule agree_node_set) (rule assms(1))
qed

lemma th_pow: "2 ^ th < (2::nat) ^ 32"
  using th_small by (metis one_less_numeral_iff power_strict_increasing_iff semiring_norm(76))

text \<open>The two top nodes of a tiling that ends at \<open>k + 1\<close>.\<close>

lemma top_two:
  assumes "tiles 0 (rs @ [(h, l), (h, i)]) (Suc k)" "\<forall>p\<in>set rs. h < fst p"
  shows "odd i" "l = i - 1" "k div 2 ^ Suc h = i div 2" "Suc i * 2 ^ h = Suc k" "tiles 0 (rs @ [(Suc h, i div 2)]) (Suc k)"
proof -
  from assms(1) have a: "tiles 0 rs (l * 2 ^ h)" and l: "Suc l * 2 ^ h = i * 2 ^ h" and k: "Suc i * 2 ^ h = Suc k"
    by (auto simp: tiles_append)
  have il: "i = Suc l" using l by (metis mult_cancel2 power_not_zero zero_neq_numeral)
  have "2 ^ Suc h dvd l * 2 ^ h" using assms(2) by (intro tiles_dvd [OF a]) (auto simp: Suc_le_eq)
  then have ev: "even l" by simp
  then obtain n where n: "l = 2 * n" by (elim evenE)
  show "odd i" "l = i - 1" "Suc i * 2 ^ h = Suc k" using il ev k by simp_all
  have d: "Suc k = 2 ^ Suc h * Suc n" using k il n by (simp add: algebra_simps)
  show "k div 2 ^ Suc h = i div 2" using div_of_Suc_mult [of k "2 ^ Suc h" "Suc n"] d il n by simp
  show "tiles 0 (rs @ [(Suc h, i div 2)]) (Suc k)"
    using a d il n by (simp add: tiles_append) (metis mult.commute mult.left_commute)
qed

lemma single_top:
  assumes "tiles 0 (qs @ [(h, i)]) (Suc k)" "\<forall>p\<in>set qs. h < fst p" "auth_ok N th leaf (done_at leaf k (Suc h)) auth"
  shows "auth_ok N th leaf (\<lambda>h. Suc (sibling leaf h) * 2 ^ h \<le> Suc k) auth"
proof (rule auth_ok_mono [OF assms(3)])
  fix j assume j: "j < th" "Suc (sibling leaf j) * 2 ^ j \<le> Suc k"
  have "j < Suc h" if "Suc (sibling leaf j) * 2 ^ j = Suc k"
  proof (rule ccontr)
    assume "\<not> j < Suc h"
    then have "2 ^ Suc h dvd (2 :: nat) ^ j" by (intro le_imp_power_dvd) simp
    then have k: "2 ^ Suc h dvd Suc k" using that by (metis dvd_mult)
    from assms(1) have a: "tiles 0 qs (i * 2 ^ h)" and e: "Suc i * 2 ^ h = Suc k" by (auto simp: tiles_append)
    have "2 ^ Suc h dvd i * 2 ^ h" using assms(2) by (intro tiles_dvd [OF a]) (auto simp: Suc_le_eq)
    then have "even i" by simp
    moreover have "2 ^ Suc h dvd Suc i * 2 ^ h" unfolding e by (rule k)
    then have "odd i" using dvd_times_right_cancel_iff [of "2 ^ h" 2 "Suc i"] by (simp del: mult_Suc)
    ultimately show False by simp
  qed
  then show "done_at leaf k (Suc h) j" using j(2) by (auto simp: done_at_def le_Suc_eq)
qed

lemma auth_step:
  assumes "auth_ok N th leaf (done_at leaf k h) auth" "h \<le> th" "k < 2 ^ th" "unat leaf < 2 ^ th" "x = N h (k div 2 ^ h)"
  shows "auth_ok N th leaf (done_at leaf k (Suc h))
    (if drop_bit h leaf XOR 1 = drop_bit h (of_nat k) then put_bytes (h * 16) x auth else auth)"
proof -
  have uk: "unat (of_nat k :: u32) = k" using assms(3) th_pow by (simp add: unat_of_nat_small)
  have c: "drop_bit h leaf XOR 1 = drop_bit h (of_nat k) \<longleftrightarrow> k div 2 ^ h = sibling leaf h"
    by (auto simp: sibling_def word_unat_eq_iff unat_drop_bit uk)
  show ?thesis
  proof (cases "h < th")
    case True
    with auth_ok_step [OF assms(1) True] show ?thesis by (auto simp: c assms(5) mult.commute split: if_splits)
  next
    case False
    then have "h = th" "k div 2 ^ h = 0" "unat leaf div 2 ^ h = 0" using assms(2-4) by simp_all
    moreover have "auth_ok N th leaf (done_at leaf k (Suc h)) auth"
      by (rule auth_ok_mono [OF assms(1)]) (use False in \<open>auto simp: done_at_def\<close>)
    moreover have "\<not> drop_bit h leaf XOR 1 = drop_bit h (of_nat k)"
      unfolding c using calculation(2,3) by (simp add: sibling_cases)
    ultimately show ?thesis by simp
  qed
qed

lemma join_correct:
  assumes "k < 2 ^ th" "unat leaf < 2 ^ th"
    and "tiles 0 (qs @ [(h, i)]) (Suc k)" "falling qs" "\<forall>p\<in>set qs. h \<le> fst p" "rep (qs @ [(h, i)]) stack heights offset"
    and "auth_ok N th leaf (done_at leaf k (Suc h)) auth" "agree_except node_fields addr addr0"
  shows "\<exists>ps stack' heights' offset' auth' addr'. treehash_join hb ctx leaf off (of_nat k) stack heights offset auth addr =
      (stack', heights', offset', auth', addr') \<and> tiles 0 ps (Suc k) \<and> falling ps \<and> rep ps stack' heights' offset' \<and>
      auth_ok N th leaf (\<lambda>h. Suc (sibling leaf h) * 2 ^ h \<le> Suc k) auth' \<and> agree_except node_fields addr' addr0"
  using assms(3-8)
proof (induction "length qs" arbitrary: qs h i stack heights offset auth addr)
  case 0
  then have "falling (qs @ [(h, i)])" "\<not> 2 \<le> offset" by (simp_all add: rep_def)
  moreover from this(2) have "treehash_join hb ctx leaf off (of_nat k) stack heights offset auth addr = (stack, heights, offset, auth, addr)"
    by (simp add: treehash_join.simps)
  moreover have "auth_ok N th leaf (\<lambda>h. Suc (sibling leaf h) * 2 ^ h \<le> Suc k) auth"
    using single_top [OF 0(2) _ 0(6)] 0(1) by simp
  ultimately show ?case using 0 by blast
next
  case (Suc n)
  obtain rs h' l where qs: "qs = rs @ [(h', l)]" using Suc.hyps(2) by (metis length_Suc_conv_rev prod.collapse)
  note rt = rep_top [OF Suc.prems(4)]
  have rp: "rep qs stack heights (offset - 1)" by (rule rep_pop [OF Suc.prems(4)])
  note rt' = rep_top [OF rp [unfolded qs]]
  have k: "Suc k \<le> 2 ^ th" using assms(1) by simp
  have hth: "h \<le> th" "h' \<le> th"
    using tiles_height_le [OF Suc.prems(1) _ k, of "(h, i)"] tiles_height_le [OF Suc.prems(1) _ k, of "(h', l)"] by (simp_all add: qs)
  have uh: "unat (of_nat h :: u32) = h" "unat (of_nat h' :: u32) = h'" using hth th_small by (simp_all add: unat_of_nat_small)
  have idx: "offset - 1 = length qs" "offset - 2 = length rs" "2 \<le> offset" using rt by (simp_all add: qs)
  have hs: "heights ! (offset - 1) = of_nat h" "heights ! (offset - 2) = of_nat h'" using rt rt' by (simp_all add: idx)
  show ?case
  proof (cases "h' = h")
    case False
    then have "h < h'" using Suc.prems(3) by (auto simp: qs)
    then have lt: "\<forall>p\<in>set qs. h < fst p" using Suc.prems(2) by (auto simp: qs sorted_wrt_append)
    then have "falling (qs @ [(h, i)])" using Suc.prems(2) by (simp add: sorted_wrt_append)
    moreover have "heights ! (offset - 1) \<noteq> heights ! (offset - 2)" using False uh unfolding hs by metis
    then have "treehash_join hb ctx leaf off (of_nat k) stack heights offset auth addr = (stack, heights, offset, auth, addr)"
      by (simp add: treehash_join.simps)
    ultimately show ?thesis
      using Suc.prems single_top [OF Suc.prems(1) lt Suc.prems(5)] by blast
  next
    case True
    have lt: "\<forall>p\<in>set rs. h < fst p" using Suc.prems(2) by (auto simp: qs True sorted_wrt_append)
    note tt = top_two [of rs h l i k, OF Suc.prems(1) [unfolded qs True append_assoc append_Cons append_Nil] lt]
    have h: "Suc h \<le> th" using tiles_height_le [OF tt(5) _ k, of "(Suc h, i div 2)"] by simp
    define w :: u32 where "w = of_nat (Suc h)"
    have e: "of_nat h + 1 = w" by (simp add: w_def)
    define addr' where "addr' = set_tree_index (set_tree_height addr w) (of_nat (i div 2) + drop_bit (Suc h) off)"
    have jn: "thash hb (N h (i - 1) @ N h i) 2 ctx addr' = N (Suc h) (i div 2)" "agree_except node_fields addr' addr0"
      unfolding addr'_def e [symmetric] using join_node [OF Suc.prems(6) _ tt(1), of h] h by simp_all
    define stack' heights' where "stack' = put_bytes (16 * length rs) (N (Suc h) (i div 2)) stack"
      and "heights' = heights[length rs := w]"
    have r: "rep (rs @ [(Suc h, i div 2)]) stack' heights' (Suc (length rs))"
      unfolding stack'_def heights'_def w_def
      using rep_push [OF rep_pop [OF rp [unfolded qs]], of "Suc h" "i div 2"] rt' rp by (simp add: rep_def)
    define auth' where "auth' = (if drop_bit (Suc h) leaf XOR 1 = drop_bit (Suc h) (of_nat k)
        then put_bytes (Suc h * 16) (N (Suc h) (i div 2)) auth else auth)"
    have a: "auth_ok N th leaf (done_at leaf k (Suc (Suc h))) auth'"
      unfolding auth'_def by (rule auth_step [OF Suc.prems(5) h assms(1,2)]) (simp only: tt(3))
    have u: "unat w = Suc h" unfolding w_def by (rule unat_of_nat_small) (use h th_small in simp)
    have "i div 2 < 2 ^ 32" unfolding tt(3) [symmetric] using assms(1) th_pow by (meson div_le_dividend le_less_trans less_trans)
    moreover have "unat (of_nat k :: u32) = k" using assms(1) th_pow by (intro unat_of_nat_small) simp
    ultimately have d: "drop_bit (Suc h) (of_nat k :: u32) = of_nat (i div 2)"
      by (intro word_eq_unatI) (simp only: unat_drop_bit tt(3), simp add: unat_of_nat_small)
    have g: "get_bytes (length rs * 16) 32 stack = N h (i - 1) @ N h i"
      using rt rt' tt(2) take_add [of 16 16 "drop (16 * length rs) stack"] by (simp add: qs True get_bytes_def mult.commute [of _ 16] add.commute)
    have o: "offset - 1 = Suc (length rs)" "heights ! Suc (length rs) = of_nat h" "heights ! length rs = of_nat h" "heights' ! length rs = w"
      using idx hs rt' rp by (simp_all add: True rep_def qs heights'_def)
    have st: "put_bytes (length rs * 16) (thash hb (get_bytes (length rs * 16) (2 * 16) stack) 2 ctx addr') stack = stack'"
      by (simp add: stack'_def g jn(1) [simplified] mult.commute)
    have x: "get_bytes (length rs * 16) 16 stack' = N (Suc h) (i div 2)" using rep_top [OF r] by (simp add: mult.commute)
    have c: "2 \<le> offset \<and> heights ! (offset - 1) = heights ! (offset - 2)" using idx(3) hs True by simp
    have "treehash_join hb ctx leaf off (of_nat k) stack heights offset auth addr =
        treehash_join hb ctx leaf off (of_nat k) stack' heights' (Suc (length rs)) auth' addr'"
      by (subst treehash_join.simps, subst if_P [OF c])
        (simp only: Let_def idx(2) o(1-3) diff_Suc_1 e u d SPX_N_def addr'_def [symmetric] st heights'_def [symmetric] o(4) x auth'_def)
    then show ?thesis
      using Suc.hyps(1) [of rs "Suc h" "i div 2" stack' heights' "Suc (length rs)" auth' addr'] Suc.hyps(2) Suc.prems(2) tt(5) lt r a jn(2)
      by (simp add: qs sorted_wrt_append Suc_le_eq)
  qed
qed

lemma loop_correct:
  assumes "unat leaf < 2 ^ th" "k \<le> 2 ^ th" "tiles 0 ps k" "falling ps" "rep ps stack heights offset"
    and "auth_ok N th leaf (\<lambda>h. Suc (sibling leaf h) * 2 ^ h \<le> k) auth" "agree_except node_fields addr addr0"
  shows "\<exists>addr'. treehash_loop hb ctx leaf off gen (2 ^ th) (of_nat k) stack heights offset auth addr =
      (N th 0, auth_path_of hb ctx addr0 off L th leaf, addr') \<and> agree_except node_fields addr' addr0"
  using assms(2-7)
proof (induction "2 ^ th - k" arbitrary: k ps stack heights offset auth addr)
  have um: "unat (2 ^ th :: u32) = 2 ^ th" using unat_of_nat_small [of "2 ^ th", where ?'a = 32] th_pow by simp
  case 0
  then have k: "k = 2 ^ th" by simp
  then have "ps = [(th, 0)]" using tiles_full 0 by blast
  then have "get_bytes 0 16 stack = N th 0" using 0 by (simp add: rep_def)
  moreover have "\<not> (of_nat k :: u32) < 2 ^ th" using k um by (simp add: word_less_nat_alt)
  moreover have "auth = auth_path_of hb ctx addr0 off L th leaf"
    using 0 k assms(1) by (intro auth_complete) (simp_all add: N_def)
  ultimately show ?case using 0 by (subst treehash_loop.simps) simp
next
  have um: "unat (2 ^ th :: u32) = 2 ^ th" using unat_of_nat_small [of "2 ^ th", where ?'a = 32] th_pow by simp
  case (Suc n)
  then have k: "k < 2 ^ th" by simp
  then have uk: "unat (of_nat k :: u32) = k" using th_pow by (intro unat_of_nat_small) simp
  have lt: "(of_nat k :: u32) < 2 ^ th" using k uk um by (simp add: word_less_nat_alt)
  have hts: "fst p < th" if "p \<in> set ps" for p using tiles_height_less [OF Suc.prems(2) that k] .
  have len: "length ps \<le> th" using falling_length [OF Suc.prems(3) hts] .
  define stack1 where "stack1 = put_bytes (offset * 16) (gen (of_nat k + off) addr) stack"
  have off: "offset = length ps" using Suc.prems(4) by (simp add: rep_def)
  have leafk: "gen (of_nat k + off) addr = N 0 k" using gen_L [OF k Suc.prems(6)] by (simp add: N_def)
  have r: "rep (ps @ [(0, k)]) stack1 (heights[offset := 0]) (Suc offset)"
    using rep_push [OF Suc.prems(4) len, of 0 k] by (simp add: stack1_def leafk off mult.commute)
  have t: "tiles 0 (ps @ [(0, k)]) (Suc k)" using Suc.prems(2) by (auto simp: tiles_append)
  define auth1 where "auth1 = (if leaf XOR 1 = of_nat k then put_bytes 0 (get_bytes (offset * 16) 16 stack1) auth else auth)"
  have x: "get_bytes (offset * 16) 16 stack1 = N 0 k" using rep_top [OF r] by (simp add: off mult.commute)
  have "auth_ok N th leaf (done_at leaf k 0) auth" using Suc.prems(5) by (simp add: done_at_def [abs_def])
  then have a: "auth_ok N th leaf (done_at leaf k (Suc 0)) auth1"
    using auth_step [of leaf k 0 auth "N 0 k"] k assms(1) unfolding auth1_def x by (auto split: if_splits)
  obtain ps' stack' heights' offset' auth' addr' where j: "treehash_join hb ctx leaf off (of_nat k) stack1 (heights[offset := 0]) (Suc offset) auth1 addr =
      (stack', heights', offset', auth', addr')" "tiles 0 ps' (Suc k)" "falling ps'" "rep ps' stack' heights' offset'"
    "auth_ok N th leaf (\<lambda>h. Suc (sibling leaf h) * 2 ^ h \<le> Suc k) auth'" "agree_except node_fields addr' addr0"
    using join_correct [OF k assms(1) t Suc.prems(3) _ r a Suc.prems(6)] by auto
  have "treehash_loop hb ctx leaf off gen (2 ^ th) (of_nat k) stack heights offset auth addr =
      treehash_loop hb ctx leaf off gen (2 ^ th) (of_nat (Suc k)) stack' heights' offset' auth' addr'"
    by (subst treehash_loop.simps, subst if_P [OF lt])
      (simp only: Let_def SPX_N_def add_diff_cancel_right' Suc_eq_plus1 [symmetric] diff_Suc_1 stack1_def [symmetric] auth1_def [symmetric]
        j(1) prod.case, simp only: of_nat_Suc add.commute)
  then show ?case using Suc.hyps(1) [OF _ _ j(2-6)] Suc.hyps(2) k by simp
qed

theorem treehash_correct:
  assumes "length auth_path = 16 * th" "valid_addr addr0" "unat leaf < 2 ^ th"
  shows "\<exists>addr'. treehash hb auth_path ctx leaf off (of_nat th) gen addr0 =
      (merkle_node hb ctx addr0 off L th 0, auth_path_of hb ctx addr0 off L th leaf, addr') \<and> agree_except node_fields addr' addr0"
proof -
  have uth: "unat (of_nat th :: u32) = th" using th_small by (simp add: unat_of_nat_small)
  have "rep [] (replicate (16 * Suc th) 0) (replicate (Suc th) 0) 0" by (simp add: rep_def)
  moreover have "auth_ok N th leaf (\<lambda>h. Suc (sibling leaf h) * 2 ^ h \<le> 0) auth_path" using assms(1) by (simp add: auth_ok_def)
  ultimately show ?thesis
    using loop_correct [OF assms(3), of 0 "[]" "replicate (16 * Suc th) 0" "replicate (Suc th) 0" 0 auth_path addr0] assms(2)
    by (simp add: treehash_def uth agree_except_refl N_def mult.commute)
qed

end

text \<open>The FORS leaves, for a generator that starts from the same info each time.\<close>

sublocale fors_tree \<subseteq> plain: plain_leaves hb ctx "\<lambda>x addr. fst (fors_gen_leafx1 hb ctx x \<lparr>leaf_addrx = fors_base fors_addr\<rparr>)"
    "\<lambda>i. fors_leaf hb ctx fors_addr (of_nat i + fors_off t)" "fors_base fors_addr" "fors_off t" 16
proof unfold_locales
  have "fors_info_inv fors_addr 0 \<lparr>leaf_addrx = fors_base fors_addr\<rparr>"
    using base_addr by (simp add: fors_info_inv_def agree_except_refl)
  then show "fst (fors_gen_leafx1 hb ctx (of_nat k + fors_off t) \<lparr>leaf_addrx = fors_base fors_addr\<rparr>) =
      fors_leaf hb ctx fors_addr (of_nat k + fors_off t)" for k
    by (rule fors_gen_leafx1_run)
qed (simp_all add: fors_leaf_def)

end
