(* ===== verification/Wots_Test.thy ===== *)
theory Wots_Test
  imports Wots
begin

text \<open>
  The entry points of \<open>sphincsplus/ref/wots.c\<close> that builds with \<open>BITCOINPQC_ENABLE_TEST_HELPERS\<close> export: the WOTS+C parameters, one
  step of the counter search, and the derivation of the chain lengths with the default limit or a given one.  A
  pointer is an option, a buffer's length argument is the length of the list.
\<close>

record wotsc_params =
  p_n :: u32
  p_w :: u32
  p_logw :: u32
  p_len1 :: u32
  p_len2 :: u32
  p_len :: u32
  p_target :: u32
  p_wots_bytes :: u32
  p_wots_pk_bytes :: u32
  p_fors_bytes :: u32
  p_d :: u32
  p_tree_height :: u32
  p_auth_path_bytes :: u32
  p_signature_bytes :: u32

definition bitcoin_pqc_test_wotsc_params :: "wotsc_params option \<Rightarrow> int \<times> wotsc_params option" where
  "bitcoin_pqc_test_wotsc_params params =
     (case params of
        None \<Rightarrow> (-1, None)
      | Some params \<Rightarrow> (0, Some \<lparr>p_n = of_nat SPX_N, p_w = of_nat SPX_WOTS_W, p_logw = of_nat SPX_WOTS_LOGW, p_len1 = of_nat SPX_WOTS_LEN1,
          p_len2 = of_nat SPX_WOTS_LEN2, p_len = of_nat SPX_WOTS_LEN, p_target = of_nat SPX_WOTSC_TARGET,
          p_wots_bytes = of_nat SPX_WOTS_BYTES, p_wots_pk_bytes = of_nat SPX_WOTS_PK_BYTES, p_fors_bytes = of_nat SPX_FORS_BYTES,
          p_d = of_nat SPX_D, p_tree_height = of_nat SPX_TREE_HEIGHT, p_auth_path_bytes = of_nat (SPX_TREE_HEIGHT * SPX_N),
          p_signature_bytes = of_nat SPX_BYTES\<rparr>))"

definition bitcoin_pqc_test_wotsc_hash_counter ::
    "hashblocks_fn \<Rightarrow> bytes option \<Rightarrow> u32 option \<Rightarrow> bytes option \<Rightarrow> u32 \<Rightarrow> int \<times> bytes option \<times> u32 option" where
  "bitcoin_pqc_test_wotsc_hash_counter hb compressed_msg checksum_out msg counter =
     (case (compressed_msg, checksum_out, msg) of
        (Some buf, Some _, Some m) \<Rightarrow>
          if length buf < SPX_N \<or> length m \<noteq> SPX_N \<or> counter > 0xFFFF then (-1, compressed_msg, checksum_out)
          else (let (digest, checksum) = wotsc_hash_counter hb m counter
                in (0, Some (put_bytes 0 digest buf), Some checksum))
      | _ \<Rightarrow> (-1, compressed_msg, checksum_out))"

text \<open>The output parameters of the two derivations.  A search that reaches the limit leaves the digest of the last counter in
  \<open>compressed_msg\<close>.\<close>

record wotsc_out =
  o_compressed_msg :: "bytes option"
  o_lengths :: "u32 list option"
  o_counter :: "u32 option"
  o_checksum :: "u32 option"

definition wotsc_derive_from ::
    "hashblocks_fn \<Rightarrow> u32 \<Rightarrow> wotsc_out \<Rightarrow> bytes \<Rightarrow> bytes \<Rightarrow> u32 list \<Rightarrow> (int + bytes \<times> u32 \<times> u32) \<times> stats_ptr \<Rightarrow> int \<times> wotsc_out \<times> stats_ptr" where
  "wotsc_derive_from hb max_counter outp m buf lens result =
     (case result of
        (Inl e, g) \<Rightarrow> (-1, outp\<lparr>o_compressed_msg := Some (put_bytes 0 (fst (wotsc_hash_counter hb m max_counter)) buf)\<rparr>, g)
      | (Inr (digest, counter, checksum), g) \<Rightarrow>
          (let lengths = base_w SPX_WOTS_LEN1 digest
           in (0, \<lparr>o_compressed_msg = Some (put_bytes 0 digest buf), o_lengths = Some (lengths @ drop SPX_WOTS_LEN1 lens),
                   o_counter = Some counter, o_checksum = Some checksum\<rparr>, g)))"

definition bitcoin_pqc_test_wotsc_derive ::
    "build_config \<Rightarrow> hashblocks_fn \<Rightarrow> wotsc_out \<Rightarrow> bytes option \<Rightarrow> stats_ptr \<Rightarrow> int \<times> wotsc_out \<times> stats_ptr" where
  "bitcoin_pqc_test_wotsc_derive cfg hb outp msg g =
     (case (o_compressed_msg outp, o_lengths outp, o_counter outp, o_checksum outp, msg) of
        (Some buf, Some lens, Some _, Some _, Some m) \<Rightarrow>
          if length buf < SPX_N \<or> length lens < SPX_WOTS_LEN1 \<or> length m \<noteq> SPX_N then (-1, outp, g)
          else wotsc_derive_from hb (if g \<noteq> None then WOTSC_MAX_COUNTER cfg else 0xFFFF) outp m buf lens
                 (wotsc_compress_message_checked cfg hb m g)
      | _ \<Rightarrow> (-1, outp, g))"

definition bitcoin_pqc_test_wotsc_derive_with_limit ::
    "hashblocks_fn \<Rightarrow> wotsc_out \<Rightarrow> bytes option \<Rightarrow> u32 \<Rightarrow> stats_ptr \<Rightarrow> int \<times> wotsc_out \<times> stats_ptr" where
  "bitcoin_pqc_test_wotsc_derive_with_limit hb outp msg max_counter g =
     (case (o_compressed_msg outp, o_lengths outp, o_counter outp, o_checksum outp, msg) of
        (Some buf, Some lens, Some _, Some _, Some m) \<Rightarrow>
          if length buf < SPX_N \<or> length lens < SPX_WOTS_LEN1 \<or> length m \<noteq> SPX_N \<or> max_counter > 0xFFFF then (-1, outp, g)
          else wotsc_derive_from hb max_counter outp m buf lens (wotsc_compress_message_checked_bounded hb m max_counter g)
      | _ \<Rightarrow> (-1, outp, g))"

section \<open>What the derivation returns\<close>

text \<open>The arguments the helpers accept.\<close>

definition derive_args :: "wotsc_out \<Rightarrow> bytes option \<Rightarrow> bool" where
  "derive_args outp msg \<longleftrightarrow> (\<exists>buf lens m. o_compressed_msg outp = Some buf \<and> o_lengths outp = Some lens \<and> o_counter outp \<noteq> None \<and>
     o_checksum outp \<noteq> None \<and> msg = Some m \<and> SPX_N \<le> length buf \<and> SPX_WOTS_LEN1 \<le> length lens \<and> length m = SPX_N)"

text \<open>With acceptable arguments the helper succeeds exactly when a counter within the limit is good; it then returns the least one, its
  digest and the chain lengths that \<open>chain_lengths\<close> derives from it.  With others it fails and writes nothing.\<close>

lemma derive_with_limit_cases:
  shows "\<not> derive_args outp msg \<or> max_counter > 0xFFFF \<Longrightarrow>
      bitcoin_pqc_test_wotsc_derive_with_limit hb outp msg max_counter g = (-1, outp, g)"
    and "derive_args outp (Some m) \<Longrightarrow> max_counter \<le> 0xFFFF \<Longrightarrow>
      (case bitcoin_pqc_test_wotsc_derive_with_limit hb outp (Some m) max_counter g of (rc, outp', g') \<Rightarrow>
         if \<exists>c\<le>max_counter. wotsc_good hb m c
         then rc = 0 \<and> (\<exists>c\<le>max_counter. wotsc_good hb m c \<and> (\<forall>c'<c. \<not> wotsc_good hb m c') \<and> o_counter outp' = Some c \<and>
           o_checksum outp' = Some (of_nat SPX_WOTSC_TARGET) \<and>
           map_option (take SPX_WOTS_LEN1) (o_lengths outp') = Some (base_w SPX_WOTS_LEN1 (fst (wotsc_hash_counter hb m c))))
         else rc = -1 \<and> o_counter outp' = o_counter outp)"
proof -
  show "bitcoin_pqc_test_wotsc_derive_with_limit hb outp msg max_counter g = (-1, outp, g)"
    if "\<not> derive_args outp msg \<or> max_counter > 0xFFFF"
    using that unfolding derive_args_def
    by (auto simp: bitcoin_pqc_test_wotsc_derive_with_limit_def not_less split: option.split)
next
  assume a: "derive_args outp (Some m)" "max_counter \<le> 0xFFFF"
  have "length (base_w_loop x n i tot bits out) = length out + n" for x n i tot bits out
    by (induction x n i tot bits out rule: base_w_loop.induct) (auto simp: Let_def split: if_splits)
  then have l: "length (base_w 16 x) = 16" for x by (simp add: base_w_def)
  from a obtain buf lens where "o_compressed_msg outp = Some buf" "o_lengths outp = Some lens" "16 \<le> length buf" "16 \<le> length lens" "length m = 16"
    "o_counter outp \<noteq> None" "o_checksum outp \<noteq> None"
    by (auto simp: derive_args_def)
  then have r: "bitcoin_pqc_test_wotsc_derive_with_limit hb outp (Some m) max_counter g =
      wotsc_derive_from hb max_counter outp m buf lens (wotsc_compress_message_checked_bounded hb m max_counter g)"
    using a(2) by (auto simp: bitcoin_pqc_test_wotsc_derive_with_limit_def)
  show "case bitcoin_pqc_test_wotsc_derive_with_limit hb outp (Some m) max_counter g of (rc, outp', g') \<Rightarrow>
         if \<exists>c\<le>max_counter. wotsc_good hb m c
         then rc = 0 \<and> (\<exists>c\<le>max_counter. wotsc_good hb m c \<and> (\<forall>c'<c. \<not> wotsc_good hb m c') \<and> o_counter outp' = Some c \<and>
           o_checksum outp' = Some (of_nat SPX_WOTSC_TARGET) \<and>
           map_option (take SPX_WOTS_LEN1) (o_lengths outp') = Some (base_w SPX_WOTS_LEN1 (fst (wotsc_hash_counter hb m c))))
         else rc = -1 \<and> o_counter outp' = o_counter outp"
    unfolding r by (rule wotsc_compress_cases [of hb m max_counter]) (auto simp: wotsc_derive_from_def l)
qed

end
