(* ===== verification/Tree_Properties.thy ===== *)
theory Tree_Properties
  imports Sample_Backend Treehash_Plain Wots_Test
begin

text \<open>
  Properties of the components below the signature scheme: the FORS+C few-time signature with its
  worker pool, the WOTS+C one-time signature with its counter search, the Merkle trees and the
  FORS+C salt search.  Each one is stated over the translated functions and holds for every hash
  that meets the block-function contract.
\<close>

section \<open>FORS+C\<close>

text \<open>C14. FORS+C signatures round trip, whatever the threads do.  For every worker pool that joins its
  threads, \<open>fors_sign\<close> writes the same 1904 bytes and the same public key, and \<open>fors_pk_from_sig\<close>
  recovers that public key from the signature, also when more signature bytes follow.\<close>

theorem fors_roundtrip:
  assumes "seeded hb ctx" "valid_addr fors_addr" "joins_all rt" "joins_all rt'" "length sig = 1904" "length sig' = 1904"
  shows "\<exists>s pk. fors_sign hb rt sig m ctx fors_addr = (s, pk) \<and> fors_sign hb rt' sig' m ctx fors_addr = (s, pk) \<and>
    length s = 1904 \<and> fors_pk_from_sig hb (s @ rest) m ctx fors_addr = pk"
  using seeded.fors_sign_correct [OF assms(1,2,3,5)] seeded.fors_sign_correct [OF assms(1,2,4,6)]
    seeded.length_fors_sig [OF assms(1)] seeded.fors_pk_from_sig_correct [OF assms(1,2)] by simp

definition six_threads :: fors_threads where
  "six_threads = \<lparr>ft_knobs = True, ft_env = Some ''6'', ft_spawn = (\<lambda>_. True), ft_order = (\<lambda>ls. rev (concat ls))\<rparr>"

theorem fors_roundtrip_witness:
  "\<exists>s pk. fors_sign crypto_hashblocks_sha256_ref no_threads (replicate 1904 0) (replicate 16 5) (ref_ctx 3 (replicate 16 1)) zero_addr = (s, pk) \<and>
    fors_sign crypto_hashblocks_sha256_ref six_threads (replicate 1904 9) (replicate 16 5) (ref_ctx 3 (replicate 16 1)) zero_addr = (s, pk) \<and>
    fors_pk_from_sig crypto_hashblocks_sha256_ref (s @ [1]) (replicate 16 5) (ref_ctx 3 (replicate 16 1)) zero_addr = pk"
proof -
  have "joins_all six_threads" by (simp add: joins_all_def six_threads_def)
  from fors_roundtrip [OF ref_seeded.seeded_axioms valid_zero_addr joins_all_no_threads this length_replicate length_replicate]
  show ?thesis by blast
qed

text \<open>C15. The launch loop partitions the trees.  With any number of workers from one to seven and any pattern of failing
  thread creations, the launched workers cover a prefix of the seven trees, each tree once and in order, and
  cover all seven when no creation failed.\<close>

theorem launch_partition:
  assumes "1 \<le> unat workers" "unat workers \<le> 7" "fors_launch_loop rt workers 0 0 [] = (args, start, failed)"
  shows "concat (map fors_sign_worker args) = [0..<unat start] \<and> unat start \<le> 7 \<and> (\<not> failed \<longrightarrow> unat start = 7)"
  using fors_launch_loop_inv [OF _ assms(2) _ assms(3)] assms(1) by (simp add: word_less_nat_alt)

theorem launch_partition_witness:
  "\<exists>args start failed. fors_launch_loop (six_threads\<lparr>ft_spawn := (\<lambda>t. t \<noteq> 2)\<rparr>) 3 0 0 [] = (args, start, failed) \<and>
    concat (map fors_sign_worker args) = [0..<unat start] \<and> unat start \<le> 7"
proof -
  obtain args start failed where run: "fors_launch_loop (six_threads\<lparr>ft_spawn := (\<lambda>t. t \<noteq> 2)\<rparr>) 3 0 0 [] = (args, start, failed)"
    by (metis prod_cases3)
  from launch_partition [OF _ _ run] run show ?thesis by auto
qed

text \<open>C16. The FORS indices are the 16-bit little-endian words of the digest: seven of them select leaves, the
  eighth is the compressed index, and all are below \<open>2\<^sup>1\<^sup>6\<close>.\<close>

theorem fors_indices:
  assumes "length mhash = 16" "i < 7"
  shows "unat (message_to_indices mhash ! i) = unat (mhash ! (2 * i)) + 256 * unat (mhash ! (2 * i + 1)) \<and>
    unat (message_to_indices mhash ! i) < 2 ^ 16 \<and>
    unat (forsc_compressed_index mhash) = unat (mhash ! 14) + 256 * unat (mhash ! 15)"
  using message_to_indices_word [OF assms] message_to_indices_less [OF assms(2), of mhash] index_word [OF assms(1), of 7]
  by (simp add: forsc_compressed_index_def)

theorem fors_indices_witness:
  "unat (message_to_indices (map of_nat [0..<16]) ! 3) = 6 + 256 * 7 \<and>
   unat (forsc_compressed_index (map of_nat [0..<16])) = 14 + 256 * 15"
  using fors_indices [of "map of_nat [0..<16]" 3] by simp



section \<open>WOTS+C\<close>

text \<open>C18. The counter search returns the least good counter.  \<open>wotsc_compress_message_checked_bounded\<close> returns the digest,
  the counter and the checksum of the least counter within the limit whose digits have the target sum, and the
  signing limit exactly when there is none; the exported \<open>bitcoin_pqc_test_wotsc_derive_with_limit\<close> returns 0 or -1 accordingly, and
  rejects null pointers, wrong sizes and limits above 65535 without writing.\<close>

theorem wotsc_search_least:
  "(case fst (wotsc_compress_message_checked_bounded hb msg max_counter g) of
     Inr (digest, c, csum) \<Rightarrow> wotsc_good hb msg c \<and> c \<le> max_counter \<and> (\<forall>c'<c. \<not> wotsc_good hb msg c') \<and>
       digest = fst (wotsc_hash_counter hb msg c) \<and> csum = of_nat SPX_WOTSC_TARGET
   | Inl e \<Rightarrow> e = BITCOINPQC_SIGN_LIMIT_EXCEEDED \<and> (\<forall>c\<le>max_counter. \<not> wotsc_good hb msg c)) \<and>
   (if derive_args outp (Some msg) \<and> max_counter \<le> 0xFFFF
    then fst (bitcoin_pqc_test_wotsc_derive_with_limit hb outp (Some msg) max_counter g) = (if \<exists>c\<le>max_counter. wotsc_good hb msg c then 0 else -1)
    else bitcoin_pqc_test_wotsc_derive_with_limit hb outp (Some msg) max_counter g = (-1, outp, g))"
proof
  show "case fst (wotsc_compress_message_checked_bounded hb msg max_counter g) of
     Inr (digest, c, csum) \<Rightarrow> wotsc_good hb msg c \<and> c \<le> max_counter \<and> (\<forall>c'<c. \<not> wotsc_good hb msg c') \<and>
       digest = fst (wotsc_hash_counter hb msg c) \<and> csum = of_nat SPX_WOTSC_TARGET
   | Inl e \<Rightarrow> e = BITCOINPQC_SIGN_LIMIT_EXCEEDED \<and> (\<forall>c\<le>max_counter. \<not> wotsc_good hb msg c)"
    by (rule wotsc_compress_cases [of hb msg max_counter]) auto
qed (use derive_with_limit_cases(1) [of outp "Some msg" max_counter hb g] derive_with_limit_cases(2) [of outp msg max_counter hb g]
    in \<open>auto simp flip: not_le split: if_splits\<close>)

theorem wotsc_search_least_witness:
  "(\<exists>digest c csum. fst (wotsc_compress_message_checked_bounded hb_const (replicate 16 1) 9 None) = Inr (digest, c, csum) \<and> c = 0) \<and>
   fst (bitcoin_pqc_test_wotsc_derive_with_limit hb_const \<lparr>o_compressed_msg = Some (replicate 16 0), o_lengths = Some (replicate 16 0),
     o_counter = Some 0, o_checksum = Some 0\<rparr> (Some (replicate 16 1)) 9 None) = 0"
proof -
  let ?o = "\<lparr>o_compressed_msg = Some (replicate 16 0), o_lengths = Some (replicate 16 0), o_counter = Some 0, o_checksum = Some 0\<rparr>"
  have g: "wotsc_good hb_const (replicate 16 1) c" for c by (rule const_wotsc_good)
  have "\<not> (\<forall>c\<le>9. \<not> wotsc_good hb_const (replicate 16 1) c)" "\<exists>c\<le>9. wotsc_good hb_const (replicate 16 1) c" using g by blast+
  moreover have "c = 0" if "\<forall>c'<c. \<not> wotsc_good hb_const (replicate 16 1) c'" for c :: u32
    using that g by (metis word_gt_0)
  moreover have "derive_args ?o (Some (replicate 16 1))" "(9 :: u32) \<le> 0xFFFF" by (simp_all add: derive_args_def)
  ultimately show ?thesis
    using wotsc_search_least [where hb = hb_const and msg = "replicate 16 1" and max_counter = 9 and g = None and outp = ?o]
    by (auto split: sum.splits)
qed

text \<open>C19. One-time signatures do not extend to each other.  The sixteen chain positions that \<open>chain_lengths\<close> gives a message
  are at most 255 and sum to 2040; so when every position of one message is at most that of another, as it
  must be for someone who can only walk chains forward, the positions are the same.\<close>

theorem chain_positions_antichain:
  assumes "sha256_backend hb" "fst (chain_lengths cfg hb msg g) = Inr xs" "fst (chain_lengths cfg' hb msg' g') = Inr ys"
    and "\<And>i. i < 16 \<Longrightarrow> unat (xs ! i) \<le> unat (ys ! i)"
  shows "xs = ys \<and> length xs = 16 \<and> (\<forall>i<16. unat (xs ! i) \<le> 255) \<and> (\<Sum>i<16. unat (xs ! i)) = SPX_WOTSC_TARGET"
proof -
  note X = sha256_backend.chain_lengths_digits [OF assms(1,2)] and Y = sha256_backend.chain_lengths_digits [OF assms(1,3)]
  have s: "(\<Sum>i<16. unat (xs ! i)) = SPX_WOTSC_TARGET" "(\<Sum>i<16. unat (ys ! i)) = SPX_WOTSC_TARGET"
    by (rule sha256_backend.chain_lengths_sum [OF assms(1,2)], rule sha256_backend.chain_lengths_sum [OF assms(1,3)])
  have "unat (xs ! i) = unat (ys ! i)" if "i < 16" for i
    using sum_mono_inv [OF _ _ _ finite_lessThan, of "\<lambda>i. unat (xs ! i)" 16 "\<lambda>i. unat (ys ! i)" i] s assms(4) that by simp
  then have "xs = ys" using X(1) Y(1) by (auto intro!: nth_equalityI word_eq_unatI)
  with X s(1) show ?thesis by simp
qed

theorem chain_positions_antichain_witness:
  "\<exists>xs. fst (chain_lengths default_config hb_const [1, 2] None) = Inr xs \<and> (\<Sum>i<16. unat (xs ! i)) = 2040"
proof -
  obtain xs where "fst (chain_lengths default_config hb_const [1, 2] None) = Inr xs"
    by (metis const_chain_lengths fst_conv)
  from chain_positions_antichain [OF const256.sha256_backend_axioms this this] this show ?thesis by simp
qed

section \<open>Merkle trees\<close>

text \<open>C20. Contract of \<open>merkle_sign\<close>: when the counter search fails, its code is returned and neither the signature nor the
  root is touched; otherwise the signature is the WOTS+C signature of the root below followed by the authentication path, the
  root is the Merkle root of the 64 WOTS+C public keys, and the statistics are those of the search.\<close>

theorem merkle_sign_contract:
  assumes "seeded hb ctx" "valid_addr wots_addr" "valid_addr tree_addr" "length sig = 352" "unat idx < 2 ^ SPX_TREE_HEIGHT"
    and "merkle_sign cfg hb sig root ctx wots_addr tree_addr idx g = (res, sig', root', tree_addr', g')"
  shows "case chain_lengths cfg hb root g of
      (Inl e, g1) \<Rightarrow> res = e \<and> sig' = sig \<and> root' = root \<and> g' = g1
    | (Inr steps, g1) \<Rightarrow> res = 0 \<and> sig' = subtree_sig hb ctx wots_addr tree_addr steps idx \<and>
        root' = subtree_root hb ctx wots_addr tree_addr \<and> g' = g1"
proof -
  have idx: "unat idx < 2 ^ 6" "idx \<noteq> SPX_NO_SIGN_LEAF"
    using assms(5) by (auto simp: SPX_NO_SIGN_LEAF_def unsigned_minus_1_eq_mask mask_eq_exp_minus_1)
  obtain r g1 where c: "chain_lengths cfg hb root g = (r, g1)" by fastforce
  show ?thesis
  proof (cases r)
    case (Inl e)
    then show ?thesis using seeded.merkle_sign_fail [OF assms(1) _ idx(2)] c assms(6) by simp
  next
    case (Inr steps)
    then show ?thesis using seeded.merkle_sign_ok [OF assms(1-4) idx(1)] c assms(6) by fastforce
  qed
qed

theorem merkle_sign_contract_witness:
  "\<exists>steps sig' root' t g'. merkle_sign default_config hb_const (replicate 352 0) (replicate 16 3) (key_ctx hb_const const_sk) zero_addr
      zero_addr 5 None = (0, sig', root', t, g') \<and> sig' = subtree_sig hb_const (key_ctx hb_const const_sk) zero_addr zero_addr steps 5"
proof -
  note S = const256.seeded_key_ctx [OF length_const_sk]
  obtain steps g1 where c: "chain_lengths default_config hb_const (replicate 16 3) None = (Inr steps, g1)"
    by (rule const_chain_lengths)
  obtain res sig' root' t g' where run: "merkle_sign default_config hb_const (replicate 352 0) (replicate 16 3)
      (key_ctx hb_const const_sk) zero_addr zero_addr 5 None = (res, sig', root', t, g')" by (metis prod_cases5)
  from merkle_sign_contract [OF S valid_zero_addr valid_zero_addr length_replicate _ run] c run
  show ?thesis by auto
qed

text \<open>C21. One layer round trips.  From what \<open>merkle_sign\<close> wrote, the verifier's calls (\<open>wots_pk_from_sig\<close>, \<open>thash\<close> of the
  public key, \<open>compute_root\<close>) recover the root that the signer returned, although the verifier searches the counter
  again with the widest limit.\<close>

theorem layer_roundtrip:
  fixes sig :: bytes
  assumes "seeded hb ctx" "valid_config cfg" "valid_addr wots_addr" "valid_addr tree_addr" "length sig = 352" "unat idx < 2 ^ SPX_TREE_HEIGHT"
    and "merkle_sign cfg hb sig root ctx wots_addr tree_addr idx g = (0, sig', root', tree_addr', g')"
  shows "\<exists>pk w' t'. wots_pk_from_sig cfg hb (sig' @ rest) root ctx
        (set_type (set_keypair_addr (subtree_leaf_addr wots_addr) idx) SPX_ADDR_TYPE_WOTS) None = (Inr pk, w', None) \<and>
      compute_root hb (thash hb pk SPX_WOTS_LEN ctx (set_keypair_addr (subtree_pk_addr wots_addr) idx)) idx 0
        (drop SPX_WOTS_BYTES (sig' @ rest)) (of_nat SPX_TREE_HEIGHT) ctx (set_type tree_addr SPX_ADDR_TYPE_HASHTREE) = (root', t')"
proof -
  have idx: "unat idx < 2 ^ 6" "idx \<noteq> SPX_NO_SIGN_LEAF"
    using assms(6) by (auto simp: SPX_NO_SIGN_LEAF_def unsigned_minus_1_eq_mask mask_eq_exp_minus_1)
  have "\<exists>steps g1. chain_lengths cfg hb root g = (Inr steps, g1)"
    by (rule chain_lengths_run [of cfg g hb root]) (use seeded.merkle_sign_fail [OF assms(1) _ idx(2)] assms(7) in auto)
  then obtain steps g1 where c: "chain_lengths cfg hb root g = (Inr steps, g1)" by blast
  then have f: "fst (chain_lengths cfg hb root g) = Inr steps" by simp
  have s: "sig' = subtree_sig hb ctx wots_addr tree_addr steps idx" "root' = subtree_root hb ctx wots_addr tree_addr"
    using seeded.merkle_sign_ok [OF assms(1,3,4,5) idx(1) c] assms(7) by auto
  have "agree_except S x x" if "valid_addr x" for S x using that by (rule agree_except_refl)
  note refl = this [of "set_type (set_keypair_addr (subtree_leaf_addr wots_addr) idx) SPX_ADDR_TYPE_WOTS" chain_fields]
    this [of "set_type tree_addr SPX_ADDR_TYPE_HASHTREE" node_fields]
  show ?thesis
    unfolding s using seeded.layer_pk [OF assms(1) f assms(2,3) refl(1)] seeded.layer_root [OF assms(1,3) refl(2) idx(1)] assms(3,4)
    by (fastforce simp: addr_len)
qed

theorem layer_roundtrip_witness:
  "\<exists>sig' root' t'. compute_root hb_const (thash hb_const (wots_public hb_const (key_ctx hb_const const_sk)
      (set_keypair_addr (subtree_leaf_addr zero_addr) 5)) 16 (key_ctx hb_const const_sk)
      (set_keypair_addr (subtree_pk_addr zero_addr) 5)) 5 0 (drop 256 sig') 6 (key_ctx hb_const const_sk)
      (set_type zero_addr SPX_ADDR_TYPE_HASHTREE) = (root', t') \<and> length sig' = 352"
proof -
  note S = const256.seeded_key_ctx [OF length_const_sk]
  obtain steps g1 where c: "chain_lengths default_config hb_const (replicate 16 3) None = (Inr steps, g1)"
    by (rule const_chain_lengths)
  obtain t where run: "merkle_sign default_config hb_const (replicate 352 0) (replicate 16 3) (key_ctx hb_const const_sk) zero_addr
      zero_addr 5 None = (0, subtree_sig hb_const (key_ctx hb_const const_sk) zero_addr zero_addr steps 5,
        subtree_root hb_const (key_ctx hb_const const_sk) zero_addr zero_addr, t, g1)"
    using seeded.merkle_sign_ok [OF S valid_zero_addr valid_zero_addr length_replicate _ c, of 5] by auto
  have "valid_addr (set_type (set_keypair_addr (subtree_leaf_addr zero_addr) 5) SPX_ADDR_TYPE_WOTS)" by (simp add: addr_len)
  note pk = seeded.layer_pk [OF S _ valid_default_config valid_zero_addr agree_except_refl [OF this], of "replicate 16 3" None steps
    zero_addr "[]"]
  from layer_roundtrip [OF S valid_default_config valid_zero_addr valid_zero_addr length_replicate _ run, of "[]"] c pk
    seeded.length_subtree_sig [OF S, of zero_addr zero_addr steps 5]
  show ?thesis by auto
qed

text \<open>C22. \<open>treehashx1\<close>, \<open>treehash\<close> and \<open>compute_root\<close> agree.  For every leaf generator that produces the leaves in order and every tree of
  height 1 to 31, the root and the authentication path that \<open>treehashx1\<close> computes for a leaf are those of \<open>treehash\<close>, which keeps the heights of
  the nodes on its stack in an array, and \<open>compute_root\<close> recomputes the root from the leaf and the path.\<close>

theorem treehash_compute_root:
  assumes "leaf_generator hb ctx gen L P off th" "0 < th" "length auth_path = 16 * th" "valid_addr addr" "P 0 info" "unat leaf < 2 ^ th"
    and "treehashx1 hb auth_path ctx leaf off (of_nat th) gen addr info = (root, auth', addr', info')"
    and "plain_leaves hb ctx plain_gen L addr off th"
  shows "(\<exists>a. compute_root hb (L (unat leaf)) leaf off auth' (of_nat th) ctx addr = (root, a)) \<and>
    (\<exists>a. treehash hb auth_path ctx leaf off (of_nat th) plain_gen addr = (root, auth', a))"
proof -
  have S: "seeded hb ctx" and th: "th < 32" and L: "\<And>i. length (L i) = 16"
    using assms(1) unfolding leaf_generator_def leaf_generator_axioms_def by auto
  have r: "root = merkle_node hb ctx addr off L th 0" "auth' = auth_path_of hb ctx addr off L th leaf"
    using leaf_generator.treehashx1_correct [OF assms(1,3,4,5), of leaf] assms(6,7) by auto
  show ?thesis
    unfolding r using seeded.compute_root_correct [where L = L, OF S L assms(2) th agree_except_refl [OF assms(4)] assms(6)]
      plain_leaves.treehash_correct [OF assms(8,3,4,6)] by blast
qed

theorem treehash_compute_root_witness:
  "\<exists>root auth' addr' a. treehashx1 crypto_hashblocks_sha256_ref (replicate 32 0) (ref_ctx 1 []) 3 0 2
      (\<lambda>i n. (u32_to_bytes i @ replicate 12 0, Suc n)) zero_addr 0 = (root, auth', addr', 4) \<and>
    compute_root crypto_hashblocks_sha256_ref (u32_to_bytes 3 @ replicate 12 0) 3 0 auth' 2 (ref_ctx 1 []) zero_addr = (root, a) \<and>
    (\<exists>a. treehash crypto_hashblocks_sha256_ref (replicate 32 0) (ref_ctx 1 []) 3 0 2 (\<lambda>i addr. u32_to_bytes i @ replicate 12 0) zero_addr =
      (root, auth', a))"
proof -
  let ?gen = "\<lambda>i n. (u32_to_bytes i @ replicate 12 0, Suc n)" and ?L = "\<lambda>i. u32_to_bytes (of_nat i) @ replicate 12 0"
  have G: "leaf_generator crypto_hashblocks_sha256_ref (ref_ctx 1 []) ?gen ?L (=) 0 2"
    by unfold_locales auto
  have G': "plain_leaves crypto_hashblocks_sha256_ref (ref_ctx 1 []) (\<lambda>i addr. u32_to_bytes i @ replicate 12 0) ?L zero_addr 0 2"
    by unfold_locales auto
  obtain root auth' addr' n where run: "treehashx1 crypto_hashblocks_sha256_ref (replicate 32 0) (ref_ctx 1 []) 3 0 (of_nat 2) ?gen
      zero_addr 0 = (root, auth', addr', n)" by (metis prod_cases4)
  moreover have "n = 4"
    using leaf_generator.treehashx1_correct [OF G _ valid_zero_addr refl, of "replicate 32 0" 3] run by auto
  ultimately show ?thesis
    using treehash_compute_root [OF G _ _ valid_zero_addr refl _ run G'] by auto
qed

section \<open>The FORS+C salt search\<close>

text \<open>C23. The salt search stops at the first salt whose digest has compressed index zero.  Started with the randomiser, \<open>forsc_grind\<close> returns the
  digest, tree and leaf of the first good salt within \<open>FORSC_MAX_GRIND_ATTEMPTS\<close> and leaves that salt in the signature, and
  returns the signing limit exactly when no salt within the limit is good.\<close>

theorem salt_search_first:
  assumes "valid_config cfg"
  shows "case forsc_grind cfg hb pk m r_base r_base 0 0 g of
      (Inr out, salt, g') \<Rightarrow> (\<exists>k<FORSC_MAX_GRIND_ATTEMPTS cfg. forsc_good hb pk m r_base k \<and> (\<forall>j<k. \<not> forsc_good hb pk m r_base j) \<and>
         salt = forsc_tweak r_base k \<and> out = hash_message hb salt pk m \<and> g' = bitcoin_pqc_sign_stats_record_forsc_attempts (k + 1) g)
    | (Inl e, salt, g') \<Rightarrow> e = BITCOINPQC_SIGN_LIMIT_EXCEEDED \<and> (\<forall>k<FORSC_MAX_GRIND_ATTEMPTS cfg. \<not> forsc_good hb pk m r_base k)"
proof -
  have "0 < FORSC_MAX_GRIND_ATTEMPTS cfg" using assms by (auto simp: valid_config_def word_gt_0)
  then show ?thesis
    by (rule forsc_grind_cases [of 0 cfg hb pk m r_base]) auto
qed

theorem salt_search_first_witness:
  "\<exists>out salt g'. forsc_grind default_config hb_const (replicate 32 1) [2] (replicate 16 3) (replicate 16 3) 0 0 None = (Inr out, salt, g') \<and>
    salt = replicate 16 3"
proof -
  have g: "forsc_good hb_const (replicate 32 1) [2] (replicate 16 3) k" for k by (rule const_forsc_good) simp_all
  obtain r salt g' where run: "forsc_grind default_config hb_const (replicate 32 1) [2] (replicate 16 3) (replicate 16 3) 0 0 None = (r, salt, g')"
    by (metis prod_cases3)
  have pos: "\<exists>k<FORSC_MAX_GRIND_ATTEMPTS default_config. forsc_good hb_const (replicate 32 1) [2] (replicate 16 3) k"
    using g by (intro exI [of _ 0]) (simp add: default_config_def)
  have first: "k = 0" if "\<forall>j<k. \<not> forsc_good hb_const (replicate 32 1) [2] (replicate 16 3) j" for k
    using that g by (metis word_gt_0)
  show ?thesis
    using salt_search_first [OF valid_default_config, of hb_const "replicate 32 1" "[2]" "replicate 16 3" None] run pos first
    by (cases r) (auto dest: first)
qed

end
