(* ===== verification/Avx2_Sha256.thy ===== *)
theory Avx2_Sha256
  imports Sha2_Inc
begin

text \<open>
  The eight-lane SHA-256 of \<open>sphincsplus/sha2-avx2/sha256avx.h\<close>, \<open>sha256avx.c\<close> and \<open>sha256x8.c\<close>.  A
  256-bit register is modelled as its eight 32-bit lanes, the vector intrinsics by what Intel documents
  of them.  The main result: lane \<open>j\<close> of the eight-lane functions computes what the scalar
  functions of \<open>sha2.c\<close> compute on input \<open>j\<close>.
\<close>

section \<open>Registers and intrinsics\<close>

text \<open>Lane 0 is the least significant one.\<close>

datatype m256i = M256 u32 u32 u32 u32 u32 u32 u32 u32

fun lanes :: "m256i \<Rightarrow> u32 list" where
  "lanes (M256 a b c d e f g h) = [a, b, c, d, e, f, g, h]"

definition of_lanes :: "u32 list \<Rightarrow> m256i" where
  "of_lanes l = M256 (l ! 0) (l ! 1) (l ! 2) (l ! 3) (l ! 4) (l ! 5) (l ! 6) (l ! 7)"

definition lane :: "nat \<Rightarrow> m256i \<Rightarrow> u32" where
  "lane j v = lanes v ! j"

definition lift1 :: "(u32 \<Rightarrow> u32) \<Rightarrow> m256i \<Rightarrow> m256i" where
  "lift1 f x = of_lanes (map f (lanes x))"

definition lift2 :: "(u32 \<Rightarrow> u32 \<Rightarrow> u32) \<Rightarrow> m256i \<Rightarrow> m256i \<Rightarrow> m256i" where
  "lift2 f x y = of_lanes (map2 f (lanes x) (lanes y))"

definition mm256_xor_si256 :: "m256i \<Rightarrow> m256i \<Rightarrow> m256i" where "mm256_xor_si256 = lift2 (XOR)"
definition mm256_or_si256 :: "m256i \<Rightarrow> m256i \<Rightarrow> m256i" where "mm256_or_si256 = lift2 (OR)"
definition mm256_and_si256 :: "m256i \<Rightarrow> m256i \<Rightarrow> m256i" where "mm256_and_si256 = lift2 (AND)"
definition mm256_add_epi32 :: "m256i \<Rightarrow> m256i \<Rightarrow> m256i" where "mm256_add_epi32 = lift2 (+)"
definition mm256_srli_epi32 :: "m256i \<Rightarrow> nat \<Rightarrow> m256i" where "mm256_srli_epi32 x n = lift1 (drop_bit n) x"
definition mm256_slli_epi32 :: "m256i \<Rightarrow> nat \<Rightarrow> m256i" where "mm256_slli_epi32 x n = lift1 (push_bit n) x"
definition mm256_set1_epi32 :: "u32 \<Rightarrow> m256i" where "mm256_set1_epi32 x = M256 x x x x x x x x"

text \<open>Interleaving within the two 128-bit halves, and the choice of halves.\<close>

fun mm256_unpacklo_epi32 :: "m256i \<Rightarrow> m256i \<Rightarrow> m256i" where
  "mm256_unpacklo_epi32 (M256 a0 a1 a2 a3 a4 a5 a6 a7) (M256 b0 b1 b2 b3 b4 b5 b6 b7) = M256 a0 b0 a1 b1 a4 b4 a5 b5"
fun mm256_unpackhi_epi32 :: "m256i \<Rightarrow> m256i \<Rightarrow> m256i" where
  "mm256_unpackhi_epi32 (M256 a0 a1 a2 a3 a4 a5 a6 a7) (M256 b0 b1 b2 b3 b4 b5 b6 b7) = M256 a2 b2 a3 b3 a6 b6 a7 b7"
fun mm256_unpacklo_epi64 :: "m256i \<Rightarrow> m256i \<Rightarrow> m256i" where
  "mm256_unpacklo_epi64 (M256 a0 a1 a2 a3 a4 a5 a6 a7) (M256 b0 b1 b2 b3 b4 b5 b6 b7) = M256 a0 a1 b0 b1 a4 a5 b4 b5"
fun mm256_unpackhi_epi64 :: "m256i \<Rightarrow> m256i \<Rightarrow> m256i" where
  "mm256_unpackhi_epi64 (M256 a0 a1 a2 a3 a4 a5 a6 a7) (M256 b0 b1 b2 b3 b4 b5 b6 b7) = M256 a2 a3 b2 b3 a6 a7 b6 b7"

definition half :: "m256i \<Rightarrow> m256i \<Rightarrow> nat \<Rightarrow> u32 list" where
  "half a b ctl = (if ctl = 0 then take 4 (lanes a) else if ctl = 1 then drop 4 (lanes a)
     else if ctl = 2 then take 4 (lanes b) else drop 4 (lanes b))"

definition mm256_permute2x128_si256 :: "m256i \<Rightarrow> m256i \<Rightarrow> nat \<Rightarrow> m256i" where
  "mm256_permute2x128_si256 a b imm8 = of_lanes (half a b (imm8 mod 4) @ half a b (imm8 div 16 mod 4))"

text \<open>Unaligned loads and stores are little-endian; \<open>shuffle_epi8\<close> picks bytes within each 128-bit half.\<close>

definition load_le32 :: "bytes \<Rightarrow> u32" where
  "load_le32 x = ucast (x ! 0) OR push_bit 8 (ucast (x ! 1)) OR push_bit 16 (ucast (x ! 2)) OR push_bit 24 (ucast (x ! 3))"

definition store_le32 :: "u32 \<Rightarrow> bytes" where
  "store_le32 v = [ucast v, ucast (drop_bit 8 v), ucast (drop_bit 16 v), ucast (drop_bit 24 v)]"

definition mm256_loadu_si256 :: "bytes \<Rightarrow> m256i" where
  "mm256_loadu_si256 src = of_lanes (map (\<lambda>i. load_le32 (drop (4 * i) src)) [0..<8])"

definition mm256_storeu_si256 :: "m256i \<Rightarrow> bytes" where
  "mm256_storeu_si256 v = concat (map store_le32 (lanes v))"

definition mm256_shuffle_epi8 :: "m256i \<Rightarrow> u8 list \<Rightarrow> m256i" where
  "mm256_shuffle_epi8 v ctl =
     (let src = mm256_storeu_si256 v
      in mm256_loadu_si256 (map (\<lambda>i. if bit (ctl ! i) 7 then 0
           else src ! (16 * (i div 16) + unat (ctl ! i AND 15))) [0..<32]))"

section \<open>The macros\<close>

text \<open>\<open>_mm256_set_epi8\<close> lists the bytes from the most significant one down.\<close>

definition BYTESWAP_MASK :: "u8 list" where
  "BYTESWAP_MASK = rev [0xc, 0xd, 0xe, 0xf, 0x8, 0x9, 0xa, 0xb, 0x4, 0x5, 0x6, 0x7, 0x0, 0x1, 0x2, 0x3,
     0xc, 0xd, 0xe, 0xf, 0x8, 0x9, 0xa, 0xb, 0x4, 0x5, 0x6, 0x7, 0x0, 0x1, 0x2, 0x3]"

definition BYTESWAP :: "m256i \<Rightarrow> m256i" where
  "BYTESWAP x = mm256_shuffle_epi8 x BYTESWAP_MASK"

definition NOT_AVX :: "m256i \<Rightarrow> m256i" where
  "NOT_AVX x = mm256_xor_si256 x (mm256_set1_epi32 (- 1))"

definition ROTR32_AVX :: "m256i \<Rightarrow> nat \<Rightarrow> m256i" where
  "ROTR32_AVX x y = mm256_or_si256 (mm256_srli_epi32 x y) (mm256_slli_epi32 x (32 - y))"

definition XOR3 :: "m256i \<Rightarrow> m256i \<Rightarrow> m256i \<Rightarrow> m256i" where
  "XOR3 a b c = mm256_xor_si256 (mm256_xor_si256 a b) c"

definition ADD4_32 :: "m256i \<Rightarrow> m256i \<Rightarrow> m256i \<Rightarrow> m256i \<Rightarrow> m256i" where
  "ADD4_32 a b c d = mm256_add_epi32 (mm256_add_epi32 (mm256_add_epi32 a b) c) d"

definition ADD5_32 :: "m256i \<Rightarrow> m256i \<Rightarrow> m256i \<Rightarrow> m256i \<Rightarrow> m256i \<Rightarrow> m256i" where
  "ADD5_32 a b c d e = mm256_add_epi32 (mm256_add_epi32 (mm256_add_epi32 (mm256_add_epi32 a b) c) d) e"

definition MAJ_AVX :: "m256i \<Rightarrow> m256i \<Rightarrow> m256i \<Rightarrow> m256i" where
  "MAJ_AVX a b c = XOR3 (mm256_and_si256 a b) (mm256_and_si256 a c) (mm256_and_si256 b c)"

definition CH_AVX :: "m256i \<Rightarrow> m256i \<Rightarrow> m256i \<Rightarrow> m256i" where
  "CH_AVX a b c = mm256_xor_si256 (mm256_and_si256 a b) (mm256_and_si256 (NOT_AVX a) c)"

definition SIGMA1_AVX :: "m256i \<Rightarrow> m256i" where
  "SIGMA1_AVX x = XOR3 (ROTR32_AVX x 6) (ROTR32_AVX x 11) (ROTR32_AVX x 25)"
definition SIGMA0_AVX :: "m256i \<Rightarrow> m256i" where
  "SIGMA0_AVX x = XOR3 (ROTR32_AVX x 2) (ROTR32_AVX x 13) (ROTR32_AVX x 22)"
definition WSIGMA1_AVX :: "m256i \<Rightarrow> m256i" where
  "WSIGMA1_AVX x = XOR3 (ROTR32_AVX x 17) (ROTR32_AVX x 19) (mm256_srli_epi32 x 10)"
definition WSIGMA0_AVX :: "m256i \<Rightarrow> m256i" where
  "WSIGMA0_AVX x = XOR3 (ROTR32_AVX x 7) (ROTR32_AVX x 18) (mm256_srli_epi32 x 3)"

text \<open>The round constants of \<open>sha256avx.h\<close>, \<open>RC\<close>; the table repeats the constants of \<open>sha2.c\<close>.\<close>

definition RC :: "u32 list" where
  "RC = concat [[0x428a2f98, 0x71374491, 0xb5c0fbcf, 0xe9b5dba5], [0x3956c25b, 0x59f111f1, 0x923f82a4, 0xab1c5ed5],
     [0xd807aa98, 0x12835b01, 0x243185be, 0x550c7dc3], [0x72be5d74, 0x80deb1fe, 0x9bdc06a7, 0xc19bf174],
     [0xe49b69c1, 0xefbe4786, 0x0fc19dc6, 0x240ca1cc], [0x2de92c6f, 0x4a7484aa, 0x5cb0a9dc, 0x76f988da],
     [0x983e5152, 0xa831c66d, 0xb00327c8, 0xbf597fc7], [0xc6e00bf3, 0xd5a79147, 0x06ca6351, 0x14292967],
     [0x27b70a85, 0x2e1b2138, 0x4d2c6dfc, 0x53380d13], [0x650a7354, 0x766a0abb, 0x81c2c92e, 0x92722c85],
     [0xa2bfe8a1, 0xa81a664b, 0xc24b8b70, 0xc76c51a3], [0xd192e819, 0xd6990624, 0xf40e3585, 0x106aa070],
     [0x19a4c116, 0x1e376c08, 0x2748774c, 0x34b0bcb5], [0x391c0cb3, 0x4ed8aa4a, 0x5b9cca4f, 0x682e6ff3],
     [0x748f82ee, 0x78a5636f, 0x84c87814, 0x8cc70208], [0x90befffa, 0xa4506ceb, 0xbef9a3f7, 0xc67178f2]]"

text \<open>The round macro assigns \<open>d\<close> and \<open>h\<close>; these are its result.\<close>

definition SHA256ROUND_AVX :: "m256i \<Rightarrow> m256i \<Rightarrow> m256i \<Rightarrow> m256i \<Rightarrow> m256i \<Rightarrow> m256i \<Rightarrow> m256i \<Rightarrow> m256i \<Rightarrow> nat \<Rightarrow> m256i
    \<Rightarrow> m256i \<times> m256i" where
  "SHA256ROUND_AVX a b c d e f g h rc w =
     (let T0 = ADD5_32 h (SIGMA1_AVX e) (CH_AVX e f g) (mm256_set1_epi32 (RC ! rc)) w;
          T1 = mm256_add_epi32 (SIGMA0_AVX a) (MAJ_AVX a b c)
      in (mm256_add_epi32 d T0, mm256_add_epi32 T0 T1))"

section \<open>One block in every lane\<close>

definition transpose_avx :: "m256i list \<Rightarrow> m256i list" where
  "transpose_avx s =
     (let t0 = mm256_unpacklo_epi32 (s ! 0) (s ! 1); t1 = mm256_unpackhi_epi32 (s ! 0) (s ! 1);
          t2 = mm256_unpacklo_epi32 (s ! 2) (s ! 3); t3 = mm256_unpackhi_epi32 (s ! 2) (s ! 3);
          t4 = mm256_unpacklo_epi32 (s ! 4) (s ! 5); t5 = mm256_unpackhi_epi32 (s ! 4) (s ! 5);
          t6 = mm256_unpacklo_epi32 (s ! 6) (s ! 7); t7 = mm256_unpackhi_epi32 (s ! 6) (s ! 7);
          u0 = mm256_unpacklo_epi64 t0 t2; u1 = mm256_unpackhi_epi64 t0 t2;
          u2 = mm256_unpacklo_epi64 t1 t3; u3 = mm256_unpackhi_epi64 t1 t3;
          u4 = mm256_unpacklo_epi64 t4 t6; u5 = mm256_unpackhi_epi64 t4 t6;
          u6 = mm256_unpacklo_epi64 t5 t7; u7 = mm256_unpackhi_epi64 t5 t7
      in [mm256_permute2x128_si256 u0 u4 0x20, mm256_permute2x128_si256 u1 u5 0x20,
          mm256_permute2x128_si256 u2 u6 0x20, mm256_permute2x128_si256 u3 u7 0x20,
          mm256_permute2x128_si256 u0 u4 0x31, mm256_permute2x128_si256 u1 u5 0x31,
          mm256_permute2x128_si256 u2 u6 0x31, mm256_permute2x128_si256 u3 u7 0x31])"

text \<open>Line \<open>t\<close> of the unrolled rounds: from \<open>t = 16\<close> on it first appends the schedule word \<open>w[t]\<close>; the registers
  are renamed from line to line, so that \<open>a\<close> is \<open>s[(8 - t) mod 8]\<close>, and \<open>d\<close> and \<open>h\<close> are assigned.\<close>

definition reg :: "nat \<Rightarrow> nat \<Rightarrow> nat" where
  "reg t i = (i + (8 - t mod 8)) mod 8"

definition transform8x_line :: "m256i list \<times> m256i list \<Rightarrow> nat \<Rightarrow> m256i list \<times> m256i list" where
  "transform8x_line = (\<lambda>(s, w) t.
     let w = (if t < 16 then w
              else w @ [ADD4_32 (WSIGMA1_AVX (w ! (t - 2))) (w ! (t - 16)) (w ! (t - 7)) (WSIGMA0_AVX (w ! (t - 15)))]);
         (d, h) = SHA256ROUND_AVX (s ! reg t 0) (s ! reg t 1) (s ! reg t 2) (s ! reg t 3)
                    (s ! reg t 4) (s ! reg t 5) (s ! reg t 6) (s ! reg t 7) t (w ! t)
     in (s[reg t 3 := d, reg t 7 := h], w))"

definition sha256_transform8x :: "m256i list \<Rightarrow> bytes list \<Rightarrow> m256i list" where
  "sha256_transform8x ctx_s data =
     (let w = transpose_avx (map (\<lambda>j. BYTESWAP (mm256_loadu_si256 (data ! j))) [0..<8]) @
              transpose_avx (map (\<lambda>j. BYTESWAP (mm256_loadu_si256 (drop 32 (data ! j)))) [0..<8]);
          (s, w) = foldl transform8x_line (ctx_s, w) [0..<64]
      in map2 mm256_add_epi32 s ctx_s)"

section \<open>Lanes\<close>

lemma all_less_8: "(\<forall>j<8. P j) \<longleftrightarrow> P 0 \<and> P 1 \<and> P 2 \<and> P 3 \<and> P 4 \<and> P 5 \<and> P 6 \<and> P (7 :: nat)"
  by (simp add: All_less_Suc numeral_eq_Suc conj_ac)

lemma less_8_cases: "j < 8 \<Longrightarrow> j \<in> {0, 1, 2, 3, 4, 5, 6, 7 :: nat}"
  by auto

lemma length_lanes [simp]: "length (lanes v) = 8"
  by (cases v) simp

lemma lanes_of_lanes: "length l = 8 \<Longrightarrow> lanes (of_lanes l) = l"
  by (rule nth_equalityI) (auto simp: of_lanes_def less_Suc_eq numeral_eq_Suc)

lemma lane_of_lanes: "length l = 8 \<Longrightarrow> lane j (of_lanes l) = l ! j"
  by (simp add: lane_def lanes_of_lanes)

lemma m256i_eqI: "(\<And>j. j < 8 \<Longrightarrow> lane j x = lane j y) \<Longrightarrow> x = y"
proof -
  assume "\<And>j. j < 8 \<Longrightarrow> lane j x = lane j y"
  then have "lanes x = lanes y" by (intro nth_equalityI) (auto simp: lane_def)
  then show ?thesis by (cases x; cases y) simp
qed

lemma lane_lift [simp]:
  "j < 8 \<Longrightarrow> lane j (lift1 f x) = f (lane j x)"
  "j < 8 \<Longrightarrow> lane j (lift2 g x y) = g (lane j x) (lane j y)"
  by (simp_all add: lift1_def lift2_def lane_of_lanes) (simp_all add: lane_def)

lemma lane_set1: "j < 8 \<Longrightarrow> lane j (mm256_set1_epi32 x) = x"
  by (auto simp: mm256_set1_epi32_def lane_def dest!: less_8_cases)

lemma lane_ops:
  assumes "j < 8"
  shows "lane j (mm256_xor_si256 x y) = lane j x XOR lane j y" "lane j (mm256_or_si256 x y) = (lane j x OR lane j y)"
    "lane j (mm256_and_si256 x y) = (lane j x AND lane j y)" "lane j (mm256_add_epi32 x y) = lane j x + lane j y"
    "lane j (mm256_srli_epi32 x n) = drop_bit n (lane j x)" "lane j (mm256_slli_epi32 x n) = push_bit n (lane j x)"
  using assms by (simp_all add: mm256_xor_si256_def mm256_or_si256_def mm256_and_si256_def mm256_add_epi32_def
      mm256_srli_epi32_def mm256_slli_epi32_def)


text \<open>Lane-wise, the macros are the scalar ones.\<close>

lemma lane_ROTR: "j < 8 \<Longrightarrow> y < 32 \<Longrightarrow> lane j (ROTR32_AVX x y) = ROTR_32 (lane j x) y"
proof -
  assume "j < 8" "y < 32"
  moreover have "push_bit (32 - y) v = push_bit (32 - y) (v AND (2 ^ y - 1))" if "y < 32" for v :: u32
    unfolding mask_eq_exp_minus_1 [symmetric] using that
    by (intro bit_word_eqI) (auto simp: bit_simps)
  ultimately show ?thesis by (simp add: ROTR32_AVX_def lane_ops ROTR_32_def push_bit_of_1)
qed

lemma xor_minus_one: "x XOR - 1 = NOT x" for x :: "'a::len word"
  by (rule bit_word_eqI) (simp add: bit_simps)

lemma lane_macros:
  assumes "j < 8"
  shows "lane j (SIGMA0_AVX x) = Sigma0_32 (lane j x)" "lane j (SIGMA1_AVX x) = Sigma1_32 (lane j x)"
    "lane j (WSIGMA0_AVX x) = sigma0_32 (lane j x)" "lane j (WSIGMA1_AVX x) = sigma1_32 (lane j x)"
    "lane j (MAJ_AVX a b c) = Maj (lane j a) (lane j b) (lane j c)"
    "lane j (CH_AVX a b c) = Ch (lane j a) (lane j b) (lane j c)"
    "lane j (ADD4_32 a b c d) = lane j a + lane j b + lane j c + lane j d"
    "lane j (ADD5_32 a b c d e) = lane j a + lane j b + lane j c + lane j d + lane j e"
  using assms
  by (simp_all add: SIGMA0_AVX_def SIGMA1_AVX_def WSIGMA0_AVX_def WSIGMA1_AVX_def MAJ_AVX_def CH_AVX_def XOR3_def NOT_AVX_def
      ADD4_32_def ADD5_32_def lane_ops lane_set1 lane_ROTR Sigma0_32_def Sigma1_32_def sigma0_32_def sigma1_32_def Maj_def Ch_def
      xor_minus_one xor.assoc)

section \<open>Byte order\<close>

lemma le_be_32:
  "4 \<le> length x \<Longrightarrow> load_le32 x = load_bigendian_32 (rev (take 4 x))"
  "store_le32 v = rev (u32_to_bytes v)"
  by (simp_all add: load_le32_def load_bigendian_32_def rev_nth store_le32_def u32_to_bytes_def or.commute or.left_commute)

lemma length_store_le32 [simp]: "length (store_le32 v) = 4"
  by (simp add: store_le32_def)

lemma load_be_prefix: "4 \<le> length x \<Longrightarrow> load_bigendian_32 (take 4 x) = load_bigendian_32 x"
  by (simp add: load_bigendian_32_def)

lemma store_load_le32: "4 \<le> length x \<Longrightarrow> store_le32 (load_le32 x) = take 4 x"
  using store_load_32 [of "rev (take 4 x)"] by (simp add: le_be_32 store_bigendian_32_u32)

lemma load_le32_rev: "length x = 4 \<Longrightarrow> load_le32 (rev x) = load_bigendian_32 x"
  by (simp add: le_be_32)

lemma nth_storeu: "q < 8 \<Longrightarrow> r < 4 \<Longrightarrow> mm256_storeu_si256 v ! (4 * q + r) = store_le32 (lane q v) ! r"
proof -
  assume q: "q < 8" "r < 4"
  have e: "mm256_storeu_si256 v = concat (map (\<lambda>i. store_le32 (lanes v ! i)) [0..<8])"
    unfolding mm256_storeu_si256_def by (intro arg_cong [where f = concat] nth_equalityI) simp_all
  have "get_bytes (4 * q) 4 (mm256_storeu_si256 v) ! r = store_le32 (lane q v) ! r"
    unfolding e lane_def using q by (subst get_bytes_concat_map) auto
  moreover have "length (mm256_storeu_si256 v) = 32" by (simp add: e length_concat_const)
  ultimately show ?thesis using q by (simp add: get_bytes_def)
qed

lemma lane_loadu: "q < 8 \<Longrightarrow> lane q (mm256_loadu_si256 src) = load_le32 (drop (4 * q) src)"
  by (simp add: mm256_loadu_si256_def lane_of_lanes)

lemma byteswap_index:
  assumes "i < 32"
  shows "\<not> bit (BYTESWAP_MASK ! i) 7" "16 * (i div 16) + unat (BYTESWAP_MASK ! i AND 15) = 4 * (i div 4) + (3 - i mod 4)"
proof -
  have "map (\<lambda>i. (bit (BYTESWAP_MASK ! i) 7, 16 * (i div 16) + unat (BYTESWAP_MASK ! i AND 15))) [0..<32] =
      map (\<lambda>i. (False, 4 * (i div 4) + (3 - i mod 4))) [0..<32]" by code_simp
  then show "\<not> bit (BYTESWAP_MASK ! i) 7" "16 * (i div 16) + unat (BYTESWAP_MASK ! i AND 15) = 4 * (i div 4) + (3 - i mod 4)"
    using assms by (simp_all add: map_eq_conv)
qed

lemma lane_byteswap:
  assumes "q < 8"
  shows "lane q (BYTESWAP v) = load_bigendian_32 (store_le32 (lane q v))"
proof -
  define f where "f = (\<lambda>i. if bit (BYTESWAP_MASK ! i) 7 then 0
    else mm256_storeu_si256 v ! (16 * (i div 16) + unat (BYTESWAP_MASK ! i AND 15)))"
  have f: "f (4 * q + r) = store_le32 (lane q v) ! (3 - r)" if "r < 4" for r
  proof -
    have d: "(4 * q + r) div 4 = q" "(4 * q + r) mod 4 = r" using that by simp_all
    have "4 * q + r < 32" using assms that by simp
    from byteswap_index [OF this] show ?thesis
      using nth_storeu [OF assms, of "3 - r" v] unfolding d f_def by simp
  qed
  have "take 4 (drop (4 * q) (map f [0..<32])) = rev (store_le32 (lane q v))"
  proof (rule nth_equalityI)
    fix r assume "r < length (take 4 (drop (4 * q) (map f [0..<32])))"
    then have r: "r < 4" by simp
    then have "4 * q + r < 32" using assms by simp
    then show "take 4 (drop (4 * q) (map f [0..<32])) ! r = rev (store_le32 (lane q v)) ! r"
      using f [OF r] r by (simp add: rev_nth)
  qed (use assms in simp)
  moreover have "load_le32 (drop (4 * q) (map f [0..<32])) = load_le32 (take 4 (drop (4 * q) (map f [0..<32])))"
    by (simp add: load_le32_def)
  ultimately show ?thesis
    using assms by (simp add: BYTESWAP_def mm256_shuffle_epi8_def Let_def lane_loadu load_le32_rev flip: f_def)
qed

lemma lane_load:
  assumes "q < 8" "4 * q + 4 \<le> length src"
  shows "lane q (BYTESWAP (mm256_loadu_si256 src)) = load_bigendian_32 (drop (4 * q) src)"
  using assms by (simp add: lane_byteswap lane_loadu store_load_le32 load_be_prefix)

lemma store_byteswap: "mm256_storeu_si256 (BYTESWAP v) = concat (map (\<lambda>i. u32_to_bytes (lane i v)) [0..<8])"
proof -
  have "store_le32 (load_bigendian_32 (store_le32 x)) = u32_to_bytes x" for x
    by (metis le_be_32(2) length_store_le32 load_le32_rev rev_rev_ident store_load_le32 length_rev take_all order_refl)
  moreover
  have "lanes (BYTESWAP v) = map (\<lambda>i. lane i (BYTESWAP v)) [0..<8]"
    by (rule nth_equalityI) (simp_all add: lane_def)
  then have "map store_le32 (lanes (BYTESWAP v)) = map (\<lambda>i. store_le32 (load_bigendian_32 (store_le32 (lane i v)))) [0..<8]"
    by (auto simp: lane_byteswap)
  ultimately show ?thesis
    by (simp add: mm256_storeu_si256_def del: upt_Suc)
qed

section \<open>Transposition\<close>

lemma lane_transpose:
  assumes "i < 8" "j < 8"
  shows "lane j (transpose_avx s ! i) = lane i (s ! j)"
proof -
  have "\<forall>i<8. \<forall>j<8. lane j (transpose_avx s ! i) = lane i (s ! j)"
    by (cases "s ! 0"; cases "s ! 1"; cases "s ! 2"; cases "s ! 3"; cases "s ! 4"; cases "s ! 5"; cases "s ! 6"; cases "s ! 7")
      (simp add: all_less_8 transpose_avx_def mm256_permute2x128_si256_def half_def of_lanes_def lane_def Let_def)
  then show ?thesis using assms by blast
qed

lemma length_transpose [simp]: "length (transpose_avx s) = 8"
  by (simp add: transpose_avx_def Let_def)

section \<open>A lane of the transform is a scalar block\<close>

definition lane_state :: "nat \<Rightarrow> m256i list \<Rightarrow> u32 vars" where
  "lane_state j s = (lane j (s ! 0), lane j (s ! 1), lane j (s ! 2), lane j (s ! 3),
     lane j (s ! 4), lane j (s ! 5), lane j (s ! 6), lane j (s ! 7))"

text \<open>The working variables of lane \<open>j\<close> before line \<open>t\<close>, under the renaming of the registers.\<close>

definition view :: "nat \<Rightarrow> nat \<Rightarrow> m256i list \<Rightarrow> u32 vars" where
  "view j t s = (lane j (s ! reg t 0), lane j (s ! reg t 1), lane j (s ! reg t 2), lane j (s ! reg t 3),
     lane j (s ! reg t 4), lane j (s ! reg t 5), lane j (s ! reg t 6), lane j (s ! reg t 7))"

lemma RC_K: "RC = K_32"
  by (simp add: RC_def K_32_def)

lemma reg_less: "reg t i < 8"
  by (simp add: reg_def)

lemma reg_next: "reg (Suc t) 0 = reg t 7" "i < 7 \<Longrightarrow> reg (Suc t) (Suc i) = reg t i"
proof -
  show "reg (Suc t) 0 = reg t 7"
    by (cases "t mod 8 = 7") (simp_all add: reg_def mod_Suc mod_if [of "15 - t mod 8"])
  show "reg (Suc t) (Suc i) = reg t i" if "i < 7"
  proof (cases "t mod 8 = 7")
    case True
    then have "Suc t mod 8 = 0" by (simp add: mod_Suc)
    then have "reg (Suc t) (Suc i) = (Suc i + 8) mod 8" by (simp only: reg_def diff_zero)
    also have "\<dots> = Suc i" using that by (subst mod_add_self2) simp
    also have "\<dots> = reg t i" using True that by (simp add: reg_def)
    finally show ?thesis .
  next
    case False
    then have "Suc t mod 8 = Suc (t mod 8)" "t mod 8 < 7" by (simp_all add: mod_Suc)
    then have "Suc i + (8 - Suc t mod 8) = i + (8 - t mod 8)" by simp
    then show ?thesis unfolding reg_def by (rule arg_cong)
  qed
qed

lemma reg_inj: "i < 8 \<Longrightarrow> k < 8 \<Longrightarrow> reg t i = reg t k \<longleftrightarrow> i = k"
proof -
  have "0 < 8 - t mod 8" "8 - t mod 8 \<le> 8" by simp_all
  then show "i < 8 \<Longrightarrow> k < 8 \<Longrightarrow> ?thesis"
    unfolding reg_def by (simp only: mod_if [of "i + _"] mod_if [of "k + _"] mod_less) (auto split: if_splits)
qed

lemma line_view:
  assumes "j < 8" "length s = 8" "t < 64" "transform8x_line (s, w) t = (s', w')"
  shows "view j (Suc t) s' = F_32 (lane j (w' ! t)) (K_32 ! t) (view j t s)" "length s' = 8"
    "w' = (if t < 16 then w
       else w @ [ADD4_32 (WSIGMA1_AVX (w ! (t - 2))) (w ! (t - 16)) (w ! (t - 7)) (WSIGMA0_AVX (w ! (t - 15)))])"
proof -
  define R where "R = SHA256ROUND_AVX (s ! reg t 0) (s ! reg t 1) (s ! reg t 2) (s ! reg t 3)
      (s ! reg t 4) (s ! reg t 5) (s ! reg t 6) (s ! reg t 7) t"
  define W where "W = (if t < 16 then w
       else w @ [ADD4_32 (WSIGMA1_AVX (w ! (t - 2))) (w ! (t - 16)) (w ! (t - 7)) (WSIGMA0_AVX (w ! (t - 15)))])"
  have "transform8x_line (s, w) t = (s[reg t 3 := fst (R (W ! t)), reg t 7 := snd (R (W ! t))], W)"
    unfolding transform8x_line_def W_def R_def by (simp only: prod.case Let_def case_prod_beta fst_conv snd_conv)
  then have "w' = W" and s0: "s' = s[reg t 3 := fst (R (w' ! t)), reg t 7 := snd (R (w' ! t))]" using assms(4) by auto
  then show "w' = (if t < 16 then w
       else w @ [ADD4_32 (WSIGMA1_AVX (w ! (t - 2))) (w ! (t - 16)) (w ! (t - 7)) (WSIGMA0_AVX (w ! (t - 15)))])"
    unfolding W_def by simp
  define d h where "d = fst (R (w' ! t))" and "h = snd (R (w' ! t))"
  have s': "s' = s[reg t 3 := d, reg t 7 := h]" using s0 by (simp add: d_def h_def)
  then show "length s' = 8" using assms(2) by simp
  have n: "reg (Suc t) 1 = reg t 0" "reg (Suc t) 2 = reg t 1" "reg (Suc t) 3 = reg t 2" "reg (Suc t) 4 = reg t 3"
    "reg (Suc t) 5 = reg t 4" "reg (Suc t) 6 = reg t 5" "reg (Suc t) 7 = reg t 6"
    using reg_next(2) [of 0 t] reg_next(2) [of 1 t] reg_next(2) [of 2 t] reg_next(2) [of 3 t] reg_next(2) [of 4 t]
      reg_next(2) [of 5 t] reg_next(2) [of 6 t] by (simp_all add: numeral_eq_Suc)
  have nth: "s' ! reg t i = (if i = 7 then h else if i = 3 then d else s ! reg t i)" if "i < 8" for i
    using assms(2) that by (simp add: s' nth_list_update reg_less reg_inj)
  show "view j (Suc t) s' = F_32 (lane j (w' ! t)) (K_32 ! t) (view j t s)"
    using assms(1) unfolding view_def reg_next(1) n
    by (simp add: nth d_def h_def R_def SHA256ROUND_AVX_def Let_def lane_ops lane_macros lane_set1 RC_K spx_add32_5_def spx_add32_4_def ac_simps)
qed

lemma lines_view:
  assumes "j < 8" "length s = 8" "length w = 16" "\<And>i. i < 16 \<Longrightarrow> lane j (w ! i) = m ! i"
    and "n \<le> 64" "foldl transform8x_line (s, w) [0..<n] = (s', w')"
  shows "view j n s' = foldl (\<lambda>v t. F_32 (fips_W sigma0_32 sigma1_32 m t) (K_32 ! t) v) (lane_state j s) [0..<n] \<and> length s' = 8 \<and>
    length w' = max 16 n \<and> (\<forall>i<max 16 n. lane j (w' ! i) = fips_W sigma0_32 sigma1_32 m i)"
  using assms(5,6)
proof (induction n arbitrary: s' w')
  case 0
  then show ?case using assms(2-4) by (simp add: view_def lane_state_def reg_def fips_W.simps)
next
  case (Suc n)
  obtain s1 w1 where 1: "foldl transform8x_line (s, w) [0..<n] = (s1, w1)" by fastforce
  note IH = Suc.IH [OF _ 1]
  have l: "transform8x_line (s1, w1) n = (s', w')" using Suc.prems(2) 1 by simp
  have n: "n < 64" "n \<le> 64" using Suc.prems(1) by simp_all
  have IH: "view j n s1 = foldl (\<lambda>v t. F_32 (fips_W sigma0_32 sigma1_32 m t) (K_32 ! t) v) (lane_state j s) [0..<n]" "length s1 = 8"
    "length w1 = max 16 n" "\<And>i. i < max 16 n \<Longrightarrow> lane j (w1 ! i) = fips_W sigma0_32 sigma1_32 m i"
    using Suc.IH [OF n(2) 1] by blast+
  note L = line_view [OF assms(1) IH(2) n(1) l]
  have w: "length w' = max 16 (Suc n) \<and> (\<forall>i<max 16 (Suc n). lane j (w' ! i) = fips_W sigma0_32 sigma1_32 m i)"
  proof (cases "n < 16")
    case True
    then show ?thesis using L(3) IH(3,4) by (simp add: max_def)
  next
    case False
    have "fips_W sigma0_32 sigma1_32 m n = sigma1_32 (fips_W sigma0_32 sigma1_32 m (n - 2)) + fips_W sigma0_32 sigma1_32 m (n - 7)
        + sigma0_32 (fips_W sigma0_32 sigma1_32 m (n - 15)) + fips_W sigma0_32 sigma1_32 m (n - 16)"
      using False by (subst fips_W.simps) simp
    then show ?thesis
      using L(3) IH(3,4) False assms(1) by (auto simp: nth_append less_Suc_eq lane_macros max_def ac_simps)
  qed
  then have "lane j (w' ! n) = fips_W sigma0_32 sigma1_32 m n" by auto
  with L(1,2) IH(1) w show ?case by simp
qed

theorem transform8x_lane:
  assumes "j < 8" "length s = 8" "64 \<le> length (data ! j)"
  shows "lane_state j (sha256_transform8x s data) = block_sha256 (lane_state j s) (data ! j)" "length (sha256_transform8x s data) = 8"
proof -
  define m where "m = map (\<lambda>i. load_bigendian_32 (drop (4 * i) (data ! j))) [0..<16]"
  define w where "w = transpose_avx (map (\<lambda>j. BYTESWAP (mm256_loadu_si256 (data ! j))) [0..<8]) @
    transpose_avx (map (\<lambda>j. BYTESWAP (mm256_loadu_si256 (drop 32 (data ! j)))) [0..<8])"
  have w: "length w = 16" by (simp add: w_def)
  have wm: "lane j (w ! i) = m ! i" if "i < 16" for i
  proof -
    have "4 * (i - 8) + 32 = 4 * i" if "\<not> i < 8" using that by simp
    then show ?thesis
      using that assms(1,3) lane_load [of "i - 8" "drop 32 (data ! j)"]
      by (cases "i < 8") (simp_all add: w_def nth_append lane_transpose lane_load m_def del: upt_Suc)
  qed
  obtain s' w' where r: "foldl transform8x_line (s, w) [0..<64] = (s', w')" by fastforce
  have v: "view j 64 s' = foldl (\<lambda>v t. F_32 (fips_W sigma0_32 sigma1_32 m t) (K_32 ! t) v) (lane_state j s) [0..<64]" "length s' = 8"
    using lines_view [OF assms(1,2) w wm order_refl r] by blast+
  have t: "sha256_transform8x s data = map2 mm256_add_epi32 s' s"
    by (simp only: sha256_transform8x_def w_def [symmetric] r Let_def prod.case)
  then show "length (sha256_transform8x s data) = 8" using v(2) assms(2) by simp
  have "view j 64 s' = lane_state j s'" by (simp add: view_def lane_state_def reg_def)
  then have "lane_state j (sha256_transform8x s data) = fips_add (view j 64 s') (lane_state j s)"
    using assms(1,2) v(2) by (simp add: t lane_state_def lane_ops)
  then show "lane_state j (sha256_transform8x s data) = block_sha256 (lane_state j s) (data ! j)"
    by (simp add: v(1) block_sha256_fips fips_compress_256_def F_32_fips fips_sigmas_32 m_def)
qed

end
