(* ===== verification/Sha2_Dispatch.thy ===== *)
theory Sha2_Dispatch
  imports Sha2_Inc
begin

text \<open>
  Run-time selection of the SHA-2 block functions: the knobs of \<open>sphincsplus/ref/opt_flags.h\<close> and
  \<open>avx2_compat.h\<close>, the CPU probes of \<open>sha2_x86_shani.c\<close> and \<open>sha2_armv8_sha.c\<close>, and the
  selection and caching of the function pointers in \<open>sha2.c\<close>.  The preprocessor symbols are a
  record of the build, \<open>getenv\<close>, \<open>cpuid\<close> and \<open>xgetbv\<close> are a record of the machine, and
  the static variables are a record that the functions thread.  A function pointer is the name of
  the function it points to.  Results: a production build always runs the scalar reference code,
  an accelerated backend is chosen only on a CPU whose probe reports it, and the cached pointer
  never changes.  Concurrent first calls are the subject of \<open>Sha2_Race\<close>.
\<close>

section \<open>Build, machine and static variables\<close>

record opt_build =
  ob_production :: bool
  ob_knobs :: bool
  ob_arm_sha :: bool
  ob_commoncrypto :: bool
  ob_sha256_intrinsics :: bool
  ob_sha512_intrinsics :: bool
  ob_avx2 :: bool

text \<open>The \<open>#error\<close> of \<open>opt_flags.h\<close>: a production build has no run-time knobs.\<close>

definition valid_build :: "opt_build \<Rightarrow> bool" where
  "valid_build b \<longleftrightarrow> \<not> (ob_production b \<and> ob_knobs b)"

record opt_machine =
  om_getenv :: "string \<Rightarrow> string option"
  om_cpuid :: "u32 \<Rightarrow> u32 \<Rightarrow> u32 \<times> u32 \<times> u32 \<times> u32"
  om_xgetbv0 :: u64
  om_avx2 :: bool

datatype sha2_impl = Impl_Scalar | Impl_X86_SHA_NI | Impl_ARM_SHA | Impl_CommonCrypto

record opt_cache =
  oc_disable_sha_accel :: int
  oc_disable_simd :: int
  oc_backend_mode :: int
  oc_sha256_ni :: int
  oc_sha512_ni :: int
  oc_sha256_impl :: "sha2_impl option"
  oc_sha512_impl :: "sha2_impl option"

definition opt_cache_init :: opt_cache where
  "opt_cache_init = \<lparr>oc_disable_sha_accel = -1, oc_disable_simd = -1, oc_backend_mode = -1,
     oc_sha256_ni = -1, oc_sha512_ni = -1, oc_sha256_impl = None, oc_sha512_impl = None\<rparr>"

section \<open>Environment knobs\<close>

definition spx_env_flag :: "opt_build \<Rightarrow> opt_machine \<Rightarrow> string \<Rightarrow> bool" where
  "spx_env_flag b m name =
     (if \<not> ob_knobs b then False
      else (case om_getenv m name of
              None \<Rightarrow> False
            | Some val \<Rightarrow>
                if val = [] then False
                else val \<in> {''1'', ''true'', ''TRUE'', ''yes'', ''YES'', ''on'', ''ON''}))"

definition spx_opt_profile_is :: "opt_build \<Rightarrow> opt_machine \<Rightarrow> string \<Rightarrow> bool" where
  "spx_opt_profile_is b m profile =
     (if \<not> ob_knobs b then False
      else (case om_getenv m ''SPX_OPT_PROFILE'' of
              None \<Rightarrow> False
            | Some configured \<Rightarrow> if configured = [] then False else configured = profile))"

definition spx_opt_disable_sha_accel :: "opt_build \<Rightarrow> opt_machine \<Rightarrow> opt_cache \<Rightarrow> int \<times> opt_cache" where
  "spx_opt_disable_sha_accel b m c =
     (let val = oc_disable_sha_accel c
      in if val < 0
         then (let val = (if spx_env_flag b m ''SPX_DISABLE_SHA_ACCEL'' \<or> spx_opt_profile_is b m ''scalar''
                          then 1 else 0)
               in (val, c\<lparr>oc_disable_sha_accel := val\<rparr>))
         else (val, c))"

definition spx_opt_disable_simd :: "opt_build \<Rightarrow> opt_machine \<Rightarrow> opt_cache \<Rightarrow> int \<times> opt_cache" where
  "spx_opt_disable_simd b m c =
     (let val = oc_disable_simd c
      in if val < 0
         then (let val = (if spx_env_flag b m ''SPX_DISABLE_SIMD'' \<or> spx_opt_profile_is b m ''scalar''
                          then 1 else 0)
               in (val, c\<lparr>oc_disable_simd := val\<rparr>))
         else (val, c))"

definition SPX_SHA_BACKEND_AUTO :: int where "SPX_SHA_BACKEND_AUTO = 0"
definition SPX_SHA_BACKEND_SCALAR :: int where "SPX_SHA_BACKEND_SCALAR = 1"
definition SPX_SHA_BACKEND_ARM :: int where "SPX_SHA_BACKEND_ARM = 2"
definition SPX_SHA_BACKEND_X86 :: int where "SPX_SHA_BACKEND_X86 = 3"
definition SPX_SHA_BACKEND_COMMONCRYPTO :: int where "SPX_SHA_BACKEND_COMMONCRYPTO = 4"

lemmas backend_defs = SPX_SHA_BACKEND_AUTO_def SPX_SHA_BACKEND_SCALAR_def SPX_SHA_BACKEND_ARM_def
  SPX_SHA_BACKEND_X86_def SPX_SHA_BACKEND_COMMONCRYPTO_def

definition spx_opt_sha_backend_mode :: "opt_build \<Rightarrow> opt_machine \<Rightarrow> opt_cache \<Rightarrow> int \<times> opt_cache" where
  "spx_opt_sha_backend_mode b m c =
     (if ob_production b then (SPX_SHA_BACKEND_SCALAR, c)
      else if \<not> ob_knobs b then (SPX_SHA_BACKEND_AUTO, c)
      else (let val = oc_backend_mode c
            in if val \<ge> 0 then (val, c)
               else (let val =
                       (case om_getenv m ''SPX_SHA_BACKEND'' of
                          None \<Rightarrow> SPX_SHA_BACKEND_AUTO
                        | Some configured \<Rightarrow>
                            if configured = [] then SPX_SHA_BACKEND_AUTO
                            else if configured \<in> {''scalar'', ''ref''} then SPX_SHA_BACKEND_SCALAR
                            else if configured \<in> {''arm'', ''armv8'', ''armv8_sha256''} then SPX_SHA_BACKEND_ARM
                            else if configured \<in> {''x86'', ''x86_ni'', ''shani''} then SPX_SHA_BACKEND_X86
                            else if configured \<in> {''commoncrypto'', ''cc''} then SPX_SHA_BACKEND_COMMONCRYPTO
                            else SPX_SHA_BACKEND_AUTO)
                     in (val, c\<lparr>oc_backend_mode := val\<rparr>))))"

text \<open>\<open>spx_has_avx2\<close> for the GNU and clang builds; \<open>ob_avx2\<close> is \<open>SPX_AVX2\<close> on x86.\<close>

definition spx_has_avx2 :: "opt_build \<Rightarrow> opt_machine \<Rightarrow> opt_cache \<Rightarrow> bool \<times> opt_cache" where
  "spx_has_avx2 b m c =
     (let (disabled, c) = spx_opt_disable_simd b m c
      in if disabled \<noteq> 0 then (False, c)
         else if ob_avx2 b then (om_avx2 m, c) else (False, c))"

section \<open>CPU probes\<close>

definition spx_detect_sha256_ni :: "opt_machine \<Rightarrow> bool" where
  "spx_detect_sha256_ni m =
     (let (eax, ebx, ecx, edx) = om_cpuid m 0 0
      in if eax < 7 then False
         else (let (eax, ebx, ecx, edx) = om_cpuid m 1 0
               in if ecx AND push_bit 9 1 = 0 \<or> ecx AND push_bit 19 1 = 0 then False
                  else (let (eax, ebx, ecx, edx) = om_cpuid m 7 0
                        in ebx AND push_bit 29 1 \<noteq> 0)))"

definition spx_detect_sha512_ni :: "opt_machine \<Rightarrow> bool" where
  "spx_detect_sha512_ni m =
     (let (eax, ebx, ecx, edx) = om_cpuid m 0 0
      in if eax < 7 then False
         else (let (eax, ebx, ecx, edx) = om_cpuid m 1 0
               in if ecx AND push_bit 9 1 = 0 \<or> ecx AND push_bit 19 1 = 0 then False
                  else if ecx AND push_bit 27 1 = 0 \<or> ecx AND push_bit 28 1 = 0 then False
                  else if om_xgetbv0 m AND 6 \<noteq> 6 then False
                  else (let (eax, ebx, ecx, edx) = om_cpuid m 7 0
                        in if ebx AND push_bit 5 1 = 0 \<or> eax < 1 then False
                           else (let (eax, ebx, ecx, edx) = om_cpuid m 7 1
                                 in eax AND push_bit 0 1 \<noteq> 0))))"

definition spx_sha2_x86_can_use_sha256_ni :: "opt_build \<Rightarrow> opt_machine \<Rightarrow> opt_cache \<Rightarrow> int \<times> opt_cache" where
  "spx_sha2_x86_can_use_sha256_ni b m c =
     (if ob_sha256_intrinsics b
      then (let cached = oc_sha256_ni c
            in if cached < 0
               then (let cached = (if spx_detect_sha256_ni m then 1 else 0)
                     in (cached, c\<lparr>oc_sha256_ni := cached\<rparr>))
               else (cached, c))
      else (0, c))"

definition spx_sha2_x86_can_use_sha512_ni :: "opt_build \<Rightarrow> opt_machine \<Rightarrow> opt_cache \<Rightarrow> int \<times> opt_cache" where
  "spx_sha2_x86_can_use_sha512_ni b m c =
     (if ob_sha512_intrinsics b
      then (let cached = oc_sha512_ni c
            in if cached < 0
               then (let cached = (if spx_detect_sha512_ni m then 1 else 0)
                     in (cached, c\<lparr>oc_sha512_ni := cached\<rparr>))
               else (cached, c))
      else (0, c))"

text \<open>The ARM backend is switched off in the source.\<close>

definition spx_sha2_arm_can_use_sha256 :: int where "spx_sha2_arm_can_use_sha256 = 0"
definition spx_sha2_arm_can_use_sha512 :: int where "spx_sha2_arm_can_use_sha512 = 0"

section \<open>Selection and caching of the block functions\<close>

definition spx_sha256_select_hashblocks_impl ::
    "opt_build \<Rightarrow> opt_machine \<Rightarrow> opt_cache \<Rightarrow> sha2_impl \<times> opt_cache" where
  "spx_sha256_select_hashblocks_impl b m c =
     (let (mode, c) = spx_opt_sha_backend_mode b m c;
          (off, c) = spx_opt_disable_sha_accel b m c
      in if off \<noteq> 0 \<or> mode = SPX_SHA_BACKEND_SCALAR then (Impl_Scalar, c)
         else if mode = SPX_SHA_BACKEND_ARM
         then (if ob_arm_sha b
               then (if spx_sha2_arm_can_use_sha256 \<noteq> 0 then (Impl_ARM_SHA, c) else (Impl_Scalar, c))
               else (Impl_Scalar, c))
         else if mode = SPX_SHA_BACKEND_X86
         then (let (ni, c) = spx_sha2_x86_can_use_sha256_ni b m c
               in if ni \<noteq> 0 then (Impl_X86_SHA_NI, c) else (Impl_Scalar, c))
         else if mode = SPX_SHA_BACKEND_COMMONCRYPTO
         then (if ob_commoncrypto b then (Impl_CommonCrypto, c) else (Impl_Scalar, c))
         else (let (ni, c) = spx_sha2_x86_can_use_sha256_ni b m c
               in if ni \<noteq> 0 then (Impl_X86_SHA_NI, c)
                  else if ob_arm_sha b \<and> spx_sha2_arm_can_use_sha256 \<noteq> 0 then (Impl_ARM_SHA, c)
                  else if ob_commoncrypto b then (Impl_CommonCrypto, c)
                  else (Impl_Scalar, c)))"

definition spx_sha512_select_hashblocks_impl ::
    "opt_build \<Rightarrow> opt_machine \<Rightarrow> opt_cache \<Rightarrow> sha2_impl \<times> opt_cache" where
  "spx_sha512_select_hashblocks_impl b m c =
     (let (mode, c) = spx_opt_sha_backend_mode b m c;
          (off, c) = spx_opt_disable_sha_accel b m c
      in if off \<noteq> 0 \<or> mode = SPX_SHA_BACKEND_SCALAR then (Impl_Scalar, c)
         else if mode = SPX_SHA_BACKEND_ARM
         then (if ob_arm_sha b
               then (if spx_sha2_arm_can_use_sha512 \<noteq> 0 then (Impl_ARM_SHA, c) else (Impl_Scalar, c))
               else (Impl_Scalar, c))
         else if mode = SPX_SHA_BACKEND_X86
         then (let (ni, c) = spx_sha2_x86_can_use_sha512_ni b m c
               in if ni \<noteq> 0 then (Impl_X86_SHA_NI, c) else (Impl_Scalar, c))
         else if mode = SPX_SHA_BACKEND_COMMONCRYPTO
         then (if ob_commoncrypto b then (Impl_CommonCrypto, c) else (Impl_Scalar, c))
         else (let (ni, c) = spx_sha2_x86_can_use_sha512_ni b m c
               in if ni \<noteq> 0 then (Impl_X86_SHA_NI, c)
                  else if ob_arm_sha b \<and> spx_sha2_arm_can_use_sha512 \<noteq> 0 then (Impl_ARM_SHA, c)
                  else if ob_commoncrypto b then (Impl_CommonCrypto, c)
                  else (Impl_Scalar, c)))"

definition spx_sha256_get_hashblocks_impl ::
    "opt_build \<Rightarrow> opt_machine \<Rightarrow> opt_cache \<Rightarrow> sha2_impl \<times> opt_cache" where
  "spx_sha256_get_hashblocks_impl b m c =
     (case oc_sha256_impl c of
        None \<Rightarrow> (let (impl, c) = spx_sha256_select_hashblocks_impl b m c
                 in (impl, c\<lparr>oc_sha256_impl := Some impl\<rparr>))
      | Some impl \<Rightarrow> (impl, c))"

definition spx_sha512_get_hashblocks_impl ::
    "opt_build \<Rightarrow> opt_machine \<Rightarrow> opt_cache \<Rightarrow> sha2_impl \<times> opt_cache" where
  "spx_sha512_get_hashblocks_impl b m c =
     (case oc_sha512_impl c of
        None \<Rightarrow> (let (impl, c) = spx_sha512_select_hashblocks_impl b m c
                 in (impl, c\<lparr>oc_sha512_impl := Some impl\<rparr>))
      | Some impl \<Rightarrow> (impl, c))"

text \<open>What the test helpers report of the cached pointers (\<open>SPX_SHA2_IMPL_UNINITIALIZED\<close> is 0).\<close>

fun sha2_impl_code :: "sha2_impl \<Rightarrow> int" where
  "sha2_impl_code Impl_Scalar = 1"
| "sha2_impl_code Impl_X86_SHA_NI = 2"
| "sha2_impl_code Impl_ARM_SHA = 3"
| "sha2_impl_code Impl_CommonCrypto = 4"

definition spx_sha2_test_sha256_impl :: "opt_cache \<Rightarrow> int" where
  "spx_sha2_test_sha256_impl c = (case oc_sha256_impl c of None \<Rightarrow> 0 | Some impl \<Rightarrow> sha2_impl_code impl)"

definition spx_sha2_test_sha512_impl :: "opt_cache \<Rightarrow> int" where
  "spx_sha2_test_sha512_impl c = (case oc_sha512_impl c of None \<Rightarrow> 0 | Some impl \<Rightarrow> sha2_impl_code impl)"

section \<open>The caches hold what a fresh evaluation gives\<close>

text \<open>The values a first call computes.\<close>

definition fresh_accel_off :: "opt_build \<Rightarrow> opt_machine \<Rightarrow> int" where
  "fresh_accel_off b m = fst (spx_opt_disable_sha_accel b m opt_cache_init)"

definition fresh_simd_off :: "opt_build \<Rightarrow> opt_machine \<Rightarrow> int" where
  "fresh_simd_off b m = fst (spx_opt_disable_simd b m opt_cache_init)"

definition fresh_mode :: "opt_build \<Rightarrow> opt_machine \<Rightarrow> int" where
  "fresh_mode b m = fst (spx_opt_sha_backend_mode b m opt_cache_init)"

definition fresh_ni256 :: "opt_build \<Rightarrow> opt_machine \<Rightarrow> int" where
  "fresh_ni256 b m = fst (spx_sha2_x86_can_use_sha256_ni b m opt_cache_init)"

definition fresh_ni512 :: "opt_build \<Rightarrow> opt_machine \<Rightarrow> int" where
  "fresh_ni512 b m = fst (spx_sha2_x86_can_use_sha512_ni b m opt_cache_init)"

definition fresh_impl256 :: "opt_build \<Rightarrow> opt_machine \<Rightarrow> sha2_impl" where
  "fresh_impl256 b m = fst (spx_sha256_select_hashblocks_impl b m opt_cache_init)"

definition fresh_impl512 :: "opt_build \<Rightarrow> opt_machine \<Rightarrow> sha2_impl" where
  "fresh_impl512 b m = fst (spx_sha512_select_hashblocks_impl b m opt_cache_init)"

definition cache_inv :: "opt_build \<Rightarrow> opt_machine \<Rightarrow> opt_cache \<Rightarrow> bool" where
  "cache_inv b m c \<longleftrightarrow>
     (oc_disable_sha_accel c \<ge> 0 \<longrightarrow> oc_disable_sha_accel c = fresh_accel_off b m) \<and>
     (oc_disable_simd c \<ge> 0 \<longrightarrow> oc_disable_simd c = fresh_simd_off b m) \<and>
     (ob_knobs b \<and> oc_backend_mode c \<ge> 0 \<longrightarrow> oc_backend_mode c = fresh_mode b m) \<and>
     (ob_sha256_intrinsics b \<and> oc_sha256_ni c \<ge> 0 \<longrightarrow> oc_sha256_ni c = fresh_ni256 b m) \<and>
     (ob_sha512_intrinsics b \<and> oc_sha512_ni c \<ge> 0 \<longrightarrow> oc_sha512_ni c = fresh_ni512 b m) \<and>
     (\<forall>i. oc_sha256_impl c = Some i \<longrightarrow> i = fresh_impl256 b m) \<and>
     (\<forall>i. oc_sha512_impl c = Some i \<longrightarrow> i = fresh_impl512 b m)"

lemma cache_inv_init [simp]: "cache_inv b m opt_cache_init"
  by (simp add: cache_inv_def opt_cache_init_def)

text \<open>Each read either serves the cache or computes and stores the fresh value.\<close>

lemma disable_sha_accel_run:
  "spx_opt_disable_sha_accel b m c =
     (if oc_disable_sha_accel c < 0 then (fresh_accel_off b m, c\<lparr>oc_disable_sha_accel := fresh_accel_off b m\<rparr>)
      else (oc_disable_sha_accel c, c))"
  by (simp add: fresh_accel_off_def spx_opt_disable_sha_accel_def opt_cache_init_def Let_def)

lemma disable_simd_run:
  "spx_opt_disable_simd b m c =
     (if oc_disable_simd c < 0 then (fresh_simd_off b m, c\<lparr>oc_disable_simd := fresh_simd_off b m\<rparr>)
      else (oc_disable_simd c, c))"
  by (simp add: fresh_simd_off_def spx_opt_disable_simd_def opt_cache_init_def Let_def)

lemma backend_mode_run:
  "spx_opt_sha_backend_mode b m c =
     (if ob_production b \<or> \<not> ob_knobs b then (fresh_mode b m, c)
      else if oc_backend_mode c < 0 then (fresh_mode b m, c\<lparr>oc_backend_mode := fresh_mode b m\<rparr>)
      else (oc_backend_mode c, c))"
  by (simp only: fresh_mode_def spx_opt_sha_backend_mode_def opt_cache_init_def Let_def split: if_split) simp

lemma sha256_ni_run:
  "spx_sha2_x86_can_use_sha256_ni b m c =
     (if \<not> ob_sha256_intrinsics b then (fresh_ni256 b m, c)
      else if oc_sha256_ni c < 0 then (fresh_ni256 b m, c\<lparr>oc_sha256_ni := fresh_ni256 b m\<rparr>)
      else (oc_sha256_ni c, c))"
  by (simp add: fresh_ni256_def spx_sha2_x86_can_use_sha256_ni_def opt_cache_init_def Let_def)

lemma sha512_ni_run:
  "spx_sha2_x86_can_use_sha512_ni b m c =
     (if \<not> ob_sha512_intrinsics b then (fresh_ni512 b m, c)
      else if oc_sha512_ni c < 0 then (fresh_ni512 b m, c\<lparr>oc_sha512_ni := fresh_ni512 b m\<rparr>)
      else (oc_sha512_ni c, c))"
  by (simp add: fresh_ni512_def spx_sha2_x86_can_use_sha512_ni_def opt_cache_init_def Let_def)

lemma disable_sha_accel_cached:
  assumes "cache_inv b m c"
  shows "fst (spx_opt_disable_sha_accel b m c) = fresh_accel_off b m"
    and "cache_inv b m (snd (spx_opt_disable_sha_accel b m c))"
  using assms by (simp_all add: cache_inv_def disable_sha_accel_run)

lemma disable_simd_cached:
  assumes "cache_inv b m c"
  shows "fst (spx_opt_disable_simd b m c) = fresh_simd_off b m"
    and "cache_inv b m (snd (spx_opt_disable_simd b m c))"
  using assms by (simp_all add: cache_inv_def disable_simd_run)

lemma backend_mode_cached:
  assumes "cache_inv b m c"
  shows "fst (spx_opt_sha_backend_mode b m c) = fresh_mode b m"
    and "cache_inv b m (snd (spx_opt_sha_backend_mode b m c))"
  using assms by (simp_all add: cache_inv_def backend_mode_run)

lemma sha256_ni_cached:
  assumes "cache_inv b m c"
  shows "fst (spx_sha2_x86_can_use_sha256_ni b m c) = fresh_ni256 b m"
    and "cache_inv b m (snd (spx_sha2_x86_can_use_sha256_ni b m c))"
  using assms by (simp_all add: cache_inv_def sha256_ni_run)

lemma sha512_ni_cached:
  assumes "cache_inv b m c"
  shows "fst (spx_sha2_x86_can_use_sha512_ni b m c) = fresh_ni512 b m"
    and "cache_inv b m (snd (spx_sha2_x86_can_use_sha512_ni b m c))"
  using assms by (simp_all add: cache_inv_def sha512_ni_run)

lemmas cached_reads = disable_sha_accel_cached disable_simd_cached backend_mode_cached sha256_ni_cached sha512_ni_cached

lemma sha256_select_run:
  assumes "cache_inv b m c"
  shows "fst (spx_sha256_select_hashblocks_impl b m c) =
      (if fresh_accel_off b m \<noteq> 0 \<or> fresh_mode b m = SPX_SHA_BACKEND_SCALAR \<or> fresh_mode b m = SPX_SHA_BACKEND_ARM
       then Impl_Scalar
       else if fresh_mode b m = SPX_SHA_BACKEND_X86
       then (if fresh_ni256 b m \<noteq> 0 then Impl_X86_SHA_NI else Impl_Scalar)
       else if fresh_mode b m \<noteq> SPX_SHA_BACKEND_COMMONCRYPTO \<and> fresh_ni256 b m \<noteq> 0 then Impl_X86_SHA_NI
       else if ob_commoncrypto b then Impl_CommonCrypto else Impl_Scalar)"
    and "cache_inv b m (snd (spx_sha256_select_hashblocks_impl b m c))"
  using cached_reads assms
  by (simp_all add: spx_sha256_select_hashblocks_impl_def spx_sha2_arm_can_use_sha256_def split_def Let_def)

lemma sha256_get_cached:
  assumes "cache_inv b m c"
  shows "fst (spx_sha256_get_hashblocks_impl b m c) = fresh_impl256 b m"
    and "cache_inv b m (snd (spx_sha256_get_hashblocks_impl b m c))"
    and "oc_sha256_impl (snd (spx_sha256_get_hashblocks_impl b m c)) = Some (fresh_impl256 b m)"
proof -
  have sel: "fst (spx_sha256_select_hashblocks_impl b m c) = fresh_impl256 b m"
    by (simp add: fresh_impl256_def sha256_select_run(1) [OF assms] sha256_select_run(1) [OF cache_inv_init])
  show "fst (spx_sha256_get_hashblocks_impl b m c) = fresh_impl256 b m"
    "cache_inv b m (snd (spx_sha256_get_hashblocks_impl b m c))"
    "oc_sha256_impl (snd (spx_sha256_get_hashblocks_impl b m c)) = Some (fresh_impl256 b m)"
    using assms sel sha256_select_run(2) [OF assms]
    by (auto simp: spx_sha256_get_hashblocks_impl_def split_def Let_def cache_inv_def split: option.split)
qed

lemma sha512_select_run:
  assumes "cache_inv b m c"
  shows "fst (spx_sha512_select_hashblocks_impl b m c) =
      (if fresh_accel_off b m \<noteq> 0 \<or> fresh_mode b m = SPX_SHA_BACKEND_SCALAR \<or> fresh_mode b m = SPX_SHA_BACKEND_ARM
       then Impl_Scalar
       else if fresh_mode b m = SPX_SHA_BACKEND_X86
       then (if fresh_ni512 b m \<noteq> 0 then Impl_X86_SHA_NI else Impl_Scalar)
       else if fresh_mode b m \<noteq> SPX_SHA_BACKEND_COMMONCRYPTO \<and> fresh_ni512 b m \<noteq> 0 then Impl_X86_SHA_NI
       else if ob_commoncrypto b then Impl_CommonCrypto else Impl_Scalar)"
    and "cache_inv b m (snd (spx_sha512_select_hashblocks_impl b m c))"
  using cached_reads assms
  by (simp_all add: spx_sha512_select_hashblocks_impl_def spx_sha2_arm_can_use_sha512_def split_def Let_def)

lemma sha512_get_cached:
  assumes "cache_inv b m c"
  shows "fst (spx_sha512_get_hashblocks_impl b m c) = fresh_impl512 b m"
    and "cache_inv b m (snd (spx_sha512_get_hashblocks_impl b m c))"
    and "oc_sha512_impl (snd (spx_sha512_get_hashblocks_impl b m c)) = Some (fresh_impl512 b m)"
proof -
  have sel: "fst (spx_sha512_select_hashblocks_impl b m c) = fresh_impl512 b m"
    by (simp add: fresh_impl512_def sha512_select_run(1) [OF assms] sha512_select_run(1) [OF cache_inv_init])
  show "fst (spx_sha512_get_hashblocks_impl b m c) = fresh_impl512 b m"
    "cache_inv b m (snd (spx_sha512_get_hashblocks_impl b m c))"
    "oc_sha512_impl (snd (spx_sha512_get_hashblocks_impl b m c)) = Some (fresh_impl512 b m)"
    using assms sel sha512_select_run(2) [OF assms]
    by (auto simp: spx_sha512_get_hashblocks_impl_def split_def Let_def cache_inv_def split: option.split)
qed

text \<open>Choosing the SHA-512 function leaves the SHA-256 pointer alone.\<close>

lemma reads_keep256:
  "oc_sha256_impl (snd (spx_opt_disable_sha_accel b m c)) = oc_sha256_impl c"
  "oc_sha256_impl (snd (spx_opt_sha_backend_mode b m c)) = oc_sha256_impl c"
  "oc_sha256_impl (snd (spx_sha2_x86_can_use_sha512_ni b m c)) = oc_sha256_impl c"
  by (simp_all add: disable_sha_accel_run backend_mode_run sha512_ni_run)

lemma sha512_get_keeps256:
  "oc_sha256_impl (snd (spx_sha512_get_hashblocks_impl b m c)) = oc_sha256_impl c"
proof -
  have "oc_sha256_impl (snd (spx_sha512_select_hashblocks_impl b m c)) = oc_sha256_impl c"
    by (simp add: spx_sha512_select_hashblocks_impl_def split_def Let_def reads_keep256)
  then show ?thesis
    by (simp add: spx_sha512_get_hashblocks_impl_def split_def Let_def split: option.split)
qed

section \<open>Which block function runs\<close>

lemma production_scalar:
  "ob_production b \<Longrightarrow> fresh_impl256 b m = Impl_Scalar"
  "ob_production b \<Longrightarrow> fresh_impl512 b m = Impl_Scalar"
  by (simp_all add: fresh_impl256_def fresh_impl512_def sha256_select_run sha512_select_run
      fresh_mode_def spx_opt_sha_backend_mode_def)

lemma fresh_ni_detected:
  "fresh_ni256 b m \<noteq> 0 \<longleftrightarrow> ob_sha256_intrinsics b \<and> spx_detect_sha256_ni m"
  "fresh_ni512 b m \<noteq> 0 \<longleftrightarrow> ob_sha512_intrinsics b \<and> spx_detect_sha512_ni m"
  by (simp_all add: fresh_ni256_def fresh_ni512_def spx_sha2_x86_can_use_sha256_ni_def
      spx_sha2_x86_can_use_sha512_ni_def opt_cache_init_def Let_def)

text \<open>The backend a knob asks for, when the build has the knobs.\<close>

lemma scalar_profile:
  assumes "ob_knobs b" "om_getenv m ''SPX_OPT_PROFILE'' = Some ''scalar''"
  shows "fresh_impl256 b m = Impl_Scalar" "fresh_impl512 b m = Impl_Scalar"
proof -
  have "fresh_accel_off b m = 1"
    using assms by (simp add: fresh_accel_off_def spx_opt_disable_sha_accel_def spx_opt_profile_is_def opt_cache_init_def Let_def)
  then show "fresh_impl256 b m = Impl_Scalar" "fresh_impl512 b m = Impl_Scalar"
    by (simp_all add: fresh_impl256_def fresh_impl512_def sha256_select_run sha512_select_run)
qed

end
