(* ===== verification/Sha_Ni.thy ===== *)
theory Sha_Ni
  imports Avx2_Sha256 Sha2_Dispatch
begin

text \<open>
  The block functions of \<open>sphincsplus/ref/sha2_x86_shani.c\<close>, which use the SHA extensions of x86: SHA-256 in four
  32-bit lanes, SHA-512 in four 64-bit lanes.  A register is a \<open>quad\<close>, lane 0 the least significant one, and the intrinsics
  are what Intel documents of them.  The locale \<open>sha_extension\<close> holds the argument that is common to
  both: which schedule words and working variables the registers contain after each instruction.
\<close>

section \<open>Registers and intrinsics\<close>

datatype 'w quad = Quad (q0: 'w) (q1: 'w) (q2: 'w) (q3: 'w)

type_synonym m128i = "u32 quad"

fun lanes4 :: "'w quad \<Rightarrow> 'w list" where
  "lanes4 (Quad a b c d) = [a, b, c, d]"

definition of_lanes4 :: "'w list \<Rightarrow> 'w quad" where
  "of_lanes4 l = Quad (l ! 0) (l ! 1) (l ! 2) (l ! 3)"

fun quad_add :: "'a::len word quad \<Rightarrow> 'a word quad \<Rightarrow> 'a word quad" where
  "quad_add (Quad a b c d) (Quad a' b' c' d') = Quad (a + a') (b + b') (c + c') (d + d')"

text \<open>The operations that \<open>sha256rnds2\<close>, \<open>sha256msg1\<close>, \<open>sha256msg2\<close> and their 64-bit counterparts have in common, over the
  functions of the respective hash.  \<open>sha_rnds2\<close> runs two rounds: its operands hold \<open>H, G, D, C\<close> and
  \<open>F, E, B, A\<close> from lane 0 up, and so does its result.\<close>

fun sha_round :: "('a::len word \<Rightarrow> 'a word) \<Rightarrow> ('a word \<Rightarrow> 'a word) \<Rightarrow> 'a word \<Rightarrow> 'a word vars \<Rightarrow> 'a word vars" where
  "sha_round S0 S1 wk (a, b, c, d, e, f, g, h) =
     (Ch e f g + S1 e + wk + h + Maj a b c + S0 a, a, b, c, Ch e f g + S1 e + wk + h + d, e, f, g)"

definition sha_rnds2 :: "('a::len word \<Rightarrow> 'a word) \<Rightarrow> ('a word \<Rightarrow> 'a word) \<Rightarrow> 'a word quad \<Rightarrow> 'a word quad \<Rightarrow> 'a word \<times> 'a word
    \<Rightarrow> 'a word quad" where
  "sha_rnds2 S0 S1 x y wk =
     (let (a, b, c, d, e, f, g, h) = sha_round S0 S1 (snd wk) (sha_round S0 S1 (fst wk)
            (q3 y, q2 y, q3 x, q2 x, q1 y, q0 y, q1 x, q0 x))
      in Quad f e b a)"

definition sha_msg1 :: "('a::len word \<Rightarrow> 'a word) \<Rightarrow> 'a word quad \<Rightarrow> 'a word \<Rightarrow> 'a word quad" where
  "sha_msg1 s0 x w4 = Quad (q0 x + s0 (q1 x)) (q1 x + s0 (q2 x)) (q2 x + s0 (q3 x)) (q3 x + s0 w4)"

definition sha_msg2 :: "('a::len word \<Rightarrow> 'a word) \<Rightarrow> 'a word quad \<Rightarrow> 'a word quad \<Rightarrow> 'a word quad" where
  "sha_msg2 s1 x y =
     (let w16 = q0 x + s1 (q2 y); w17 = q1 x + s1 (q3 y); w18 = q2 x + s1 w16; w19 = q3 x + s1 w17
      in Quad w16 w17 w18 w19)"

text \<open>The 128-bit intrinsics of the SHA-256 code.\<close>

definition mm_loadu_si128 :: "bytes \<Rightarrow> m128i" where
  "mm_loadu_si128 src = of_lanes4 (map (\<lambda>i. load_le32 (drop (4 * i) src)) [0..<4])"

definition mm_storeu_si128 :: "m128i \<Rightarrow> bytes" where
  "mm_storeu_si128 v = concat (map store_le32 (lanes4 v))"

definition mm_set_epi64x :: "u64 \<Rightarrow> u64 \<Rightarrow> m128i" where
  "mm_set_epi64x e1 e0 = Quad (ucast e0) (ucast (drop_bit 32 e0)) (ucast e1) (ucast (drop_bit 32 e1))"

definition mm_add_epi32 :: "m128i \<Rightarrow> m128i \<Rightarrow> m128i" where
  "mm_add_epi32 x y = quad_add x y"

definition mm_shuffle_epi32 :: "m128i \<Rightarrow> nat \<Rightarrow> m128i" where
  "mm_shuffle_epi32 v imm8 = of_lanes4 (map (\<lambda>i. lanes4 v ! (imm8 div 4 ^ i mod 4)) [0..<4])"

definition mm_shuffle_epi8 :: "m128i \<Rightarrow> m128i \<Rightarrow> m128i" where
  "mm_shuffle_epi8 v ctl =
     (let src = mm_storeu_si128 v
      in mm_loadu_si128 (map (\<lambda>k. if bit k 7 then 0 else src ! unat (k AND 15)) (mm_storeu_si128 ctl)))"

definition mm_alignr_epi8 :: "m128i \<Rightarrow> m128i \<Rightarrow> nat \<Rightarrow> m128i" where
  "mm_alignr_epi8 hi lo imm8 = mm_loadu_si128 (drop imm8 (mm_storeu_si128 lo @ mm_storeu_si128 hi))"

definition mm_blend_epi16 :: "m128i \<Rightarrow> m128i \<Rightarrow> nat \<Rightarrow> m128i" where
  "mm_blend_epi16 a b imm8 = mm_loadu_si128 (map (\<lambda>i. if odd (imm8 div 2 ^ (i div 2)) then mm_storeu_si128 b ! i
     else mm_storeu_si128 a ! i) [0..<16])"

definition mm_sha256rnds2_epu32 :: "m128i \<Rightarrow> m128i \<Rightarrow> m128i \<Rightarrow> m128i" where
  "mm_sha256rnds2_epu32 a b k = sha_rnds2 Sigma0_32 Sigma1_32 a b (q0 k, q1 k)"

definition mm_sha256msg1_epu32 :: "m128i \<Rightarrow> m128i \<Rightarrow> m128i" where
  "mm_sha256msg1_epu32 a b = sha_msg1 sigma0_32 a (q0 b)"

definition mm_sha256msg2_epu32 :: "m128i \<Rightarrow> m128i \<Rightarrow> m128i" where
  "mm_sha256msg2_epu32 a b = sha_msg2 sigma1_32 a b"

section \<open>SHA-256\<close>

definition bswap_mask :: m128i where
  "bswap_mask = mm_set_epi64x 0x0c0d0e0f08090a0b 0x0405060700010203"

text \<open>The body of the \<open>while\<close> loop, line by line.\<close>

definition sha256_ni_block :: "m128i \<times> m128i \<Rightarrow> bytes \<Rightarrow> m128i \<times> m128i" where
  "sha256_ni_block = (\<lambda>(state0, state1) data.
     let abef_save = state0; cdgh_save = state1;
         msg = mm_loadu_si128 (drop 0 data);
         msg0 = mm_shuffle_epi8 msg bswap_mask;
         msg = mm_add_epi32 msg0 (mm_set_epi64x 0xE9B5DBA5B5C0FBCF 0x71374491428A2F98);
         state1 = mm_sha256rnds2_epu32 state1 state0 msg;
         msg = mm_shuffle_epi32 msg 0x0E;
         state0 = mm_sha256rnds2_epu32 state0 state1 msg;
         msg1 = mm_loadu_si128 (drop 16 data);
         msg1 = mm_shuffle_epi8 msg1 bswap_mask;
         msg = mm_add_epi32 msg1 (mm_set_epi64x 0xAB1C5ED5923F82A4 0x59F111F13956C25B);
         state1 = mm_sha256rnds2_epu32 state1 state0 msg;
         msg = mm_shuffle_epi32 msg 0x0E;
         state0 = mm_sha256rnds2_epu32 state0 state1 msg;
         msg0 = mm_sha256msg1_epu32 msg0 msg1;
         msg2 = mm_loadu_si128 (drop 32 data);
         msg2 = mm_shuffle_epi8 msg2 bswap_mask;
         msg = mm_add_epi32 msg2 (mm_set_epi64x 0x550C7DC3243185BE 0x12835B01D807AA98);
         state1 = mm_sha256rnds2_epu32 state1 state0 msg;
         msg = mm_shuffle_epi32 msg 0x0E;
         state0 = mm_sha256rnds2_epu32 state0 state1 msg;
         msg1 = mm_sha256msg1_epu32 msg1 msg2;
         msg3 = mm_loadu_si128 (drop 48 data);
         msg3 = mm_shuffle_epi8 msg3 bswap_mask;
         msg = mm_add_epi32 msg3 (mm_set_epi64x 0xC19BF1749BDC06A7 0x80DEB1FE72BE5D74);
         state1 = mm_sha256rnds2_epu32 state1 state0 msg;
         tmp = mm_alignr_epi8 msg3 msg2 4;
         msg0 = mm_add_epi32 msg0 tmp;
         msg0 = mm_sha256msg2_epu32 msg0 msg3;
         msg = mm_shuffle_epi32 msg 0x0E;
         state0 = mm_sha256rnds2_epu32 state0 state1 msg;
         msg2 = mm_sha256msg1_epu32 msg2 msg3;
         msg = mm_add_epi32 msg0 (mm_set_epi64x 0x240CA1CC0FC19DC6 0xEFBE4786E49B69C1);
         state1 = mm_sha256rnds2_epu32 state1 state0 msg;
         tmp = mm_alignr_epi8 msg0 msg3 4;
         msg1 = mm_add_epi32 msg1 tmp;
         msg1 = mm_sha256msg2_epu32 msg1 msg0;
         msg = mm_shuffle_epi32 msg 0x0E;
         state0 = mm_sha256rnds2_epu32 state0 state1 msg;
         msg3 = mm_sha256msg1_epu32 msg3 msg0;
         msg = mm_add_epi32 msg1 (mm_set_epi64x 0x76F988DA5CB0A9DC 0x4A7484AA2DE92C6F);
         state1 = mm_sha256rnds2_epu32 state1 state0 msg;
         tmp = mm_alignr_epi8 msg1 msg0 4;
         msg2 = mm_add_epi32 msg2 tmp;
         msg2 = mm_sha256msg2_epu32 msg2 msg1;
         msg = mm_shuffle_epi32 msg 0x0E;
         state0 = mm_sha256rnds2_epu32 state0 state1 msg;
         msg0 = mm_sha256msg1_epu32 msg0 msg1;
         msg = mm_add_epi32 msg2 (mm_set_epi64x 0xBF597FC7B00327C8 0xA831C66D983E5152);
         state1 = mm_sha256rnds2_epu32 state1 state0 msg;
         tmp = mm_alignr_epi8 msg2 msg1 4;
         msg3 = mm_add_epi32 msg3 tmp;
         msg3 = mm_sha256msg2_epu32 msg3 msg2;
         msg = mm_shuffle_epi32 msg 0x0E;
         state0 = mm_sha256rnds2_epu32 state0 state1 msg;
         msg1 = mm_sha256msg1_epu32 msg1 msg2;
         msg = mm_add_epi32 msg3 (mm_set_epi64x 0x1429296706CA6351 0xD5A79147C6E00BF3);
         state1 = mm_sha256rnds2_epu32 state1 state0 msg;
         tmp = mm_alignr_epi8 msg3 msg2 4;
         msg0 = mm_add_epi32 msg0 tmp;
         msg0 = mm_sha256msg2_epu32 msg0 msg3;
         msg = mm_shuffle_epi32 msg 0x0E;
         state0 = mm_sha256rnds2_epu32 state0 state1 msg;
         msg2 = mm_sha256msg1_epu32 msg2 msg3;
         msg = mm_add_epi32 msg0 (mm_set_epi64x 0x53380D134D2C6DFC 0x2E1B213827B70A85);
         state1 = mm_sha256rnds2_epu32 state1 state0 msg;
         tmp = mm_alignr_epi8 msg0 msg3 4;
         msg1 = mm_add_epi32 msg1 tmp;
         msg1 = mm_sha256msg2_epu32 msg1 msg0;
         msg = mm_shuffle_epi32 msg 0x0E;
         state0 = mm_sha256rnds2_epu32 state0 state1 msg;
         msg3 = mm_sha256msg1_epu32 msg3 msg0;
         msg = mm_add_epi32 msg1 (mm_set_epi64x 0x92722C8581C2C92E 0x766A0ABB650A7354);
         state1 = mm_sha256rnds2_epu32 state1 state0 msg;
         tmp = mm_alignr_epi8 msg1 msg0 4;
         msg2 = mm_add_epi32 msg2 tmp;
         msg2 = mm_sha256msg2_epu32 msg2 msg1;
         msg = mm_shuffle_epi32 msg 0x0E;
         state0 = mm_sha256rnds2_epu32 state0 state1 msg;
         msg0 = mm_sha256msg1_epu32 msg0 msg1;
         msg = mm_add_epi32 msg2 (mm_set_epi64x 0xC76C51A3C24B8B70 0xA81A664BA2BFE8A1);
         state1 = mm_sha256rnds2_epu32 state1 state0 msg;
         tmp = mm_alignr_epi8 msg2 msg1 4;
         msg3 = mm_add_epi32 msg3 tmp;
         msg3 = mm_sha256msg2_epu32 msg3 msg2;
         msg = mm_shuffle_epi32 msg 0x0E;
         state0 = mm_sha256rnds2_epu32 state0 state1 msg;
         msg1 = mm_sha256msg1_epu32 msg1 msg2;
         msg = mm_add_epi32 msg3 (mm_set_epi64x 0x106AA070F40E3585 0xD6990624D192E819);
         state1 = mm_sha256rnds2_epu32 state1 state0 msg;
         tmp = mm_alignr_epi8 msg3 msg2 4;
         msg0 = mm_add_epi32 msg0 tmp;
         msg0 = mm_sha256msg2_epu32 msg0 msg3;
         msg = mm_shuffle_epi32 msg 0x0E;
         state0 = mm_sha256rnds2_epu32 state0 state1 msg;
         msg2 = mm_sha256msg1_epu32 msg2 msg3;
         msg = mm_add_epi32 msg0 (mm_set_epi64x 0x34B0BCB52748774C 0x1E376C0819A4C116);
         state1 = mm_sha256rnds2_epu32 state1 state0 msg;
         tmp = mm_alignr_epi8 msg0 msg3 4;
         msg1 = mm_add_epi32 msg1 tmp;
         msg1 = mm_sha256msg2_epu32 msg1 msg0;
         msg = mm_shuffle_epi32 msg 0x0E;
         state0 = mm_sha256rnds2_epu32 state0 state1 msg;
         msg3 = mm_sha256msg1_epu32 msg3 msg0;
         msg = mm_add_epi32 msg1 (mm_set_epi64x 0x682E6FF35B9CCA4F 0x4ED8AA4A391C0CB3);
         state1 = mm_sha256rnds2_epu32 state1 state0 msg;
         tmp = mm_alignr_epi8 msg1 msg0 4;
         msg2 = mm_add_epi32 msg2 tmp;
         msg2 = mm_sha256msg2_epu32 msg2 msg1;
         msg = mm_shuffle_epi32 msg 0x0E;
         state0 = mm_sha256rnds2_epu32 state0 state1 msg;
         msg = mm_add_epi32 msg2 (mm_set_epi64x 0x8CC7020884C87814 0x78A5636F748F82EE);
         state1 = mm_sha256rnds2_epu32 state1 state0 msg;
         tmp = mm_alignr_epi8 msg2 msg1 4;
         msg3 = mm_add_epi32 msg3 tmp;
         msg3 = mm_sha256msg2_epu32 msg3 msg2;
         msg = mm_shuffle_epi32 msg 0x0E;
         state0 = mm_sha256rnds2_epu32 state0 state1 msg;
         msg = mm_add_epi32 msg3 (mm_set_epi64x 0xC67178F2BEF9A3F7 0xA4506CEB90BEFFFA);
         state1 = mm_sha256rnds2_epu32 state1 state0 msg;
         msg = mm_shuffle_epi32 msg 0x0E;
         state0 = mm_sha256rnds2_epu32 state0 state1 msg;
         state0 = mm_add_epi32 state0 abef_save;
         state1 = mm_add_epi32 state1 cdgh_save
     in (state0, state1))"

text \<open>The loop, and the words of \<open>state\<close> moved into and out of the order the instructions expect.\<close>

function sha256_ni_loop :: "m128i \<times> m128i \<Rightarrow> bytes \<Rightarrow> nat \<Rightarrow> m128i \<times> m128i" where
  "sha256_ni_loop st data len =
     (if 64 \<le> len then sha256_ni_loop (sha256_ni_block st data) (drop 64 data) (len - 64) else st)"
  by pat_completeness auto
termination
  by (relation "measure (\<lambda>(st, data, len). len)") auto
declare sha256_ni_loop.simps [simp del]

definition sha256_ni_enter :: "u32 list \<Rightarrow> m128i \<times> m128i" where
  "sha256_ni_enter state =
     (let tmp = of_lanes4 state;
          state1 = of_lanes4 (drop 4 state);
          tmp = mm_shuffle_epi32 tmp 0xB1;
          state1 = mm_shuffle_epi32 state1 0x1B;
          state0 = mm_alignr_epi8 tmp state1 8;
          state1 = mm_blend_epi16 state1 tmp 0xF0
      in (state0, state1))"

definition sha256_ni_leave :: "m128i \<times> m128i \<Rightarrow> u32 list" where
  "sha256_ni_leave = (\<lambda>(state0, state1).
     let tmp = mm_shuffle_epi32 state0 0x1B;
         state1 = mm_shuffle_epi32 state1 0xB1;
         state0 = mm_blend_epi16 tmp state1 0xF0;
         state1 = mm_alignr_epi8 state1 tmp 8
     in lanes4 state0 @ lanes4 state1)"

definition spx_sha256_process_x86 :: "u32 list \<Rightarrow> bytes \<Rightarrow> nat \<Rightarrow> u32 list" where
  "spx_sha256_process_x86 state data len = sha256_ni_leave (sha256_ni_loop (sha256_ni_enter state) data len)"

section \<open>What the registers hold\<close>

text \<open>The working variables in the order of the two registers, and the words, constants and partial sums of a block with
  words \<open>m\<close> started from the variables \<open>v\<close>: \<open>Q g\<close> holds the four schedule words of group \<open>g\<close>, \<open>P g\<close> the first half
  of the computation of the words of group \<open>g + 4\<close>.\<close>

fun abef :: "'w vars \<Rightarrow> 'w quad" where "abef (a, b, c, d, e, f, g, h) = Quad f e b a"
fun cdgh :: "'w vars \<Rightarrow> 'w quad" where "cdgh (a, b, c, d, e, f, g, h) = Quad h g d c"

lemma sha_round_fips: "sha_round S0 S1 (k + w) s = fips_round S0 S1 k w s"
  by (cases s rule: vars_cases) (simp add: Let_def ac_simps)

lemma cdgh_two: "cdgh (sha_round S0 S1 y (sha_round S0 S1 x s)) = abef s"
  by (cases s rule: vars_cases) simp

lemma sha_rnds2_vars: "sha_rnds2 S0 S1 (cdgh s) (abef s) (x, y) = abef (sha_round S0 S1 y (sha_round S0 S1 x s))"
  by (cases s rule: vars_cases) (simp add: sha_rnds2_def Let_def)

lemma quad_add_vars: "quad_add (abef s) (abef t) = abef (fips_add s t)" "quad_add (cdgh s) (cdgh t) = cdgh (fips_add s t)"
  by (cases s rule: vars_cases; cases t rule: vars_cases; simp)+

locale sha_extension =
  fixes s0 s1 S0 S1 :: "'a::len word \<Rightarrow> 'a word" and K :: "nat \<Rightarrow> 'a word" and m :: "'a word list" and v :: "'a word vars"
    and rnds2 :: "'a word quad \<Rightarrow> 'a word quad \<Rightarrow> 'a word \<times> 'a word \<Rightarrow> 'a word quad"
    and msg1 :: "'a word quad \<Rightarrow> 'a word \<Rightarrow> 'a word quad" and msg2 :: "'a word quad \<Rightarrow> 'a word quad \<Rightarrow> 'a word quad"
  assumes rnds2_vars: "rnds2 (cdgh s) (abef s) (x, y) = abef (sha_round S0 S1 y (sha_round S0 S1 x s))"
    and msg1_lanes: "msg1 (Quad a b c d) e = Quad (a + s0 b) (b + s0 c) (c + s0 d) (d + s0 e)"
    and msg2_lanes: "msg2 (Quad a b c d) (Quad e f g h) = Quad (a + s1 g) (b + s1 h) (c + s1 (a + s1 g)) (d + s1 (b + s1 h))"
begin

definition W :: "nat \<Rightarrow> 'a word" where "W = fips_W s0 s1 m"
definition V :: "nat \<Rightarrow> 'a word vars" where "V t = foldl (\<lambda>s t. fips_round S0 S1 (K t) (W t) s) v [0..<t]"
definition Q :: "nat \<Rightarrow> 'a word quad" where "Q g = Quad (W (4 * g)) (W (4 * g + 1)) (W (4 * g + 2)) (W (4 * g + 3))"
definition KQ :: "nat \<Rightarrow> 'a word quad" where "KQ g = Quad (K (4 * g)) (K (4 * g + 1)) (K (4 * g + 2)) (K (4 * g + 3))"
definition WK :: "nat \<Rightarrow> 'a word \<times> 'a word" where "WK t = (W t + K t, W (t + 1) + K (t + 1))"
definition P :: "nat \<Rightarrow> 'a word quad" where "P g = msg1 (Q g) (W (4 * g + 4))"
definition L :: "nat \<Rightarrow> 'a word quad" where "L g = Quad (W (4 * g + 1)) (W (4 * g + 2)) (W (4 * g + 3)) (W (4 * g + 4))"

lemma V_Suc: "V (Suc t) = sha_round S0 S1 (W t + K t) (V t)"
  using sha_round_fips [of S0 S1 "K t" "W t" "V t"] by (simp add: V_def add.commute)

lemma V_two: "V (t + 2) = sha_round S0 S1 (W (t + 1) + K (t + 1)) (sha_round S0 S1 (W t + K t) (V t))"
  using V_Suc [of t] V_Suc [of "Suc t"] by (simp add: numeral_eq_Suc)

lemma rnds_start: "rnds2 (cdgh (V t)) (abef (V t)) (WK t) = abef (V (t + 2))"
  using V_two [of t] by (simp add: WK_def rnds2_vars)

lemma rnds_step: "u = t + 2 \<Longrightarrow> rnds2 (abef (V t)) (abef (V u)) (WK u) = abef (V (t + 4))"
proof -
  assume "u = t + 2"
  moreover from this have "cdgh (V u) = abef (V t)" using V_two [of t] by (simp add: cdgh_two)
  ultimately show ?thesis using V_two [of u] rnds2_vars [of "V u"] by (simp add: WK_def numeral_eq_Suc)
qed

lemma last_half: "abef (V t) = cdgh (V (t + 2))"
  by (simp only: V_two cdgh_two)

lemma msg1_step: "msg1 (Q g) (q0 (Q (g + 1))) = P g"
  by (simp add: P_def Q_def algebra_simps)

lemma msg2_step: "msg2 (quad_add (P g) (L (g + 2))) (Q (g + 3)) = Q (g + 4)"
proof -
  have step: "W (t + 16) = W t + s0 (W (t + 1)) + W (t + 9) + s1 (W (t + 14))" for t
    unfolding W_def by (subst fips_W.simps) (simp add: algebra_simps numeral_eq_Suc)
  have n: "4 * (g + 4) = 4 * g + 16" "4 * (g + 3) = 4 * g + 12" "4 * (g + 2) = 4 * g + 8" by simp_all
  show ?thesis
    using step [of "4 * g"] step [of "4 * g + 1"] step [of "4 * g + 2"] step [of "4 * g + 3"]
    unfolding P_def Q_def L_def msg1_lanes quad_add.simps msg2_lanes n
    by (simp add: numeral_eq_Suc)
qed

end

interpretation ni32: sha_extension sigma0_32 sigma1_32 Sigma0_32 Sigma1_32 "\<lambda>t. K_32 ! t" m v
    "sha_rnds2 Sigma0_32 Sigma1_32" "sha_msg1 sigma0_32" "sha_msg2 sigma1_32" for m v
  by unfold_locales (simp_all add: sha_rnds2_vars sha_msg1_def sha_msg2_def Let_def)

section \<open>A SHA-NI block is a scalar block\<close>

lemma load_store_le32: "load_le32 (store_le32 v @ r) = v" "load_le32 (store_le32 v) = v"
proof -
  have "load_le32 (store_le32 v @ r) = load_bigendian_32 (u32_to_bytes v)" for r
    by (subst le_be_32(1)) (simp_all add: le_be_32(2) u32_to_bytes_def)
  moreover have "load_bigendian_32 (u32_to_bytes v) = v"
    using load_store_32 [of v] by (simp add: store_bigendian_32_u32)
  ultimately show "load_le32 (store_le32 v @ r) = v" "load_le32 (store_le32 v) = v"
    using append_Nil2 by (simp, metis)
qed

lemma mm_loadu_storeu: "mm_loadu_si128 (store_le32 a @ store_le32 b @ store_le32 c @ store_le32 d @ r) = Quad a b c d"
  by (simp add: mm_loadu_si128_def of_lanes4_def load_store_le32)

lemma mm_storeu_loadu: "16 \<le> length x \<Longrightarrow> mm_storeu_si128 (mm_loadu_si128 x) = take 16 x"
  using concat_pieces_take [of 4 x 4]
  by (simp add: mm_storeu_si128_def mm_loadu_si128_def of_lanes4_def store_load_le32 get_bytes_def upt_4)

lemma ni_constants:
  "mm_set_epi64x 0xE9B5DBA5B5C0FBCF 0x71374491428A2F98 = ni32.KQ 0"
  "mm_set_epi64x 0xAB1C5ED5923F82A4 0x59F111F13956C25B = ni32.KQ 1"
  "mm_set_epi64x 0x550C7DC3243185BE 0x12835B01D807AA98 = ni32.KQ 2"
  "mm_set_epi64x 0xC19BF1749BDC06A7 0x80DEB1FE72BE5D74 = ni32.KQ 3"
  "mm_set_epi64x 0x240CA1CC0FC19DC6 0xEFBE4786E49B69C1 = ni32.KQ 4"
  "mm_set_epi64x 0x76F988DA5CB0A9DC 0x4A7484AA2DE92C6F = ni32.KQ 5"
  "mm_set_epi64x 0xBF597FC7B00327C8 0xA831C66D983E5152 = ni32.KQ 6"
  "mm_set_epi64x 0x1429296706CA6351 0xD5A79147C6E00BF3 = ni32.KQ 7"
  "mm_set_epi64x 0x53380D134D2C6DFC 0x2E1B213827B70A85 = ni32.KQ 8"
  "mm_set_epi64x 0x92722C8581C2C92E 0x766A0ABB650A7354 = ni32.KQ 9"
  "mm_set_epi64x 0xC76C51A3C24B8B70 0xA81A664BA2BFE8A1 = ni32.KQ 10"
  "mm_set_epi64x 0x106AA070F40E3585 0xD6990624D192E819 = ni32.KQ 11"
  "mm_set_epi64x 0x34B0BCB52748774C 0x1E376C0819A4C116 = ni32.KQ 12"
  "mm_set_epi64x 0x682E6FF35B9CCA4F 0x4ED8AA4A391C0CB3 = ni32.KQ 13"
  "mm_set_epi64x 0x8CC7020884C87814 0x78A5636F748F82EE = ni32.KQ 14"
  "mm_set_epi64x 0xC67178F2BEF9A3F7 0xA4506CEB90BEFFFA = ni32.KQ 15"
  unfolding ni32.KQ_def by (simp_all add: mm_set_epi64x_def K_32_def)

lemma bswap_quad:
  assumes "16 \<le> length x"
  shows "mm_shuffle_epi8 (mm_loadu_si128 x) bswap_mask =
    Quad (load_bigendian_32 x) (load_bigendian_32 (drop 4 x)) (load_bigendian_32 (drop 8 x)) (load_bigendian_32 (drop 12 x))"
proof -
  have "mm_storeu_si128 bswap_mask = [3, 2, 1, 0, 7, 6, 5, 4, 11, 10, 9, 8, 15, 14, 13, 12]" by code_simp
  then show ?thesis
    using assms
    by (simp add: mm_shuffle_epi8_def mm_storeu_loadu Let_def)
      (simp add: mm_loadu_si128_def of_lanes4_def load_le32_def load_bigendian_32_def bit_numeral_iff or.commute or.left_commute)
qed

lemma alignr_lanes:
  "mm_alignr_epi8 (Quad e f g h) (Quad a b c d) 4 = Quad b c d e"
  "mm_alignr_epi8 (Quad e f g h) (Quad a b c d) 8 = Quad c d e f"
proof -
  have "drop 4 (store_le32 a @ r) = r" "drop 8 (store_le32 a @ store_le32 b @ r) = r" for r by simp_all
  then show "mm_alignr_epi8 (Quad e f g h) (Quad a b c d) 4 = Quad b c d e" "mm_alignr_epi8 (Quad e f g h) (Quad a b c d) 8 = Quad c d e f"
    using mm_loadu_storeu [of b c d e] mm_loadu_storeu [of c d e f] by (simp_all add: mm_alignr_epi8_def mm_storeu_si128_def)
qed

lemma blend_lanes: "mm_blend_epi16 (Quad a b c d) (Quad e f g h) 0xF0 = Quad a b g h"
proof -
  have "[0..<16] = [0, 1, 2, 3, 4, 5, 6, 7, 8, 9, 10, 11, 12, 13, 14, 15 :: nat]" by code_simp
  then have "mm_blend_epi16 (Quad a b c d) (Quad e f g h) 0xF0 =
      mm_loadu_si128 (store_le32 a @ store_le32 b @ store_le32 g @ store_le32 h @ [])"
    by (simp add: mm_blend_epi16_def mm_storeu_si128_def store_le32_def)
  then show ?thesis by (simp only: mm_loadu_storeu)
qed


text \<open>Each instruction of the block, on registers in the states above.\<close>

lemma shuffle_0E: "mm_shuffle_epi32 (Quad a b c d) 0x0E = Quad c d a a"
  by (simp add: mm_shuffle_epi32_def of_lanes4_def upt_4)

lemma ni_rnds:
  "u = t + 2 \<Longrightarrow> u = 4 * g \<Longrightarrow> mm_sha256rnds2_epu32 (abef (ni32.V m v t)) (abef (ni32.V m v u)) (mm_add_epi32 (ni32.Q m g) (ni32.KQ g)) =
    abef (ni32.V m v (t + 4))"
  "u = t + 2 \<Longrightarrow> u = 4 * g + 2 \<Longrightarrow> mm_sha256rnds2_epu32 (abef (ni32.V m v t)) (abef (ni32.V m v u))
      (mm_shuffle_epi32 (mm_add_epi32 (ni32.Q m g) (ni32.KQ g)) 0x0E) = abef (ni32.V m v (t + 4))"
  "mm_sha256rnds2_epu32 (cdgh (ni32.V m v 0)) (abef (ni32.V m v 0)) (mm_add_epi32 (ni32.Q m 0) (ni32.KQ 0)) = abef (ni32.V m v 2)"
  using ni32.rnds_step [of u t m v] ni32.rnds_start [of m v 0, unfolded add_0]
  by (simp_all add: mm_sha256rnds2_epu32_def mm_add_epi32_def ni32.Q_def ni32.KQ_def ni32.WK_def shuffle_0E numeral_3_eq_3)

lemma ni_msg:
  "h = g + 1 \<Longrightarrow> mm_sha256msg1_epu32 (ni32.Q m g) (ni32.Q m h) = ni32.P m g"
  "h = g + 1 \<Longrightarrow> mm_alignr_epi8 (ni32.Q m h) (ni32.Q m g) 4 = ni32.L m g"
  "i = g + 2 \<Longrightarrow> j = g + 3 \<Longrightarrow> mm_sha256msg2_epu32 (mm_add_epi32 (ni32.P m g) (ni32.L m i)) (ni32.Q m j) = ni32.Q m (g + 4)"
  using ni32.msg1_step [of m g] ni32.msg2_step [of m g]
  by (simp_all add: mm_sha256msg1_epu32_def mm_sha256msg2_epu32_def mm_add_epi32_def)
    (simp add: ni32.Q_def ni32.L_def alignr_lanes algebra_simps)

lemma ni_load:
  assumes "4 * g + 4 \<le> 16" "64 \<le> length data" "m = map (\<lambda>i. load_bigendian_32 (drop (4 * i) data)) [0..<16]" "n = 16 * g"
  shows "mm_shuffle_epi8 (mm_loadu_si128 (drop n data)) bswap_mask = ni32.Q m g"
proof -
  have "ni32.W m i = load_bigendian_32 (drop (4 * i) data)" if "i < 16" for i
    using that by (simp add: ni32.W_def fips_W.simps assms(3))
  then show ?thesis
    using assms(1,2,4) by (simp add: bswap_quad ni32.Q_def algebra_simps)
qed

lemma sha256_ni_block_run:
  assumes "64 \<le> length data"
  shows "sha256_ni_block (abef s, cdgh s) data = (abef (block_sha256 s data), cdgh (block_sha256 s data))"
proof -
  define m where "m = map (\<lambda>i. load_bigendian_32 (drop (4 * i) data)) [0..<16]"
  note ld = ni_load [OF _ assms m_def]
  have l: "mm_shuffle_epi8 (mm_loadu_si128 (drop 0 data)) bswap_mask = ni32.Q m 0"
    "mm_shuffle_epi8 (mm_loadu_si128 (drop 16 data)) bswap_mask = ni32.Q m 1"
    "mm_shuffle_epi8 (mm_loadu_si128 (drop 32 data)) bswap_mask = ni32.Q m 2"
    "mm_shuffle_epi8 (mm_loadu_si128 (drop 48 data)) bswap_mask = ni32.Q m 3"
    by (rule ld; simp)+
  have v: "s = ni32.V m s 0" by (simp add: ni32.V_def)
  have f: "fips_add (ni32.V m s 64) s = block_sha256 s data"
    unfolding ni32.V_def ni32.W_def by (simp add: block_sha256_fips fips_compress_256_def fips_sigmas_32 m_def)
  have "sha256_ni_block (abef (ni32.V m s 0), cdgh (ni32.V m s 0)) data =
      (mm_add_epi32 (abef (ni32.V m s 64)) (abef (ni32.V m s 0)), mm_add_epi32 (abef (ni32.V m s 62)) (cdgh (ni32.V m s 0)))"
    unfolding sha256_ni_block_def prod.case
    by (simp add: l ni_constants ni_rnds ni_msg Let_def del: drop0 cong: let_weak_cong)
  then show ?thesis using ni32.last_half [of m s 62] by (simp add: mm_add_epi32_def quad_add_vars f flip: v)
qed

lemma sha256_ni_loop_run:
  "sha256_ni_loop (abef s, cdgh s) data (64 * (length data div 64)) =
     (abef (fst (blocks_loop_sha256 s data)), cdgh (fst (blocks_loop_sha256 s data))) \<and>
   snd (blocks_loop_sha256 s data) = length data mod 64"
proof (induction s data rule: blocks_loop_sha256.induct)
  case (1 s data)
  show ?case
  proof (cases "64 \<le> length data")
    case True
    then have d: "64 * (length data div 64) - 64 = 64 * (length (drop 64 data) div 64)" "64 \<le> 64 * (length data div 64)"
      "length (drop 64 data) mod 64 = length data mod 64"
      using le_div_geq [of 64 "length data"] le_mod_geq [of 64 "length data"] by simp_all
    then show ?thesis
      using 1 [OF True] True
      by (subst sha256_ni_loop.simps, subst (1 2 3) blocks_loop_sha256.simps) (simp add: sha256_ni_block_run d(1,3) del: length_drop)
  next
    case False
    then show ?thesis by (simp add: sha256_ni_loop.simps blocks_loop_sha256.simps)
  qed
qed

fun vars_list :: "'w vars \<Rightarrow> 'w list" where
  "vars_list (a, b, c, d, e, f, g, h) = [a, b, c, d, e, f, g, h]"

lemma sha256_ni_layout: "sha256_ni_enter (vars_list s) = (abef s, cdgh s)" "sha256_ni_leave (abef s, cdgh s) = vars_list s"
  by (cases s rule: vars_cases, simp add: sha256_ni_enter_def sha256_ni_leave_def Let_def mm_shuffle_epi32_def of_lanes4_def upt_4
      alignr_lanes blend_lanes)+

lemma spx_sha256_process_x86_ref:
  "spx_sha256_process_x86 (vars_list s) data (64 * (length data div 64)) = vars_list (fst (blocks_loop_sha256 s data))"
  by (simp add: spx_sha256_process_x86_def sha256_ni_layout sha256_ni_loop_run)

section \<open>The SHA-256 entry point\<close>

definition spx_load_be32 :: "bytes \<Rightarrow> u32" where
  "spx_load_be32 x = ucast (x ! 3) OR push_bit 8 (ucast (x ! 2)) OR push_bit 16 (ucast (x ! 1)) OR push_bit 24 (ucast (x ! 0))"

definition spx_store_be32 :: "u32 \<Rightarrow> bytes" where
  "spx_store_be32 u = [ucast (drop_bit 24 u), ucast (drop_bit 16 u), ucast (drop_bit 8 u), ucast u]"

text \<open>\<open>inlen & ~63\<close> is \<open>64 * (inlen div 64)\<close>.\<close>

definition spx_sha2_x86_hashblocks_sha256 :: "opt_build \<Rightarrow> opt_machine \<Rightarrow> opt_cache \<Rightarrow> bytes \<Rightarrow> bytes \<Rightarrow> (bytes \<times> nat) \<times> opt_cache" where
  "spx_sha2_x86_hashblocks_sha256 b m c statebytes inp =
     (if ob_sha256_intrinsics b
      then (let full_bytes = 64 * (length inp div 64)
            in if full_bytes = 0 then ((statebytes, length inp), c)
               else (let (usable, c) = spx_sha2_x86_can_use_sha256_ni b m c
                     in if usable = 0 then ((statebytes, length inp), c)
                        else (let state = map (\<lambda>i. spx_load_be32 (drop (4 * i) statebytes)) [0..<8];
                                  state = spx_sha256_process_x86 state inp full_bytes
                              in ((concat (map spx_store_be32 state), length inp - full_bytes), c))))
      else ((statebytes, length inp), c))"

lemma state_words_32:
  "map (\<lambda>i. spx_load_be32 (drop (4 * i) st)) [0..<8] = vars_list (load_state_32 st)"
  "concat (map spx_store_be32 (vars_list s)) = store_state_32 s"
  by (simp add: spx_load_be32_def load_bigendian_32_def load_state_32.simps upt_8)
    (cases s rule: vars_cases, simp add: spx_store_be32_def store_state_32.simps store_bigendian_32_u32 u32_to_bytes_def)

lemma ref256_run: "crypto_hashblocks_sha256_ref st inp = (store_state_32 (fst (blocks_loop_sha256 (load_state_32 st) inp)), length inp mod 64)"
  using sha256_ni_loop_run [of "load_state_32 st" inp] by (simp add: crypto_hashblocks_sha256_ref_def case_prod_beta)

lemma x86_hashblocks_sha256:
  assumes "ob_sha256_intrinsics b" "fst (spx_sha2_x86_can_use_sha256_ni b m c) \<noteq> 0" "length st = 32"
  shows "fst (spx_sha2_x86_hashblocks_sha256 b m c st inp) = crypto_hashblocks_sha256_ref st inp"
  using assms
  by (cases "spx_sha2_x86_can_use_sha256_ni b m c")
    (simp add: spx_sha2_x86_hashblocks_sha256_def Let_def state_words_32 spx_sha256_process_x86_ref ref256_run
      minus_mult_div_eq_mod blocks_loop_sha256.simps [of _ inp] store_load_state dvd_div_eq_0_iff div_eq_0_iff)


end
