(* ===== verification/Sha512_Ni.thy ===== *)
theory Sha512_Ni
  imports Sha_Ni
begin

text \<open>
  The SHA-512 block function of \<open>sphincsplus/ref/sha2_x86_shani.c\<close>, with the SHA-512 extensions of x86.  The instructions are those
  of \<open>Sha_Ni\<close> on 64-bit lanes, and the locale \<open>sha_extension\<close> is interpreted a second time.
\<close>

section \<open>Intrinsics\<close>

text \<open>A 256-bit register as four 64-bit lanes.  The shuffles of 32-bit elements act on the halves of the lanes.\<close>

type_synonym m256q = "u64 quad"

definition halves :: "m256q \<Rightarrow> u32 list" where
  "halves v = concat (map (\<lambda>x. [ucast x, ucast (drop_bit 32 x)]) (lanes4 v))"

definition join_halves :: "u32 \<Rightarrow> u32 \<Rightarrow> u64" where
  "join_halves lo hi = ucast lo OR push_bit 32 (ucast hi)"

definition of_halves :: "u32 list \<Rightarrow> m256q" where
  "of_halves l = of_lanes4 (map (\<lambda>i. join_halves (l ! (2 * i)) (l ! (2 * i + 1))) [0..<4])"

definition mm256q_shuffle_epi32 :: "m256q \<Rightarrow> nat \<Rightarrow> m256q" where
  "mm256q_shuffle_epi32 v imm8 =
     of_halves (map (\<lambda>i. halves v ! (4 * (i div 4) + imm8 div 4 ^ (i mod 4) mod 4)) [0..<8])"

definition mm256q_blend_epi32 :: "m256q \<Rightarrow> m256q \<Rightarrow> nat \<Rightarrow> m256q" where
  "mm256q_blend_epi32 a b imm8 = of_halves (map (\<lambda>i. if odd (imm8 div 2 ^ i) then halves b ! i else halves a ! i) [0..<8])"

definition mm256q_permute4x64_epi64 :: "m256q \<Rightarrow> nat \<Rightarrow> m256q" where
  "mm256q_permute4x64_epi64 v imm8 = of_lanes4 (map (\<lambda>i. lanes4 v ! (imm8 div 4 ^ i mod 4)) [0..<4])"

definition mm256q_extracti128_si256 :: "m256q \<Rightarrow> nat \<Rightarrow> u64 \<times> u64" where
  "mm256q_extracti128_si256 v imm8 = (if even imm8 then (q0 v, q1 v) else (q2 v, q3 v))"

definition half128 :: "m256q \<Rightarrow> m256q \<Rightarrow> nat \<Rightarrow> u64 list" where
  "half128 a b ctl = (if ctl = 0 then [q0 a, q1 a] else if ctl = 1 then [q2 a, q3 a]
     else if ctl = 2 then [q0 b, q1 b] else [q2 b, q3 b])"

definition mm256q_permute2x128_si256 :: "m256q \<Rightarrow> m256q \<Rightarrow> nat \<Rightarrow> m256q" where
  "mm256q_permute2x128_si256 a b imm8 = of_lanes4 (half128 a b (imm8 mod 4) @ half128 a b (imm8 div 16 mod 4))"

definition mm256q_add_epi64 :: "m256q \<Rightarrow> m256q \<Rightarrow> m256q" where
  "mm256q_add_epi64 x y = quad_add x y"

definition mm256q_set_epi64x :: "u64 \<Rightarrow> u64 \<Rightarrow> u64 \<Rightarrow> u64 \<Rightarrow> m256q" where
  "mm256q_set_epi64x e3 e2 e1 e0 = Quad e0 e1 e2 e3"

definition load_le64 :: "bytes \<Rightarrow> u64" where
  "load_le64 x = load_bigendian_64 (rev (take 8 x))"

definition mm256q_loadu_si256 :: "bytes \<Rightarrow> m256q" where
  "mm256q_loadu_si256 src = of_lanes4 (map (\<lambda>i. load_le64 (drop (8 * i) src)) [0..<4])"

definition mm256q_storeu_si256 :: "m256q \<Rightarrow> bytes" where
  "mm256q_storeu_si256 v = concat (map store_u64_le (lanes4 v))"

definition mm256q_shuffle_epi8 :: "m256q \<Rightarrow> m256q \<Rightarrow> m256q" where
  "mm256q_shuffle_epi8 v ctl =
     (let src = mm256q_storeu_si256 v; k = mm256q_storeu_si256 ctl
      in mm256q_loadu_si256 (map (\<lambda>i. if bit (k ! i) 7 then 0 else src ! (16 * (i div 16) + unat (k ! i AND 15))) [0..<32]))"

definition mm256q_sha512rnds2_epi64 :: "m256q \<Rightarrow> m256q \<Rightarrow> u64 \<times> u64 \<Rightarrow> m256q" where
  "mm256q_sha512rnds2_epi64 a b k = sha_rnds2 Sigma0_64 Sigma1_64 a b k"

definition mm256q_sha512msg1_epi64 :: "m256q \<Rightarrow> u64 \<times> u64 \<Rightarrow> m256q" where
  "mm256q_sha512msg1_epi64 a b = sha_msg1 sigma0_64 a (fst b)"

definition mm256q_sha512msg2_epi64 :: "m256q \<Rightarrow> m256q \<Rightarrow> m256q" where
  "mm256q_sha512msg2_epi64 a b = sha_msg2 sigma1_64 a b"

section \<open>The block function\<close>

definition spx_sha512_k :: "u64 list" where
  "spx_sha512_k = concat
     [[0x428A2F98D728AE22, 0x7137449123EF65CD, 0xB5C0FBCFEC4D3B2F, 0xE9B5DBA58189DBBC],
      [0x3956C25BF348B538, 0x59F111F1B605D019, 0x923F82A4AF194F9B, 0xAB1C5ED5DA6D8118],
      [0xD807AA98A3030242, 0x12835B0145706FBE, 0x243185BE4EE4B28C, 0x550C7DC3D5FFB4E2],
      [0x72BE5D74F27B896F, 0x80DEB1FE3B1696B1, 0x9BDC06A725C71235, 0xC19BF174CF692694],
      [0xE49B69C19EF14AD2, 0xEFBE4786384F25E3, 0x0FC19DC68B8CD5B5, 0x240CA1CC77AC9C65],
      [0x2DE92C6F592B0275, 0x4A7484AA6EA6E483, 0x5CB0A9DCBD41FBD4, 0x76F988DA831153B5],
      [0x983E5152EE66DFAB, 0xA831C66D2DB43210, 0xB00327C898FB213F, 0xBF597FC7BEEF0EE4],
      [0xC6E00BF33DA88FC2, 0xD5A79147930AA725, 0x06CA6351E003826F, 0x142929670A0E6E70],
      [0x27B70A8546D22FFC, 0x2E1B21385C26C926, 0x4D2C6DFC5AC42AED, 0x53380D139D95B3DF],
      [0x650A73548BAF63DE, 0x766A0ABB3C77B2A8, 0x81C2C92E47EDAEE6, 0x92722C851482353B],
      [0xA2BFE8A14CF10364, 0xA81A664BBC423001, 0xC24B8B70D0F89791, 0xC76C51A30654BE30],
      [0xD192E819D6EF5218, 0xD69906245565A910, 0xF40E35855771202A, 0x106AA07032BBD1B8],
      [0x19A4C116B8D2D0C8, 0x1E376C085141AB53, 0x2748774CDF8EEB99, 0x34B0BCB5E19B48A8],
      [0x391C0CB3C5C95A63, 0x4ED8AA4AE3418ACB, 0x5B9CCA4F7763E373, 0x682E6FF3D6B2B8A3],
      [0x748F82EE5DEFB2FC, 0x78A5636F43172F60, 0x84C87814A1F0AB72, 0x8CC702081A6439EC],
      [0x90BEFFFA23631E28, 0xA4506CEBDE82BDE9, 0xBEF9A3F7B2C67915, 0xC67178F2E372532B],
      [0xCA273ECEEA26619C, 0xD186B8C721C0C207, 0xEADA7DD6CDE0EB1E, 0xF57D4F7FEE6ED178],
      [0x06F067AA72176FBA, 0x0A637DC5A2C898A6, 0x113F9804BEF90DAE, 0x1B710B35131C471B],
      [0x28DB77F523047D84, 0x32CAAB7B40C72493, 0x3C9EBE0A15C9BEBC, 0x431D67C49C100D4C],
      [0x4CC5D4BECB3E42B6, 0x597F299CFC657E2A, 0x5FCB6FAB3AD6FAEC, 0x6C44198C4A475817]]"

text \<open>\<open>_mm256_loadu_si256(&k[r])\<close>\<close>

definition load_k :: "nat \<Rightarrow> m256q" where
  "load_k r = of_lanes4 (drop (4 * r) spx_sha512_k)"

definition spx_sha512_permute_state :: "m256q \<times> m256q \<Rightarrow> m256q \<times> m256q" where
  "spx_sha512_permute_state = (\<lambda>(state0, state1).
     let state0 = mm256q_shuffle_epi32 state0 0x4E;
         state1 = mm256q_shuffle_epi32 state1 0x4E;
         tmp = state0;
         state0 = mm256q_permute2x128_si256 state0 state1 0x13;
         state1 = mm256q_permute2x128_si256 tmp state1 0x02
     in (state0, state1))"

definition spx_sha512_4rounds :: "m256q \<times> m256q \<Rightarrow> m256q \<Rightarrow> m256q \<Rightarrow> m256q \<times> m256q" where
  "spx_sha512_4rounds = (\<lambda>(state0, state1) msg k.
     let wk = mm256q_add_epi64 msg k;
         state0 = mm256q_sha512rnds2_epi64 state0 state1 (mm256q_extracti128_si256 wk 0);
         state1 = mm256q_sha512rnds2_epi64 state1 state0 (mm256q_extracti128_si256 wk 1)
     in (state0, state1))"

text \<open>It assigns \<open>m2\<close> and \<open>m3\<close>; these are its result.\<close>

definition spx_sha512_msg_expand :: "m256q \<Rightarrow> m256q \<Rightarrow> m256q \<Rightarrow> m256q \<Rightarrow> m256q \<times> m256q" where
  "spx_sha512_msg_expand m0 m1 m2 m3 =
     (let m3 = mm256q_sha512msg1_epi64 m3 (mm256q_extracti128_si256 m0 0);
          m2 = mm256q_add_epi64 m2 (mm256q_permute4x64_epi64 (mm256q_blend_epi32 m0 m1 0x03) 0x39);
          m2 = mm256q_sha512msg2_epi64 m2 m1
      in (m2, m3))"

definition sha512_bswap_mask :: m256q where
  "sha512_bswap_mask = mm256q_set_epi64x 0x08090A0B0C0D0E0F 0x0001020304050607 0x08090A0B0C0D0E0F 0x0001020304050607"

text \<open>The body of \<open>for (r = 2; r != 18; r += 4)\<close>, and the body of the \<open>while\<close> loop around it.\<close>

type_synonym sha512_regs = "(m256q \<times> m256q) \<times> m256q \<times> m256q \<times> m256q \<times> m256q"

definition sha512_ni_group :: "sha512_regs \<Rightarrow> nat \<Rightarrow> sha512_regs" where
  "sha512_ni_group = (\<lambda>(st, m0, m1, m2, m3) r.
     let st = spx_sha512_4rounds st m2 (load_k (r + 0));
         (m0, m1) = spx_sha512_msg_expand m2 m3 m0 m1;
         st = spx_sha512_4rounds st m3 (load_k (r + 1));
         (m1, m2) = spx_sha512_msg_expand m3 m0 m1 m2;
         st = spx_sha512_4rounds st m0 (load_k (r + 2));
         (m2, m3) = spx_sha512_msg_expand m0 m1 m2 m3;
         st = spx_sha512_4rounds st m1 (load_k (r + 3));
         (m3, m0) = spx_sha512_msg_expand m1 m2 m3 m0
     in (st, m0, m1, m2, m3))"

definition sha512_ni_block :: "m256q \<times> m256q \<Rightarrow> bytes \<Rightarrow> m256q \<times> m256q" where
  "sha512_ni_block = (\<lambda>(state0, state1) inp.
     let state0_save = state0; state1_save = state1;
         m0 = mm256q_shuffle_epi8 (mm256q_loadu_si256 (drop 0 inp)) sha512_bswap_mask;
         m1 = mm256q_shuffle_epi8 (mm256q_loadu_si256 (drop 32 inp)) sha512_bswap_mask;
         m2 = mm256q_shuffle_epi8 (mm256q_loadu_si256 (drop 64 inp)) sha512_bswap_mask;
         m3 = mm256q_shuffle_epi8 (mm256q_loadu_si256 (drop 96 inp)) sha512_bswap_mask;
         st = spx_sha512_4rounds (state0, state1) m0 (load_k 0);
         st = spx_sha512_4rounds st m1 (load_k 1);
         m0 = mm256q_sha512msg1_epi64 m0 (mm256q_extracti128_si256 m1 0);
         (st, m0, m1, m2, m3) = foldl sha512_ni_group (st, m0, m1, m2, m3) [2, 6, 10, 14];
         st = spx_sha512_4rounds st m2 (load_k 18);
         (state0, state1) = spx_sha512_4rounds st m3 (load_k 19);
         state0 = mm256q_add_epi64 state0 state0_save;
         state1 = mm256q_add_epi64 state1 state1_save
     in (state0, state1))"

function sha512_ni_loop :: "m256q \<times> m256q \<Rightarrow> bytes \<Rightarrow> nat \<Rightarrow> m256q \<times> m256q" where
  "sha512_ni_loop st inp len =
     (if 128 \<le> len then sha512_ni_loop (sha512_ni_block st inp) (drop 128 inp) (len - 128) else st)"
  by pat_completeness auto
termination
  by (relation "measure (\<lambda>(st, inp, len). len)") auto
declare sha512_ni_loop.simps [simp del]

definition spx_sha512_process_x86 :: "u64 list \<Rightarrow> bytes \<Rightarrow> nat \<Rightarrow> u64 list" where
  "spx_sha512_process_x86 state inp len =
     (let st = spx_sha512_permute_state (of_lanes4 state, of_lanes4 (drop 4 state));
          (state0, state1) = spx_sha512_permute_state (sha512_ni_loop st inp len)
      in lanes4 state0 @ lanes4 state1)"

section \<open>A SHA-NI block is a scalar block\<close>

interpretation ni64: sha_extension sigma0_64 sigma1_64 Sigma0_64 Sigma1_64 "\<lambda>t. K_64 ! t" m v
    "sha_rnds2 Sigma0_64 Sigma1_64" "sha_msg1 sigma0_64" "sha_msg2 sigma1_64" for m v
  by unfold_locales (simp_all add: sha_rnds2_vars sha_msg1_def sha_msg2_def Let_def)

lemma join_split: "join_halves (ucast x) (ucast (drop_bit 32 x)) = x" for x :: u64
  unfolding join_halves_def by (rule bit_word_eqI) (auto simp: bit_simps)

lemma epi32_lanes:
  "mm256q_shuffle_epi32 (Quad a b c d) 0x4E = Quad b a d c"
  "mm256q_blend_epi32 (Quad a b c d) (Quad e f g h) 0x03 = Quad e b c d"
  by (simp_all add: mm256q_shuffle_epi32_def mm256q_blend_epi32_def of_halves_def halves_def of_lanes4_def upt_4 upt_8 join_split)

lemma permute_state_vars:
  "spx_sha512_permute_state (Quad a b c d, Quad e f g h) = (Quad h g d c, Quad f e b a)"
  by (simp add: spx_sha512_permute_state_def epi32_lanes mm256q_permute2x128_si256_def half128_def of_lanes4_def)

lemma spx_sha512_k_K: "spx_sha512_k = K_64"
  by (simp add: spx_sha512_k_def K_64_def)

lemma load_k_KQ: "g < 20 \<Longrightarrow> load_k g = ni64.KQ g"
  by (simp add: load_k_def spx_sha512_k_K of_lanes4_def ni64.KQ_def length_K)

lemma four_rounds:
  assumes "t = 4 * g" "g < 20"
  shows "spx_sha512_4rounds (cdgh (ni64.V m v t), abef (ni64.V m v t)) (ni64.Q m g) (load_k g) =
    (cdgh (ni64.V m v (t + 4)), abef (ni64.V m v (t + 4)))"
proof -
  define wk where "wk = quad_add (ni64.Q m g) (ni64.KQ g)"
  have "(q0 wk, q1 wk) = ni64.WK m t" "(q2 wk, q3 wk) = ni64.WK m (t + 2)"
    by (simp_all add: wk_def ni64.Q_def ni64.KQ_def ni64.WK_def assms(1) numeral_3_eq_3)
  then show ?thesis
    using ni64.rnds_start [of m v t] ni64.rnds_step [of "t + 2" t m v] ni64.last_half [of m v "t + 2"] load_k_KQ [OF assms(2)]
    by (simp add: spx_sha512_4rounds_def mm256q_sha512rnds2_epi64_def mm256q_extracti128_si256_def mm256q_add_epi64_def
        numeral_eq_Suc flip: wk_def)
qed

lemma msg_expand_run:
  assumes "h = g + 1" "i = g + 2" "j = g + 3"
  shows "spx_sha512_msg_expand (ni64.Q m i) (ni64.Q m j) (ni64.P m g) (ni64.Q m h) = (ni64.Q m (g + 4), ni64.P m h)"
proof -
  have "mm256q_permute4x64_epi64 (mm256q_blend_epi32 (ni64.Q m i) (ni64.Q m j) 0x03) 0x39 = ni64.L m i"
    unfolding ni64.Q_def epi32_lanes
    by (simp add: assms ni64.L_def mm256q_permute4x64_epi64_def of_lanes4_def upt_4 algebra_simps)
  moreover have "ni64.Q m (g + 2) = ni64.Q m (h + 1)" using assms by simp
  ultimately show ?thesis
    using ni64.msg1_step [of m h] ni64.msg2_step [of m g] assms(2,3)
    by (simp add: spx_sha512_msg_expand_def mm256q_sha512msg1_epi64_def mm256q_sha512msg2_epi64_def mm256q_add_epi64_def
        mm256q_extracti128_si256_def)
qed

definition regs_at :: "u64 list \<Rightarrow> u64 vars \<Rightarrow> nat \<Rightarrow> sha512_regs" where
  "regs_at m v g = ((cdgh (ni64.V m v (4 * g + 8)), abef (ni64.V m v (4 * g + 8))),
     ni64.P m g, ni64.Q m (g + 1), ni64.Q m (g + 2), ni64.Q m (g + 3))"

lemma group_run:
  assumes "g + 2 = r" "r \<le> 14"
  shows "sha512_ni_group (regs_at m v g) r = regs_at m v (g + 4)"
proof -
  have a: "g + 2 < 20" "g + 3 < 20" "g + 4 < 20" "g + 5 < 20" using assms by simp_all
  have r: "r + 0 = g + 2" "r + 1 = g + 3" "r + 2 = g + 4" "r + 3 = g + 5" using assms(1) by simp_all
  have t: "4 * g + 8 + 4 = 4 * g + 12" "4 * g + 12 + 4 = 4 * g + 16" "4 * g + 16 + 4 = 4 * g + 20" "4 * g + 20 + 4 = 4 * g + 24"
    "4 * (g + 4) + 8 = 4 * g + 24" by simp_all
  have f: "4 * g + 8 = 4 * (g + 2)" "4 * g + 12 = 4 * (g + 3)" "4 * g + 16 = 4 * (g + 4)" "4 * g + 20 = 4 * (g + 5)" by simp_all
  have e: "spx_sha512_msg_expand (ni64.Q m (g + 2)) (ni64.Q m (g + 3)) (ni64.P m g) (ni64.Q m (g + 1)) = (ni64.Q m (g + 4), ni64.P m (g + 1))"
    "spx_sha512_msg_expand (ni64.Q m (g + 3)) (ni64.Q m (g + 4)) (ni64.P m (g + 1)) (ni64.Q m (g + 2)) = (ni64.Q m (g + 5), ni64.P m (g + 2))"
    "spx_sha512_msg_expand (ni64.Q m (g + 4)) (ni64.Q m (g + 5)) (ni64.P m (g + 2)) (ni64.Q m (g + 3)) = (ni64.Q m (g + 6), ni64.P m (g + 3))"
    "spx_sha512_msg_expand (ni64.Q m (g + 5)) (ni64.Q m (g + 6)) (ni64.P m (g + 3)) (ni64.Q m (g + 4)) = (ni64.Q m (g + 7), ni64.P m (g + 4))"
    using msg_expand_run [of "g + 1" g "g + 2" "g + 3" m] msg_expand_run [of "g + 2" "g + 1" "g + 3" "g + 4" m]
      msg_expand_run [of "g + 3" "g + 2" "g + 4" "g + 5" m] msg_expand_run [of "g + 4" "g + 3" "g + 5" "g + 6" m]
    by (simp_all add: algebra_simps)
  show ?thesis
    using four_rounds [OF f(1) a(1), of m v] four_rounds [OF f(2) a(2), of m v] four_rounds [OF f(3) a(3), of m v]
      four_rounds [OF f(4) a(4), of m v] e
    unfolding sha512_ni_group_def regs_at_def prod.case Let_def r t by (simp add: algebra_simps)
qed

lemma store_u64_le_rev: "store_u64_le v = rev (store_bigendian_64 v)"
  by (simp add: store_u64_le_def store_bigendian_64_def Let_def upt_8 drop_bit_drop_bit)

lemma store_load_le64: "8 \<le> length x \<Longrightarrow> store_u64_le (load_le64 x) = take 8 x"
  using store_load_64 [of "rev (take 8 x)"] by (simp add: store_u64_le_rev load_le64_def)

lemma mm256q_storeu_loadu: "32 \<le> length x \<Longrightarrow> mm256q_storeu_si256 (mm256q_loadu_si256 x) = take 32 x"
  using concat_pieces_take [of 8 x 4]
  by (simp add: mm256q_storeu_si256_def mm256q_loadu_si256_def of_lanes4_def store_load_le64 get_bytes_def upt_4)

lemma bswap_quad_64:
  assumes "32 \<le> length x"
  shows "mm256q_shuffle_epi8 (mm256q_loadu_si256 x) sha512_bswap_mask =
    Quad (load_bigendian_64 x) (load_bigendian_64 (drop 8 x)) (load_bigendian_64 (drop 16 x)) (load_bigendian_64 (drop 24 x))"
proof -
  define k where "k = mm256q_storeu_si256 sha512_bswap_mask"
  have kb: "k = [7, 6, 5, 4, 3, 2, 1, 0, 15, 14, 13, 12, 11, 10, 9, 8,
      7, 6, 5, 4, 3, 2, 1, 0, 15, 14, 13, 12, 11, 10, 9, 8]" unfolding k_def by code_simp
  define f where "f i = (if bit (k ! i) 7 then 0
      else take 32 x ! (16 * (i div 16) + unat (k ! i AND 15)))" for i
  have "map (\<lambda>i. (bit (k ! i) 7,
        16 * (i div 16) + unat (k ! i AND 15))) [0..<32] =
      map (\<lambda>i. (False, 8 * (i div 8) + (7 - i mod 8))) [0..<32]" unfolding kb by code_simp
  then have ki: "\<not> bit (k ! i) 7"
      "16 * (i div 16) + unat (k ! i AND 15) = 8 * (i div 8) + (7 - i mod 8)" if "i < 32" for i
    using that by (simp_all add: map_eq_conv)
  have f: "f i = x ! (8 * (i div 8) + (7 - i mod 8))" if "i < 32" for i
  proof -
    have "i div 8 < 4" using that by (simp add: less_mult_imp_div_less)
    then have "8 * (i div 8) + (7 - i mod 8) < 32" by linarith
    then show ?thesis unfolding f_def ki(2) [OF that] using ki(1) [OF that] by simp
  qed
  have "load_le64 (drop (8 * q) (map f [0..<32])) = load_bigendian_64 (drop (8 * q) x)" if "q < 4" for q
  proof -
    have "rev (take 8 (drop (8 * q) (map f [0..<32]))) ! r = drop (8 * q) x ! r" if "r < 8" for r
    proof -
      have "8 * q + (7 - r) < 32" "(8 * q + (7 - r)) div 8 = q" "(8 * q + (7 - r)) mod 8 = 7 - r"
        using that \<open>q < 4\<close> mod_mult_self4 [of 8 q "7 - r"] by simp_all
      then show ?thesis using f [of "8 * q + (7 - r)"] that assms \<open>q < 4\<close> by (simp add: rev_nth)
    qed
    then show ?thesis by (simp add: load_le64_def load_bigendian_64_def)
  qed
  note g = this [of 0] this [of 1] this [of 2] this [of 3]
  show ?thesis
    using assms g
    by (simp add: mm256q_shuffle_epi8_def mm256q_storeu_loadu Let_def mm256q_loadu_si256_def [of "map _ _"] of_lanes4_def
        flip: k_def f_def del: upt_Suc)
qed

lemma ni_load_64:
  assumes "4 * g + 4 \<le> 16" "128 \<le> length inp" "m = map (\<lambda>i. load_bigendian_64 (drop (8 * i) inp)) [0..<16]" "n = 32 * g"
  shows "mm256q_shuffle_epi8 (mm256q_loadu_si256 (drop n inp)) sha512_bswap_mask = ni64.Q m g"
proof -
  have "ni64.W m i = load_bigendian_64 (drop (8 * i) inp)" if "i < 16" for i
    using that by (simp add: ni64.W_def fips_W.simps assms(3))
  then show ?thesis
    using assms(1,2,4) by (simp add: bswap_quad_64 ni64.Q_def algebra_simps)
qed

lemma sha512_ni_block_run:
  assumes "128 \<le> length inp"
  shows "sha512_ni_block (cdgh s, abef s) inp = (cdgh (block_sha512 s inp), abef (block_sha512 s inp))"
proof -
  define m where "m = map (\<lambda>i. load_bigendian_64 (drop (8 * i) inp)) [0..<16]"
  note ld = ni_load_64 [OF _ assms m_def]
  have l: "mm256q_shuffle_epi8 (mm256q_loadu_si256 (drop 0 inp)) sha512_bswap_mask = ni64.Q m 0"
    "mm256q_shuffle_epi8 (mm256q_loadu_si256 (drop 32 inp)) sha512_bswap_mask = ni64.Q m 1"
    "mm256q_shuffle_epi8 (mm256q_loadu_si256 (drop 64 inp)) sha512_bswap_mask = ni64.Q m 2"
    "mm256q_shuffle_epi8 (mm256q_loadu_si256 (drop 96 inp)) sha512_bswap_mask = ni64.Q m 3"
    by (rule ld; simp)+
  have v: "s = ni64.V m s 0" by (simp add: ni64.V_def)
  have f: "fips_add (ni64.V m s 80) s = block_sha512 s inp"
    unfolding ni64.V_def ni64.W_def by (simp add: block_sha512_fips fips_compress_512_def fips_sigmas_64 m_def)
  have r: "spx_sha512_4rounds (cdgh (ni64.V m s 0), abef (ni64.V m s 0)) (ni64.Q m 0) (load_k 0) = (cdgh (ni64.V m s 4), abef (ni64.V m s 4))"
    "spx_sha512_4rounds (cdgh (ni64.V m s 4), abef (ni64.V m s 4)) (ni64.Q m 1) (load_k 1) = (cdgh (ni64.V m s 8), abef (ni64.V m s 8))"
    "spx_sha512_4rounds (cdgh (ni64.V m s 72), abef (ni64.V m s 72)) (ni64.Q m 18) (load_k 18) = (cdgh (ni64.V m s 76), abef (ni64.V m s 76))"
    "spx_sha512_4rounds (cdgh (ni64.V m s 76), abef (ni64.V m s 76)) (ni64.Q m 19) (load_k 19) = (cdgh (ni64.V m s 80), abef (ni64.V m s 80))"
    using four_rounds [of 0 0 m s] four_rounds [of 4 1 m s] four_rounds [of 72 18 m s] four_rounds [of 76 19 m s] by simp_all
  have p: "mm256q_sha512msg1_epi64 (ni64.Q m 0) (mm256q_extracti128_si256 (ni64.Q m 1) 0) = ni64.P m 0"
    using ni64.msg1_step [of m 0] by (simp add: mm256q_sha512msg1_epi64_def mm256q_extracti128_si256_def)
  have g: "foldl sha512_ni_group (regs_at m s 0) [2, 6, 10, 14] = regs_at m s 16"
    by (simp add: group_run)
  have R0: "((cdgh (ni64.V m s 8), abef (ni64.V m s 8)), ni64.P m 0, ni64.Q m 1, ni64.Q m 2, ni64.Q m 3) = regs_at m s 0"
    and R16: "regs_at m s 16 = ((cdgh (ni64.V m s 72), abef (ni64.V m s 72)), ni64.P m 16, ni64.Q m 17, ni64.Q m 18, ni64.Q m 19)"
    by (simp_all add: regs_at_def numeral_2_eq_2)
  have "sha512_ni_block (cdgh (ni64.V m s 0), abef (ni64.V m s 0)) inp =
      (mm256q_add_epi64 (cdgh (ni64.V m s 80)) (cdgh (ni64.V m s 0)), mm256q_add_epi64 (abef (ni64.V m s 80)) (abef (ni64.V m s 0)))"
    unfolding sha512_ni_block_def prod.case l Let_def r p R0 g R16 ..
  then show ?thesis by (simp add: mm256q_add_epi64_def quad_add_vars f flip: v)
qed

lemma sha512_ni_loop_run:
  "sha512_ni_loop (cdgh s, abef s) inp (128 * (length inp div 128)) =
     (cdgh (fst (blocks_loop_sha512 s inp)), abef (fst (blocks_loop_sha512 s inp))) \<and>
   snd (blocks_loop_sha512 s inp) = length inp mod 128"
proof (induction s inp rule: blocks_loop_sha512.induct)
  case (1 s inp)
  show ?case
  proof (cases "128 \<le> length inp")
    case True
    then have d: "128 * (length inp div 128) - 128 = 128 * (length (drop 128 inp) div 128)" "128 \<le> 128 * (length inp div 128)"
      "length (drop 128 inp) mod 128 = length inp mod 128"
      using le_div_geq [of 128 "length inp"] le_mod_geq [of 128 "length inp"] by simp_all
    then show ?thesis
      using 1 [OF True] True
      by (subst sha512_ni_loop.simps, subst (1 2 3) blocks_loop_sha512.simps) (simp add: sha512_ni_block_run d(1,3) del: length_drop)
  next
    case False
    then show ?thesis by (simp add: sha512_ni_loop.simps blocks_loop_sha512.simps)
  qed
qed

lemma spx_sha512_process_x86_ref:
  "spx_sha512_process_x86 (vars_list s) inp (128 * (length inp div 128)) = vars_list (fst (blocks_loop_sha512 s inp))"
proof -
  have "spx_sha512_permute_state (of_lanes4 (vars_list s), of_lanes4 (drop 4 (vars_list s))) = (cdgh s, abef s)"
    by (cases s rule: vars_cases) (simp add: of_lanes4_def permute_state_vars)
  moreover have "\<exists>x y. spx_sha512_permute_state (cdgh t, abef t) = (x, y) \<and> lanes4 x @ lanes4 y = vars_list t" for t
    by (cases t rule: vars_cases) (simp add: permute_state_vars)
  moreover obtain x y where "spx_sha512_permute_state (cdgh (fst (blocks_loop_sha512 s inp)), abef (fst (blocks_loop_sha512 s inp))) = (x, y)"
    "lanes4 x @ lanes4 y = vars_list (fst (blocks_loop_sha512 s inp))" using calculation(2) by blast
  ultimately show ?thesis using sha512_ni_loop_run [of s inp] by (simp add: spx_sha512_process_x86_def)
qed

section \<open>The entry point\<close>

definition spx_load_be64 :: "bytes \<Rightarrow> u64" where
  "spx_load_be64 x = ucast (x ! 7) OR push_bit 8 (ucast (x ! 6)) OR push_bit 16 (ucast (x ! 5)) OR push_bit 24 (ucast (x ! 4)) OR
     push_bit 32 (ucast (x ! 3)) OR push_bit 40 (ucast (x ! 2)) OR push_bit 48 (ucast (x ! 1)) OR push_bit 56 (ucast (x ! 0))"

definition spx_store_be64 :: "u64 \<Rightarrow> bytes" where
  "spx_store_be64 u = [ucast (drop_bit 56 u), ucast (drop_bit 48 u), ucast (drop_bit 40 u), ucast (drop_bit 32 u),
     ucast (drop_bit 24 u), ucast (drop_bit 16 u), ucast (drop_bit 8 u), ucast u]"

definition spx_sha2_x86_hashblocks_sha512 :: "opt_build \<Rightarrow> opt_machine \<Rightarrow> opt_cache \<Rightarrow> bytes \<Rightarrow> bytes \<Rightarrow> (bytes \<times> int) \<times> opt_cache" where
  "spx_sha2_x86_hashblocks_sha512 b m c statebytes inp =
     (if ob_sha512_intrinsics b
      then (let full_bytes = 128 * (length inp div 128)
            in if full_bytes = 0 then ((statebytes, int_of_count (length inp)), c)
               else (let (usable, c) = spx_sha2_x86_can_use_sha512_ni b m c
                     in if usable = 0 then ((statebytes, int_of_count (length inp)), c)
                        else (let state = map (\<lambda>i. spx_load_be64 (drop (8 * i) statebytes)) [0..<8];
                                  state = spx_sha512_process_x86 state inp full_bytes
                              in ((concat (map spx_store_be64 state), int_of_count (length inp - full_bytes)), c))))
      else ((statebytes, int_of_count (length inp)), c))"

lemma state_words_64:
  "map (\<lambda>i. spx_load_be64 (drop (8 * i) st)) [0..<8] = vars_list (load_state_64 st)"
  "concat (map spx_store_be64 (vars_list s)) = store_state_64 s"
  by (simp add: spx_load_be64_def load_bigendian_64_def load_state_64.simps upt_8)
    (cases s rule: vars_cases, simp add: spx_store_be64_def store_state_64.simps store_bigendian_64_def Let_def drop_bit_drop_bit)

lemma ref512_run: "crypto_hashblocks_sha512_ref st inp = (store_state_64 (fst (blocks_loop_sha512 (load_state_64 st) inp)), int (length inp mod 128))"
  using sha512_ni_loop_run [of "load_state_64 st" inp] by (simp add: crypto_hashblocks_sha512_ref_def case_prod_beta)

lemma x86_hashblocks_sha512:
  assumes "ob_sha512_intrinsics b" "fst (spx_sha2_x86_can_use_sha512_ni b m c) \<noteq> 0" "length st = 64"
  shows "fst (spx_sha2_x86_hashblocks_sha512 b m c st inp) = crypto_hashblocks_sha512_ref st inp"
  using assms
  by (cases "spx_sha2_x86_can_use_sha512_ni b m c")
    (simp add: spx_sha2_x86_hashblocks_sha512_def Let_def state_words_64 spx_sha512_process_x86_ref ref512_run
      minus_mult_div_eq_mod blocks_loop_sha512.simps [of _ inp] store_load_state div_eq_0_iff)

end
