(* ===== verification/Sha2_Backends.thy ===== *)
theory Sha2_Backends
  imports Sha512_Ni
begin

text \<open>
  The two remaining backends and the function behind the dispatch pointer.  \<open>spx_cc_sha256_hashblocks\<close> and \<open>spx_cc_sha512_hashblocks\<close> of
  \<open>sphincsplus/ref/sha2.c\<close> call Apple's CommonCrypto, which is a parameter here; the ARMv8 code of
  \<open>sha2_armv8_sha.c\<close> is modelled with its intrinsics, although its entry point never runs it.  The result is that the
  dispatched block function is the scalar one, on every build and machine, so that it meets the contract
  \<open>sha256_backend\<close> on which the rest of the development rests.
\<close>

section \<open>CommonCrypto\<close>

text \<open>\<open>CC_SHA256_Update\<close> on a context with empty buffer, seen through its \<open>hash\<close> member: a function of the eight words and
  the data.  Its length argument is a \<open>CC_LONG\<close>, that is \<open>uint32_t\<close>.\<close>

type_synonym 'w cc_update = "'w vars \<Rightarrow> bytes \<Rightarrow> 'w vars"

definition spx_cc_sha256_hashblocks :: "u32 cc_update \<Rightarrow> bytes \<Rightarrow> bytes \<Rightarrow> bytes \<times> nat" where
  "spx_cc_sha256_hashblocks cc_sha256_update statebytes inp =
     (let full_bytes = 64 * (length inp div 64)
      in if full_bytes = 0 then (statebytes, length inp)
         else (let hash = load_state_32 statebytes;
                   hash = cc_sha256_update hash (take (unat (of_nat full_bytes :: u32)) inp)
               in (store_state_32 hash, length inp - full_bytes)))"

definition spx_cc_sha512_hashblocks :: "u64 cc_update \<Rightarrow> bytes \<Rightarrow> bytes \<Rightarrow> bytes \<times> int" where
  "spx_cc_sha512_hashblocks cc_sha512_update statebytes inp =
     (let full_bytes = 128 * (length inp div 128)
      in if full_bytes = 0 then (statebytes, int_of_count (length inp))
         else (let hash = load_state_64 statebytes;
                   hash = cc_sha512_update hash (take (unat (of_nat full_bytes :: u32)) inp)
               in (store_state_64 hash, int_of_count (length inp - full_bytes))))"

text \<open>What the code relies on: whole blocks are compressed into \<open>hash\<close> at once.\<close>

definition cc_compresses_256 :: "u32 cc_update \<Rightarrow> bool" where
  "cc_compresses_256 cc \<longleftrightarrow> (\<forall>s d. length d mod 64 = 0 \<longrightarrow> cc s d = fst (blocks_loop_sha256 s d))"

definition cc_compresses_512 :: "u64 cc_update \<Rightarrow> bool" where
  "cc_compresses_512 cc \<longleftrightarrow> (\<forall>s d. length d mod 128 = 0 \<longrightarrow> cc s d = fst (blocks_loop_sha512 s d))"

section \<open>ARMv8\<close>

text \<open>Four rounds in one instruction: \<open>SHA256H\<close> returns the first half of the variables, \<open>SHA256H2\<close> the second.\<close>

definition arm_rounds :: "m128i \<Rightarrow> m128i \<Rightarrow> m128i \<Rightarrow> u32 list" where
  "arm_rounds x y wk = vars_list (foldl (\<lambda>s k. sha_round Sigma0_32 Sigma1_32 k s)
     (q0 x, q1 x, q2 x, q3 x, q0 y, q1 y, q2 y, q3 y) (lanes4 wk))"

definition vsha256hq_u32 :: "m128i \<Rightarrow> m128i \<Rightarrow> m128i \<Rightarrow> m128i" where
  "vsha256hq_u32 hash_abcd hash_efgh wk = of_lanes4 (arm_rounds hash_abcd hash_efgh wk)"

definition vsha256h2q_u32 :: "m128i \<Rightarrow> m128i \<Rightarrow> m128i \<Rightarrow> m128i" where
  "vsha256h2q_u32 hash_efgh hash_abcd wk = of_lanes4 (drop 4 (arm_rounds hash_abcd hash_efgh wk))"

definition vsha256su0q_u32 :: "m128i \<Rightarrow> m128i \<Rightarrow> m128i" where
  "vsha256su0q_u32 w0_3 w4_7 = sha_msg1 sigma0_32 w0_3 (q0 w4_7)"

definition vsha256su1q_u32 :: "m128i \<Rightarrow> m128i \<Rightarrow> m128i \<Rightarrow> m128i" where
  "vsha256su1q_u32 tw0_3 w8_11 w12_15 =
     sha_msg2 sigma1_32 (quad_add tw0_3 (Quad (q1 w8_11) (q2 w8_11) (q3 w8_11) (q0 w12_15))) w12_15"

definition spx_sha256_round_consts :: "u32 list" where
  "spx_sha256_round_consts = concat
     [[0x428a2f98, 0x71374491, 0xb5c0fbcf, 0xe9b5dba5], [0x3956c25b, 0x59f111f1, 0x923f82a4, 0xab1c5ed5],
      [0xd807aa98, 0x12835b01, 0x243185be, 0x550c7dc3], [0x72be5d74, 0x80deb1fe, 0x9bdc06a7, 0xc19bf174],
      [0xe49b69c1, 0xefbe4786, 0x0fc19dc6, 0x240ca1cc], [0x2de92c6f, 0x4a7484aa, 0x5cb0a9dc, 0x76f988da],
      [0x983e5152, 0xa831c66d, 0xb00327c8, 0xbf597fc7], [0xc6e00bf3, 0xd5a79147, 0x06ca6351, 0x14292967],
      [0x27b70a85, 0x2e1b2138, 0x4d2c6dfc, 0x53380d13], [0x650a7354, 0x766a0abb, 0x81c2c92e, 0x92722c85],
      [0xa2bfe8a1, 0xa81a664b, 0xc24b8b70, 0xc76c51a3], [0xd192e819, 0xd6990624, 0xf40e3585, 0x106aa070],
      [0x19a4c116, 0x1e376c08, 0x2748774c, 0x34b0bcb5], [0x391c0cb3, 0x4ed8aa4a, 0x5b9cca4f, 0x682e6ff3],
      [0x748f82ee, 0x78a5636f, 0x84c87814, 0x8cc70208], [0x90befffa, 0xa4506ceb, 0xbef9a3f7, 0xc67178f2]]"

definition spx_load_be_u32x4 :: "bytes \<Rightarrow> m128i" where
  "spx_load_be_u32x4 inp = of_lanes4 (map (\<lambda>i. load_le32 (rev (take 4 (drop (4 * i) inp)))) [0..<4])"

text \<open>The macro, with the operand order of the source.\<close>

definition SPX_SHA256_ROUND4 :: "m128i \<Rightarrow> nat \<Rightarrow> m128i \<times> m128i \<Rightarrow> m128i \<times> m128i" where
  "SPX_SHA256_ROUND4 msg offset = (\<lambda>(state0, state1).
     let tmp = quad_add msg (of_lanes4 (drop offset spx_sha256_round_consts));
         state1 = vsha256hq_u32 state1 state0 tmp;
         state0 = vsha256h2q_u32 state0 state1 tmp
     in (state0, state1))"

text \<open>One of the twelve groups that update a message register and run four rounds with it; \<open>i\<close> is the index of the register
  in \<open>msg0 \<dots> msg3\<close>.\<close>

definition arm_group :: "(m128i \<times> m128i) \<times> m128i list \<Rightarrow> nat \<Rightarrow> (m128i \<times> m128i) \<times> m128i list" where
  "arm_group = (\<lambda>(st, msg) i.
     let j = i mod 4;
         w = vsha256su0q_u32 (msg ! j) (msg ! ((j + 1) mod 4));
         w = vsha256su1q_u32 w (msg ! ((j + 2) mod 4)) (msg ! ((j + 3) mod 4))
     in (SPX_SHA256_ROUND4 w (4 * i) st, msg[j := w]))"

definition arm_block :: "m128i \<times> m128i \<Rightarrow> bytes \<Rightarrow> m128i \<times> m128i" where
  "arm_block st inp =
     (let msg = map (\<lambda>i. spx_load_be_u32x4 (drop (16 * i) inp)) [0..<4];
          (saved0, saved1) = st;
          st = SPX_SHA256_ROUND4 (msg ! 0) 0 st;
          st = SPX_SHA256_ROUND4 (msg ! 1) 4 st;
          st = SPX_SHA256_ROUND4 (msg ! 2) 8 st;
          st = SPX_SHA256_ROUND4 (msg ! 3) 12 st;
          ((state0, state1), msg) = foldl arm_group (st, msg) [4..<16]
      in (quad_add state0 saved0, quad_add state1 saved1))"

function arm_loop :: "m128i \<times> m128i \<Rightarrow> bytes \<Rightarrow> nat \<Rightarrow> m128i \<times> m128i" where
  "arm_loop st inp inlen = (if 64 \<le> inlen then arm_loop (arm_block st inp) (drop 64 inp) (inlen - 64) else st)"
  by pat_completeness auto
termination
  by (relation "measure (\<lambda>(st, inp, inlen). inlen)") auto
declare arm_loop.simps [simp del]

definition spx_sha256_process_arm :: "u32 list \<Rightarrow> bytes \<Rightarrow> nat \<Rightarrow> u32 list" where
  "spx_sha256_process_arm state inp inlen =
     (let (state0, state1) = arm_loop (of_lanes4 state, of_lanes4 (drop 4 state)) inp inlen
      in lanes4 state0 @ lanes4 state1)"

text \<open>The entry points; \<open>neon\<close> is \<open>SPX_ARM_SHA256_INTRINSICS\<close>.\<close>

definition spx_sha2_arm_hashblocks_sha256 :: "opt_build \<Rightarrow> bool \<Rightarrow> bytes \<Rightarrow> bytes \<Rightarrow> bytes \<times> nat" where
  "spx_sha2_arm_hashblocks_sha256 b neon statebytes inp =
     (if ob_arm_sha b \<and> neon
      then (let full_bytes = 64 * (length inp div 64)
            in if full_bytes = 0 \<or> spx_sha2_arm_can_use_sha256 = 0 then (statebytes, length inp)
               else (let state = map (\<lambda>i. spx_load_be32 (drop (4 * i) statebytes)) [0..<8];
                         state = spx_sha256_process_arm state inp full_bytes
                     in (concat (map spx_store_be32 state), length inp - full_bytes)))
      else (statebytes, length inp))"

definition spx_sha2_arm_hashblocks_sha512 :: "bytes \<Rightarrow> bytes \<Rightarrow> bytes \<times> int" where
  "spx_sha2_arm_hashblocks_sha512 statebytes inp = (statebytes, int_of_count (length inp))"

section \<open>The ARMv8 rounds\<close>

text \<open>Four rounds of the scalar code with message words \<open>w\<close>, from round \<open>off\<close> on; the eight variables as the two registers of
  the ARM code.\<close>

definition four_rounds :: "u32 list \<Rightarrow> nat \<Rightarrow> u32 vars \<Rightarrow> u32 vars" where
  "four_rounds w off s = foldl (\<lambda>s t. F_32 (w ! t) (K_32 ! (off + t)) s) s [0..<4]"

fun halves :: "u32 vars \<Rightarrow> m128i \<times> m128i" where
  "halves (a, b, c, d, e, f, g, h) = (Quad a b c d, Quad e f g h)"

fun join_halves :: "m128i \<Rightarrow> m128i \<Rightarrow> u32 vars" where
  "join_halves (Quad a b c d) (Quad e f g h) = (a, b, c, d, e, f, g, h)"

lemma arm_rounds_four:
  assumes "off \<le> 60"
  shows "arm_rounds x y (quad_add msg (of_lanes4 (drop off spx_sha256_round_consts))) =
    vars_list (four_rounds (lanes4 msg) off (join_halves x y))"
proof -
  have k: "spx_sha256_round_consts = K_32" by (simp add: spx_sha256_round_consts_def K_32_def)
  have f: "sha_round Sigma0_32 Sigma1_32 (w + k) s = F_32 w k s" for w k s
    using sha_round_fips [of Sigma0_32 Sigma1_32 k w s] by (simp add: F_32_fips add.commute)
  have n: "drop off K_32 ! i = K_32 ! (off + i)" for i using assms by (simp add: length_K)
  show ?thesis
    by (cases x; cases y; cases msg)
      (simp add: arm_rounds_def k four_rounds_def of_lanes4_def upt_4 n f del: sha_round.simps F_32.simps)
qed

text \<open>With the halves in their roles the two instructions give the two halves of the four rounds.\<close>

lemma arm_instructions:
  fixes msg :: m128i
  assumes "off \<le> 60"
  defines "wk \<equiv> quad_add msg (of_lanes4 (drop off spx_sha256_round_consts))"
  shows "(vsha256hq_u32 x y wk, vsha256h2q_u32 y x wk) = halves (four_rounds (lanes4 msg) off (join_halves x y))"
  unfolding vsha256hq_u32_def vsha256h2q_u32_def wk_def arm_rounds_four [OF assms(1)]
  by (cases "four_rounds (lanes4 msg) off (join_halves x y)" rule: vars_cases) (simp add: of_lanes4_def)

text \<open>The macro passes them in the wrong roles: the second half where \<open>a, b, c, d\<close> belong, and then the first half, with the wrong
  result in the place of the other.\<close>

lemma arm_macro:
  assumes "off \<le> 60"
  shows "SPX_SHA256_ROUND4 msg off (state0, state1) =
    (let state1' = fst (halves (four_rounds (lanes4 msg) off (join_halves state1 state0)))
     in (snd (halves (four_rounds (lanes4 msg) off (join_halves state1' state0))), state1'))"
  using arm_instructions [OF assms, where msg = msg and x = state1 and y = state0, symmetric]
    arm_instructions [OF assms, where msg = msg and x = "fst (halves (four_rounds (lanes4 msg) off (join_halves state1 state0)))" and
      y = state0, symmetric]
  by (simp add: SPX_SHA256_ROUND4_def Let_def)

text \<open>The two differ: with \<open>h = 1\<close>, the other variables zero and a message word that cancels the constant, the first of the four rounds sets
  \<open>e\<close> to 1, and three rounds later that is \<open>h\<close>; the macro leaves 0 there.\<close>

lemma four_rounds_last:
  "vars_list (four_rounds w off s) ! 3 = vars_list (F_32 (w ! 0) (K_32 ! off) s) ! 0"
  "vars_list (four_rounds w off s) ! 7 = vars_list (F_32 (w ! 0) (K_32 ! off) s) ! 4"
proof -
  have "vars_list (F_32 w k (F_32 w' k' (F_32 w'' k'' s))) ! 3 = vars_list s ! 0"
    "vars_list (F_32 w k (F_32 w' k' (F_32 w'' k'' s))) ! 7 = vars_list s ! 4" for w k w' k' w'' k'' s
    by (cases s rule: vars_cases, simp add: Let_def)+
  then show "vars_list (four_rounds w off s) ! 3 = vars_list (F_32 (w ! 0) (K_32 ! off) s) ! 0"
    "vars_list (four_rounds w off s) ! 7 = vars_list (F_32 (w ! 0) (K_32 ! off) s) ! 4"
    by (simp_all add: four_rounds_def upt_4 del: F_32.simps)
qed

lemma halves_lanes: "q3 (fst (halves s)) = vars_list s ! 3" "q3 (snd (halves s)) = vars_list s ! 7"
  by (cases s rule: vars_cases, simp)+

lemma arm_macro_differs:
  "SPX_SHA256_ROUND4 (Quad (- 0x428a2f98) 0 0 0) 0 (Quad 0 0 0 0, Quad 0 0 0 1)
    \<noteq> halves (four_rounds [- 0x428a2f98, 0, 0, 0] 0 (0, 0, 0, 0, 0, 0, 0, 1))"
proof -
  have z: "Sigma0_32 0 = 0" "Sigma1_32 0 = 0" "Ch 0 0 0 = (0 :: u32)" "Maj 0 0 0 = (0 :: u32)" "Maj 0 0 1 = (0 :: u32)" "Ch 0 0 1 = (1 :: u32)"
    by (simp_all add: Sigma0_32_def Sigma1_32_def ROTR_32_def Ch_def Maj_def)
  have c: "K_32 ! 0 = 0x428a2f98" by (simp add: K_32_def)
  have "q3 (snd (SPX_SHA256_ROUND4 (Quad (- 0x428a2f98) 0 0 0) 0 (Quad 0 0 0 0, Quad 0 0 0 1))) = 0"
    by (simp add: arm_macro Let_def halves_lanes four_rounds_last z c spx_add32_5_def spx_add32_4_def)
  moreover have "q3 (snd (halves (four_rounds [- 0x428a2f98, 0, 0, 0] 0 (0, 0, 0, 0, 0, 0, 0, 1)))) = 1"
    by (simp add: halves_lanes four_rounds_last z c spx_add32_5_def spx_add32_4_def)
  ultimately show ?thesis by fastforce
qed

section \<open>The CommonCrypto functions\<close>

lemma cc_compressesD:
  "cc_compresses_256 cc \<Longrightarrow> length d mod 64 = 0 \<Longrightarrow> cc s d = fst (blocks_loop_sha256 s d)"
  "cc_compresses_512 cc' \<Longrightarrow> length d mod 128 = 0 \<Longrightarrow> cc' s' d = fst (blocks_loop_sha512 s' d)"
  unfolding cc_compresses_256_def cc_compresses_512_def by (elim allE [where x = s] allE [where x = d] impE; simp)
    (elim allE [where x = s'] allE [where x = d] impE; simp)

lemma cc_hashblocks_sha256:
  assumes "cc_compresses_256 cc" "length st = 32" "length inp < 2 ^ 32"
  shows "spx_cc_sha256_hashblocks cc st inp = crypto_hashblocks_sha256_ref st inp"
proof -
  define n where "n = 64 * (length inp div 64)"
  have "n \<le> length inp" unfolding n_def by (rule times_div_less_eq_dividend)
  then have "unat (of_nat n :: u32) = n" using assms(3) by (simp add: unat_of_nat_small)
  moreover have "n = length inp - length inp mod 64" "length inp - n = length inp mod 64" "length (take n inp) mod 64 = 0"
    by (simp_all add: n_def minus_mult_div_eq_mod minus_mod_eq_mult_div)
  ultimately have n: "unat (of_nat n :: u32) = n" "n = length inp - length inp mod 64" "length inp - n = length inp mod 64" "length (take n inp) mod 64 = 0"
    by simp_all
  have e: "st = fst (crypto_hashblocks_sha256_ref st inp)" if "n = 0"
    using that ref256.hb_short [OF assms(2), of inp] by (simp add: n_def div_eq_0_iff)
  have "store_state_32 (cc (load_state_32 st) (take n inp)) = fst (crypto_hashblocks_sha256_ref st (take n inp))"
    by (simp only: cc_compressesD(1) [OF assms(1) n(4)] ref256_run fst_conv)
  also have "\<dots> = fst (crypto_hashblocks_sha256_ref st inp)" using ref256.hb_rest [OF assms(2), of inp] by (simp add: n(2))
  finally have "spx_cc_sha256_hashblocks cc st inp = (fst (crypto_hashblocks_sha256_ref st inp), length inp mod 64)"
    using n(1,3) e by (simp add: spx_cc_sha256_hashblocks_def Let_def flip: n_def)
  then show ?thesis by (simp add: ref256_run)
qed

lemma cc_hashblocks_sha512:
  assumes "cc_compresses_512 cc" "length st = 64" "length inp < 2 ^ 32"
  shows "spx_cc_sha512_hashblocks cc st inp = crypto_hashblocks_sha512_ref st inp"
proof -
  define n where "n = 128 * (length inp div 128)"
  have "n \<le> length inp" unfolding n_def by (rule times_div_less_eq_dividend)
  then have "unat (of_nat n :: u32) = n" using assms(3) by (simp add: unat_of_nat_small)
  moreover have "n = length inp - length inp mod 128" "length inp - n = length inp mod 128" "length (take n inp) mod 128 = 0"
    by (simp_all add: n_def minus_mult_div_eq_mod minus_mod_eq_mult_div)
  ultimately have n: "unat (of_nat n :: u32) = n" "n = length inp - length inp mod 128" "length inp - n = length inp mod 128" "length (take n inp) mod 128 = 0"
    by simp_all
  have e: "st = fst (crypto_hashblocks_sha512_ref st inp)" if "n = 0"
    using that ref512.hb_short [OF assms(2), of inp] by (simp add: n_def div_eq_0_iff)
  have "store_state_64 (cc (load_state_64 st) (take n inp)) = fst (crypto_hashblocks_sha512_ref st (take n inp))"
    by (simp only: cc_compressesD(2) [OF assms(1) n(4)] ref512_run fst_conv)
  also have "\<dots> = fst (crypto_hashblocks_sha512_ref st inp)" using ref512.hb_rest [OF assms(2), of inp] by (simp add: n(2))
  finally have "spx_cc_sha512_hashblocks cc st inp = (fst (crypto_hashblocks_sha512_ref st inp), int (length inp mod 128))"
    using n(1,3) e by (simp add: spx_cc_sha512_hashblocks_def Let_def flip: n_def)
  then show ?thesis by (simp add: ref512_run)
qed

text \<open>The length is cut to 32 bits, and the function still reports all whole blocks as consumed: of any input it hashes the length of the
  whole blocks modulo \<open>2\<^sup>3\<^sup>2\<close>.\<close>

lemma cut_length:
  fixes n :: nat and inp :: "'a list"
  assumes "k dvd 2 ^ 32" "k dvd n" "n \<le> length inp"
  shows "unat (of_nat n :: u32) = n mod 2 ^ 32" "length (take (n mod 2 ^ 32) inp) = n mod 2 ^ 32" "k dvd n mod 2 ^ 32"
proof -
  show "unat (of_nat n :: u32) = n mod 2 ^ 32" by (simp add: unat_of_nat)
  have "n mod 2 ^ 32 \<le> length inp" using assms(3) mod_less_eq_dividend [of n "2 ^ 32"] by linarith
  then show "length (take (n mod 2 ^ 32) inp) = n mod 2 ^ 32" by simp
  show "k dvd n mod 2 ^ 32" using assms(1,2) by (simp add: dvd_mod_iff)
qed

lemma cc_sha256_truncates:
  assumes "cc_compresses_256 cc" "length st = 32"
  shows "spx_cc_sha256_hashblocks cc st inp =
    (fst (crypto_hashblocks_sha256_ref st (take (64 * (length inp div 64) mod 2 ^ 32) inp)), length inp mod 64)"
proof -
  define n where "n = 64 * (length inp div 64)"
  have n: "64 dvd n" "n \<le> length inp" "length inp - n = length inp mod 64"
    by (simp_all add: n_def minus_mult_div_eq_mod)
  note c = cut_length [of 64, OF _ n(1,2), simplified]
  have "length (take (n mod 2 ^ 32) inp) mod 64 = 0" using c(2,3) by simp
  then have "store_state_32 (cc (load_state_32 st) (take (n mod 2 ^ 32) inp)) = fst (crypto_hashblocks_sha256_ref st (take (n mod 2 ^ 32) inp))"
    by (simp only: cc_compressesD(1) [OF assms(1)] ref256_run fst_conv)
  moreover have "st = fst (crypto_hashblocks_sha256_ref st [])" using ref256.hb_short [OF assms(2), of "[]"] by simp
  moreover have "n = 0 \<Longrightarrow> length inp mod 64 = length inp" using n(3) by simp
  ultimately show ?thesis
    using n(3) c(1) by (auto simp: spx_cc_sha256_hashblocks_def Let_def simp flip: n_def)
qed

lemma cc_sha512_truncates:
  assumes "cc_compresses_512 cc" "length st = 64"
  shows "spx_cc_sha512_hashblocks cc st inp =
    (fst (crypto_hashblocks_sha512_ref st (take (128 * (length inp div 128) mod 2 ^ 32) inp)), int (length inp mod 128))"
proof -
  define n where "n = 128 * (length inp div 128)"
  have n: "128 dvd n" "n \<le> length inp" "length inp - n = length inp mod 128"
    by (simp_all add: n_def minus_mult_div_eq_mod)
  note c = cut_length [of 128, OF _ n(1,2), simplified]
  have "length (take (n mod 2 ^ 32) inp) mod 128 = 0" using c(2,3) by simp
  then have "store_state_64 (cc (load_state_64 st) (take (n mod 2 ^ 32) inp)) = fst (crypto_hashblocks_sha512_ref st (take (n mod 2 ^ 32) inp))"
    by (simp only: cc_compressesD(2) [OF assms(1)] ref512_run fst_conv)
  moreover have "st = fst (crypto_hashblocks_sha512_ref st [])" using ref512.hb_short [OF assms(2), of "[]"] by simp
  moreover have "n = 0 \<Longrightarrow> length inp mod 128 = length inp" using n(3) by simp
  moreover have "int_of_count (length inp mod 128) = int (length inp mod 128)" by (simp add: order_less_trans [of _ 128])
  ultimately show ?thesis
    using n(3) c(1) by (auto simp: spx_cc_sha512_hashblocks_def Let_def simp flip: n_def)
qed

section \<open>The dispatched block functions\<close>

text \<open>\<open>crypto_hashblocks_sha256\<close> and \<open>crypto_hashblocks_sha512\<close> of \<open>sha2.c\<close>: the call through the pointer.\<close>

definition crypto_hashblocks_sha256_impl ::
    "opt_build \<Rightarrow> opt_machine \<Rightarrow> bool \<Rightarrow> u32 cc_update \<Rightarrow> opt_cache \<Rightarrow> bytes \<Rightarrow> bytes \<Rightarrow> (bytes \<times> nat) \<times> opt_cache" where
  "crypto_hashblocks_sha256_impl b m neon cc c statebytes inp =
     (let (impl, c) = spx_sha256_get_hashblocks_impl b m c
      in case impl of
           Impl_Scalar \<Rightarrow> (crypto_hashblocks_sha256_ref statebytes inp, c)
         | Impl_X86_SHA_NI \<Rightarrow> spx_sha2_x86_hashblocks_sha256 b m c statebytes inp
         | Impl_ARM_SHA \<Rightarrow> (spx_sha2_arm_hashblocks_sha256 b neon statebytes inp, c)
         | Impl_CommonCrypto \<Rightarrow> (spx_cc_sha256_hashblocks cc statebytes inp, c))"

definition crypto_hashblocks_sha512_impl ::
    "opt_build \<Rightarrow> opt_machine \<Rightarrow> u64 cc_update \<Rightarrow> opt_cache \<Rightarrow> bytes \<Rightarrow> bytes \<Rightarrow> (bytes \<times> int) \<times> opt_cache" where
  "crypto_hashblocks_sha512_impl b m cc c statebytes inp =
     (let (impl, c) = spx_sha512_get_hashblocks_impl b m c
      in case impl of
           Impl_Scalar \<Rightarrow> (crypto_hashblocks_sha512_ref statebytes inp, c)
         | Impl_X86_SHA_NI \<Rightarrow> spx_sha2_x86_hashblocks_sha512 b m c statebytes inp
         | Impl_ARM_SHA \<Rightarrow> (spx_sha2_arm_hashblocks_sha512 statebytes inp, c)
         | Impl_CommonCrypto \<Rightarrow> (spx_cc_sha512_hashblocks cc statebytes inp, c))"

lemma chosen_impls:
  "fresh_impl256 b m = Impl_X86_SHA_NI \<Longrightarrow> ob_sha256_intrinsics b \<and> fresh_ni256 b m \<noteq> 0"
  "fresh_impl512 b m = Impl_X86_SHA_NI \<Longrightarrow> ob_sha512_intrinsics b \<and> fresh_ni512 b m \<noteq> 0"
  "fresh_impl256 b m = Impl_CommonCrypto \<Longrightarrow> ob_commoncrypto b" "fresh_impl512 b m = Impl_CommonCrypto \<Longrightarrow> ob_commoncrypto b"
  "fresh_impl256 b m \<noteq> Impl_ARM_SHA" "fresh_impl512 b m \<noteq> Impl_ARM_SHA"
  using fresh_ni_detected [of b m]
  by (auto simp: fresh_impl256_def fresh_impl512_def sha256_select_run sha512_select_run split: if_splits)

lemma x86_hashblocks_cache:
  assumes "cache_inv b m c"
  shows "cache_inv b m (snd (spx_sha2_x86_hashblocks_sha256 b m c st inp))" "cache_inv b m (snd (spx_sha2_x86_hashblocks_sha512 b m c st inp))"
  using assms sha256_ni_cached(2) [OF assms] sha512_ni_cached(2) [OF assms]
  by (simp_all add: spx_sha2_x86_hashblocks_sha256_def spx_sha2_x86_hashblocks_sha512_def Let_def case_prod_beta)

lemma dispatched_sha256:
  assumes "cache_inv b m c" "length st = 32" "ob_commoncrypto b \<Longrightarrow> cc_compresses_256 cc \<and> length inp < 2 ^ 32"
  shows "fst (crypto_hashblocks_sha256_impl b m neon cc c st inp) = crypto_hashblocks_sha256_ref st inp"
    and "cache_inv b m (snd (crypto_hashblocks_sha256_impl b m neon cc c st inp))"
proof -
  obtain f c' where r: "spx_sha256_get_hashblocks_impl b m c = (f, c')" by fastforce
  then have f: "f = fresh_impl256 b m" "cache_inv b m c'" using sha256_get_cached(1,2) [OF assms(1)] by auto
  have x: "fst (spx_sha2_x86_hashblocks_sha256 b m c' st inp) = crypto_hashblocks_sha256_ref st inp" if "f = Impl_X86_SHA_NI"
    using x86_hashblocks_sha256 [OF _ _ assms(2)] chosen_impls(1) [of b m] that sha256_ni_cached(1) [OF f(2)] by (simp add: f(1))
  show "fst (crypto_hashblocks_sha256_impl b m neon cc c st inp) = crypto_hashblocks_sha256_ref st inp"
    using x chosen_impls(3,5) [of b m] cc_hashblocks_sha256 [OF _ assms(2)] assms(3)
    by (cases f) (simp_all add: crypto_hashblocks_sha256_impl_def r flip: f(1))
  show "cache_inv b m (snd (crypto_hashblocks_sha256_impl b m neon cc c st inp))"
    using f(2) x86_hashblocks_cache(1) [OF f(2)] by (cases f) (simp_all add: crypto_hashblocks_sha256_impl_def r)
qed

lemma dispatched_sha512:
  assumes "cache_inv b m c" "length st = 64" "ob_commoncrypto b \<Longrightarrow> cc_compresses_512 cc \<and> length inp < 2 ^ 32"
  shows "fst (crypto_hashblocks_sha512_impl b m cc c st inp) = crypto_hashblocks_sha512_ref st inp"
    and "cache_inv b m (snd (crypto_hashblocks_sha512_impl b m cc c st inp))"
proof -
  obtain f c' where r: "spx_sha512_get_hashblocks_impl b m c = (f, c')" by fastforce
  then have f: "f = fresh_impl512 b m" "cache_inv b m c'" using sha512_get_cached(1,2) [OF assms(1)] by auto
  have x: "fst (spx_sha2_x86_hashblocks_sha512 b m c' st inp) = crypto_hashblocks_sha512_ref st inp" if "f = Impl_X86_SHA_NI"
    using x86_hashblocks_sha512 [OF _ _ assms(2)] chosen_impls(2) [of b m] that sha512_ni_cached(1) [OF f(2)] by (simp add: f(1))
  show "fst (crypto_hashblocks_sha512_impl b m cc c st inp) = crypto_hashblocks_sha512_ref st inp"
    using x chosen_impls(4,6) [of b m] cc_hashblocks_sha512 [OF _ assms(2)] assms(3)
    by (cases f) (simp_all add: crypto_hashblocks_sha512_impl_def r flip: f(1))
  show "cache_inv b m (snd (crypto_hashblocks_sha512_impl b m cc c st inp))"
    using f(2) x86_hashblocks_cache(2) [OF f(2)] by (cases f) (simp_all add: crypto_hashblocks_sha512_impl_def r)
qed

text \<open>On a build without CommonCrypto the dispatched functions meet the contract of a block function.\<close>

lemma dispatched_backend:
  assumes "cache_inv b m c" "\<not> ob_commoncrypto b"
  shows "sha256_backend (\<lambda>st inp. fst (crypto_hashblocks_sha256_impl b m neon cc c st inp))"
    and "sha512_backend (\<lambda>st inp. fst (crypto_hashblocks_sha512_impl b m cc' c st inp))"
proof -
  have e: "length st = 32 \<Longrightarrow> fst (crypto_hashblocks_sha256_impl b m neon cc c st inp) = crypto_hashblocks_sha256_ref st inp"
    "length st = 64 \<Longrightarrow> fst (crypto_hashblocks_sha512_impl b m cc' c st inp) = crypto_hashblocks_sha512_ref st inp" for st inp
    using dispatched_sha256(1) [OF assms(1)] dispatched_sha512(1) [OF assms(1)] assms(2) by blast+
  show "sha256_backend (\<lambda>st inp. fst (crypto_hashblocks_sha256_impl b m neon cc c st inp))"
    by unfold_locales (simp_all add: e ref256.hb_length ref256.hb_short ref256.hb_block)
  show "sha512_backend (\<lambda>st inp. fst (crypto_hashblocks_sha512_impl b m cc' c st inp))"
    by unfold_locales (simp_all add: e ref512.hb_length ref512.hb_short ref512.hb_block)
qed

end
