(* ===== verification/Sha2_Race.thy ===== *)
theory Sha2_Race
  imports Sha2_Dispatch
begin

text \<open>
  The selection of the SHA-2 block functions under concurrent first calls.  Every static variable that
  \<open>spx_sha256_get_hashblocks_impl\<close> and \<open>spx_sha512_get_hashblocks_impl\<close> touch, down to the flags of
  \<open>opt_flags.h\<close> and the probe results of \<open>sha2_x86_shani.c\<close>, is read and written with an atomic load or
  store.  Here the same code is written with each of these accesses as a step of its own, so that the accesses of other threads
  come between any two of them, and it is proved that a thread that runs alone does what the functions of \<open>Sha2_Dispatch\<close> do.  \<open>getenv\<close> and \<open>cpuid\<close>
  give every thread the same answers.
\<close>

section \<open>Threads\<close>

text \<open>A thread has returned, or its next access to the shared cache decides how it goes on.\<close>

datatype thread = Ret sha2_impl | Atomic "opt_cache \<Rightarrow> thread \<times> opt_cache"

definition atomic_load :: "(opt_cache \<Rightarrow> 'v) \<Rightarrow> ('v \<Rightarrow> thread) \<Rightarrow> thread" where
  "atomic_load var k = Atomic (\<lambda>c. (k (var c), c))"

definition atomic_store :: "(opt_cache \<Rightarrow> opt_cache) \<Rightarrow> thread \<Rightarrow> thread" where
  "atomic_store upd k = Atomic (\<lambda>c. (k, upd c))"

section \<open>The code, access by access\<close>

text \<open>The last argument of each function is what its caller does with the value it returns.\<close>

definition thread_disable_sha_accel :: "opt_build \<Rightarrow> opt_machine \<Rightarrow> (int \<Rightarrow> thread) \<Rightarrow> thread" where
  "thread_disable_sha_accel b m return =
     atomic_load oc_disable_sha_accel (\<lambda>val.
       if val < 0
       then (let val = (if spx_env_flag b m ''SPX_DISABLE_SHA_ACCEL'' \<or> spx_opt_profile_is b m ''scalar'' then 1 else 0)
             in atomic_store (\<lambda>c. c\<lparr>oc_disable_sha_accel := val\<rparr>) (return val))
       else return val)"

definition thread_sha_backend_mode :: "opt_build \<Rightarrow> opt_machine \<Rightarrow> (int \<Rightarrow> thread) \<Rightarrow> thread" where
  "thread_sha_backend_mode b m return =
     (if ob_production b then return SPX_SHA_BACKEND_SCALAR
      else if \<not> ob_knobs b then return SPX_SHA_BACKEND_AUTO
      else
        atomic_load oc_backend_mode (\<lambda>val.
          if val \<ge> 0 then return val
          else (let val =
                  (case om_getenv m ''SPX_SHA_BACKEND'' of
                     None \<Rightarrow> SPX_SHA_BACKEND_AUTO
                   | Some configured \<Rightarrow>
                       if configured = [] then SPX_SHA_BACKEND_AUTO
                       else if configured \<in> {''scalar'', ''ref''} then SPX_SHA_BACKEND_SCALAR
                       else if configured \<in> {''arm'', ''armv8'', ''armv8_sha256''} then SPX_SHA_BACKEND_ARM
                       else if configured \<in> {''x86'', ''x86_ni'', ''shani''} then SPX_SHA_BACKEND_X86
                       else if configured \<in> {''commoncrypto'', ''cc''} then SPX_SHA_BACKEND_COMMONCRYPTO
                       else SPX_SHA_BACKEND_AUTO)
                in atomic_store (\<lambda>c. c\<lparr>oc_backend_mode := val\<rparr>) (return val))))"

definition thread_can_use_sha256_ni :: "opt_build \<Rightarrow> opt_machine \<Rightarrow> (int \<Rightarrow> thread) \<Rightarrow> thread" where
  "thread_can_use_sha256_ni b m return =
     (if ob_sha256_intrinsics b
      then atomic_load oc_sha256_ni (\<lambda>cached.
        if cached < 0
        then (let cached = (if spx_detect_sha256_ni m then 1 else 0)
              in atomic_store (\<lambda>c. c\<lparr>oc_sha256_ni := cached\<rparr>) (return cached))
        else return cached)
      else return 0)"

definition thread_can_use_sha512_ni :: "opt_build \<Rightarrow> opt_machine \<Rightarrow> (int \<Rightarrow> thread) \<Rightarrow> thread" where
  "thread_can_use_sha512_ni b m return =
     (if ob_sha512_intrinsics b
      then atomic_load oc_sha512_ni (\<lambda>cached.
        if cached < 0
        then (let cached = (if spx_detect_sha512_ni m then 1 else 0)
              in atomic_store (\<lambda>c. c\<lparr>oc_sha512_ni := cached\<rparr>) (return cached))
        else return cached)
      else return 0)"

definition thread_sha256_select :: "opt_build \<Rightarrow> opt_machine \<Rightarrow> (sha2_impl \<Rightarrow> thread) \<Rightarrow> thread" where
  "thread_sha256_select b m return =
     thread_sha_backend_mode b m (\<lambda>mode. thread_disable_sha_accel b m (\<lambda>off.
       if off \<noteq> 0 \<or> mode = SPX_SHA_BACKEND_SCALAR then return Impl_Scalar
       else if mode = SPX_SHA_BACKEND_ARM
       then (if ob_arm_sha b
             then (if spx_sha2_arm_can_use_sha256 \<noteq> 0 then return Impl_ARM_SHA else return Impl_Scalar)
             else return Impl_Scalar)
       else if mode = SPX_SHA_BACKEND_X86
       then thread_can_use_sha256_ni b m (\<lambda>ni. if ni \<noteq> 0 then return Impl_X86_SHA_NI else return Impl_Scalar)
       else if mode = SPX_SHA_BACKEND_COMMONCRYPTO
       then (if ob_commoncrypto b then return Impl_CommonCrypto else return Impl_Scalar)
       else thread_can_use_sha256_ni b m (\<lambda>ni.
         if ni \<noteq> 0 then return Impl_X86_SHA_NI
         else if ob_arm_sha b \<and> spx_sha2_arm_can_use_sha256 \<noteq> 0 then return Impl_ARM_SHA
         else if ob_commoncrypto b then return Impl_CommonCrypto
         else return Impl_Scalar)))"

definition thread_sha512_select :: "opt_build \<Rightarrow> opt_machine \<Rightarrow> (sha2_impl \<Rightarrow> thread) \<Rightarrow> thread" where
  "thread_sha512_select b m return =
     thread_sha_backend_mode b m (\<lambda>mode. thread_disable_sha_accel b m (\<lambda>off.
       if off \<noteq> 0 \<or> mode = SPX_SHA_BACKEND_SCALAR then return Impl_Scalar
       else if mode = SPX_SHA_BACKEND_ARM
       then (if ob_arm_sha b
             then (if spx_sha2_arm_can_use_sha512 \<noteq> 0 then return Impl_ARM_SHA else return Impl_Scalar)
             else return Impl_Scalar)
       else if mode = SPX_SHA_BACKEND_X86
       then thread_can_use_sha512_ni b m (\<lambda>ni. if ni \<noteq> 0 then return Impl_X86_SHA_NI else return Impl_Scalar)
       else if mode = SPX_SHA_BACKEND_COMMONCRYPTO
       then (if ob_commoncrypto b then return Impl_CommonCrypto else return Impl_Scalar)
       else thread_can_use_sha512_ni b m (\<lambda>ni.
         if ni \<noteq> 0 then return Impl_X86_SHA_NI
         else if ob_arm_sha b \<and> spx_sha2_arm_can_use_sha512 \<noteq> 0 then return Impl_ARM_SHA
         else if ob_commoncrypto b then return Impl_CommonCrypto
         else return Impl_Scalar)))"

definition thread_sha256_get :: "opt_build \<Rightarrow> opt_machine \<Rightarrow> thread" where
  "thread_sha256_get b m =
     atomic_load oc_sha256_impl (\<lambda>impl.
       case impl of
         None \<Rightarrow> thread_sha256_select b m (\<lambda>impl. atomic_store (\<lambda>c. c\<lparr>oc_sha256_impl := Some impl\<rparr>) (Ret impl))
       | Some impl \<Rightarrow> Ret impl)"

definition thread_sha512_get :: "opt_build \<Rightarrow> opt_machine \<Rightarrow> thread" where
  "thread_sha512_get b m =
     atomic_load oc_sha512_impl (\<lambda>impl.
       case impl of
         None \<Rightarrow> thread_sha512_select b m (\<lambda>impl. atomic_store (\<lambda>c. c\<lparr>oc_sha512_impl := Some impl\<rparr>) (Ret impl))
       | Some impl \<Rightarrow> Ret impl)"

section \<open>A thread alone\<close>

primrec alone :: "thread \<Rightarrow> opt_cache \<Rightarrow> sha2_impl \<times> opt_cache" where
  "alone (Ret impl) = (\<lambda>c. (impl, c))"
| "alone (Atomic f) = (\<lambda>c. case map_prod alone id (f c) of (rest, c) \<Rightarrow> rest c)"

lemma alone_atomic [simp]:
  "alone (atomic_load var k) c = alone (k (var c)) c"
  "alone (atomic_store upd t) c = alone t (upd c)"
  by (simp_all add: atomic_load_def atomic_store_def)

lemma alone_reads:
  "alone (thread_disable_sha_accel b m k) c = (case spx_opt_disable_sha_accel b m c of (v, c) \<Rightarrow> alone (k v) c)"
  "alone (thread_sha_backend_mode b m k) c = (case spx_opt_sha_backend_mode b m c of (v, c) \<Rightarrow> alone (k v) c)"
  "alone (thread_can_use_sha256_ni b m k) c = (case spx_sha2_x86_can_use_sha256_ni b m c of (v, c) \<Rightarrow> alone (k v) c)"
  "alone (thread_can_use_sha512_ni b m k) c = (case spx_sha2_x86_can_use_sha512_ni b m c of (v, c) \<Rightarrow> alone (k v) c)"
  by (simp_all add: thread_disable_sha_accel_def spx_opt_disable_sha_accel_def thread_sha_backend_mode_def spx_opt_sha_backend_mode_def
      thread_can_use_sha256_ni_def spx_sha2_x86_can_use_sha256_ni_def thread_can_use_sha512_ni_def
      spx_sha2_x86_can_use_sha512_ni_def Let_def)

lemma alone_select:
  "alone (thread_sha256_select b m k) c = (case spx_sha256_select_hashblocks_impl b m c of (v, c) \<Rightarrow> alone (k v) c)"
  "alone (thread_sha512_select b m k) c = (case spx_sha512_select_hashblocks_impl b m c of (v, c) \<Rightarrow> alone (k v) c)"
  by (simp_all add: thread_sha256_select_def spx_sha256_select_hashblocks_impl_def thread_sha512_select_def
      spx_sha512_select_hashblocks_impl_def alone_reads split_def Let_def if_distrib [of alone] if_distribR)

lemma alone_get:
  "alone (thread_sha256_get b m) c = spx_sha256_get_hashblocks_impl b m c"
  "alone (thread_sha512_get b m) c = spx_sha512_get_hashblocks_impl b m c"
  by (simp_all add: thread_sha256_get_def spx_sha256_get_hashblocks_impl_def thread_sha512_get_def
      spx_sha512_get_hashblocks_impl_def alone_select split_def Let_def split: option.split)

section \<open>Interleaving\<close>

text \<open>One step of the threads in \<open>I\<close>: one of them makes its next access.\<close>

type_synonym race_state = "opt_cache \<times> (nat \<Rightarrow> thread)"

inductive race_step :: "nat set \<Rightarrow> race_state \<Rightarrow> race_state \<Rightarrow> bool" for I where
  access: "i \<in> I \<Longrightarrow> th i = Atomic f \<Longrightarrow> f c = (t, c') \<Longrightarrow> race_step I (c, th) (c', th(i := t))"

inductive_cases race_stepE: "race_step I s s'"

text \<open>What one access may do to the cache while others use it: keep its invariant, and never take a pointer away.\<close>

definition keeps_cache :: "opt_build \<Rightarrow> opt_machine \<Rightarrow> opt_cache \<Rightarrow> opt_cache \<Rightarrow> bool" where
  "keeps_cache b m c c' \<longleftrightarrow> cache_inv b m c' \<and>
     (oc_sha256_impl c \<noteq> None \<longrightarrow> oc_sha256_impl c' \<noteq> None) \<and> (oc_sha512_impl c \<noteq> None \<longrightarrow> oc_sha512_impl c' \<noteq> None)"

text \<open>\<open>settles b m ptr v n t\<close>: whatever the other threads do to the cache between its accesses, as long as they keep the
  invariant, the thread \<open>t\<close> keeps it too, and after at most \<open>n\<close> accesses it returns \<open>v\<close>, published in \<open>ptr\<close>.\<close>

inductive settles :: "opt_build \<Rightarrow> opt_machine \<Rightarrow> (opt_cache \<Rightarrow> sha2_impl option) \<Rightarrow> sha2_impl \<Rightarrow> nat \<Rightarrow> thread \<Rightarrow> bool"
  for b m ptr v where
  settles_Ret: "settles b m ptr v n (Ret v)"
| settles_Atomic: "(\<And>c. cache_inv b m c \<Longrightarrow> keeps_cache b m c (snd (f c)) \<and> settles b m ptr v n (fst (f c)) \<and>
     (\<forall>w. fst (f c) = Ret w \<longrightarrow> ptr (snd (f c)) = Some w)) \<Longrightarrow> settles b m ptr v (Suc n) (Atomic f)"

inductive_cases settles_RetE [elim!]: "settles b m ptr v n (Ret w)"
inductive_cases settles_AtomicE: "settles b m ptr v n (Atomic f)"

lemma settles_more: "settles b m ptr v n t \<Longrightarrow> n \<le> n' \<Longrightarrow> settles b m ptr v n' t"
proof (induction arbitrary: n' rule: settles.induct)
  case (settles_Atomic f n)
  then obtain k where k: "n' = Suc k" "n \<le> k" by (cases n') auto
  show ?case unfolding k(1) using settles_Atomic.IH k(2) by (intro settles.settles_Atomic) blast
qed (rule settles_Ret)

lemma settles_load:
  assumes "\<And>c. cache_inv b m c \<Longrightarrow> settles b m ptr v n (k (var c)) \<and> (\<forall>w. k (var c) = Ret w \<longrightarrow> ptr c = Some w)"
  shows "settles b m ptr v (Suc n) (atomic_load var k)"
  unfolding atomic_load_def by (rule settles_Atomic) (use assms in \<open>simp add: keeps_cache_def\<close>)

lemma settles_store:
  assumes "\<And>c. cache_inv b m c \<Longrightarrow> keeps_cache b m c (upd c) \<and> (\<forall>w. t = Ret w \<longrightarrow> ptr (upd c) = Some w)" "settles b m ptr v n t"
  shows "settles b m ptr v (Suc n) (atomic_store upd t)"
  unfolding atomic_store_def by (rule settles_Atomic) (use assms in simp)

text \<open>The code keeps to this.  A cached flag: it is read, and where it was not set it is written with the value that every thread
  computes for it.\<close>

lemma settles_cached:
  assumes "settles b m ptr v n (k x)" "\<And>y w. k y \<noteq> Ret w"
    and "\<And>c. cache_inv b m c \<Longrightarrow> 0 \<le> var c \<Longrightarrow> var c = x" "\<And>c. cache_inv b m c \<Longrightarrow> keeps_cache b m c (upd c)"
  shows "settles b m ptr v (n + 2) (atomic_load var (\<lambda>val :: int. if val < 0 then atomic_store upd (k x) else k val))"
proof -
  have "settles b m ptr v (Suc n) (atomic_store upd (k x))"
    using assms by (intro settles_store) simp_all
  moreover have "settles b m ptr v (Suc n) (k x)" using settles_more [OF assms(1)] by simp
  ultimately show ?thesis
    unfolding add_2_eq_Suc' using assms(2,3)
    by (intro settles_load) (auto simp: atomic_store_def)
qed

lemma settles_accel:
  assumes "settles b m ptr v n (return (fresh_accel_off b m))" "\<And>y w. return y \<noteq> Ret w"
  shows "settles b m ptr v (n + 2) (thread_disable_sha_accel b m return)"
proof -
  have "(if spx_env_flag b m ''SPX_DISABLE_SHA_ACCEL'' \<or> spx_opt_profile_is b m ''scalar'' then 1 else 0) = fresh_accel_off b m"
    by (simp add: fresh_accel_off_def spx_opt_disable_sha_accel_def opt_cache_init_def Let_def)
  then show ?thesis
    unfolding thread_disable_sha_accel_def Let_def
    by (simp only:) (rule settles_cached [where k = return and x = "fresh_accel_off b m", OF assms], simp_all add: cache_inv_def keeps_cache_def)
qed

lemma flip_ge_if: "(if val \<ge> (0 :: int) then x else y) = (if val < 0 then y else x)"
  by simp

lemma settles_mode:
  assumes "settles b m ptr v n (return (fresh_mode b m))" "\<And>y w. return y \<noteq> Ret w"
  shows "settles b m ptr v (n + 2) (thread_sha_backend_mode b m return)"
proof (cases "ob_production b \<or> \<not> ob_knobs b")
  case True
  then show ?thesis
    using settles_more [OF assms(1), of "n + 2"]
    by (auto simp: thread_sha_backend_mode_def fresh_mode_def spx_opt_sha_backend_mode_def)
next
  case False
  then have "\<not> ob_production b" "\<not> \<not> ob_knobs b" by simp_all
  note def = thread_sha_backend_mode_def if_not_P [OF this(1)] if_not_P [OF this(2)] Let_def
  show ?thesis
    unfolding def flip_ge_if
  proof (rule settles_cached [where k = return and upd = "\<lambda>c. c\<lparr>oc_backend_mode := _\<rparr>", OF _ assms(2)], goal_cases)
    case 1
    then show ?case using assms(1) False
      by (simp add: fresh_mode_def spx_opt_sha_backend_mode_def opt_cache_init_def Let_def)
  next
    case (2 c)
    then show ?case using False
      by (simp add: cache_inv_def fresh_mode_def spx_opt_sha_backend_mode_def opt_cache_init_def Let_def)
  next
    case (3 c)
    then show ?case using False
      by (simp add: cache_inv_def keeps_cache_def fresh_mode_def spx_opt_sha_backend_mode_def opt_cache_init_def Let_def)
  qed
qed

lemma settles_ni256:
  assumes "settles b m ptr v n (return (fresh_ni256 b m))" "\<And>y w. return y \<noteq> Ret w"
  shows "settles b m ptr v (n + 2) (thread_can_use_sha256_ni b m return)"
proof (cases "ob_sha256_intrinsics b")
  case True
  then have "(if spx_detect_sha256_ni m then 1 else 0) = fresh_ni256 b m"
    by (simp add: fresh_ni256_def spx_sha2_x86_can_use_sha256_ni_def opt_cache_init_def Let_def)
  with True show ?thesis
    unfolding thread_can_use_sha256_ni_def Let_def if_P [OF True]
    by (simp only:) (rule settles_cached [where k = return and x = "fresh_ni256 b m", OF assms], simp_all add: cache_inv_def keeps_cache_def)
next
  case False
  then show ?thesis
    using settles_more [OF assms(1), of "n + 2"]
    by (simp add: thread_can_use_sha256_ni_def fresh_ni256_def spx_sha2_x86_can_use_sha256_ni_def)
qed

lemma settles_ni512:
  assumes "settles b m ptr v n (return (fresh_ni512 b m))" "\<And>y w. return y \<noteq> Ret w"
  shows "settles b m ptr v (n + 2) (thread_can_use_sha512_ni b m return)"
proof (cases "ob_sha512_intrinsics b")
  case True
  then have "(if spx_detect_sha512_ni m then 1 else 0) = fresh_ni512 b m"
    by (simp add: fresh_ni512_def spx_sha2_x86_can_use_sha512_ni_def opt_cache_init_def Let_def)
  with True show ?thesis
    unfolding thread_can_use_sha512_ni_def Let_def if_P [OF True]
    by (simp only:) (rule settles_cached [where k = return and x = "fresh_ni512 b m", OF assms], simp_all add: cache_inv_def keeps_cache_def)
next
  case False
  then show ?thesis
    using settles_more [OF assms(1), of "n + 2"]
    by (simp add: thread_can_use_sha512_ni_def fresh_ni512_def spx_sha2_x86_can_use_sha512_ni_def)
qed

lemma not_returned: "thread_disable_sha_accel b m k \<noteq> Ret w" "atomic_store upd t \<noteq> Ret w"
  by (simp_all add: thread_disable_sha_accel_def atomic_load_def atomic_store_def)

lemma settles_select256:
  assumes "settles b m ptr v n (return (fresh_impl256 b m))" "\<And>y w. return y \<noteq> Ret w"
  shows "settles b m ptr v (n + 6) (thread_sha256_select b m return)"
proof -
  define rest where "rest mode off = (if off \<noteq> 0 \<or> mode = SPX_SHA_BACKEND_SCALAR then return Impl_Scalar
       else if mode = SPX_SHA_BACKEND_ARM
       then (if ob_arm_sha b
             then (if spx_sha2_arm_can_use_sha256 \<noteq> 0 then return Impl_ARM_SHA else return Impl_Scalar)
             else return Impl_Scalar)
       else if mode = SPX_SHA_BACKEND_X86
       then thread_can_use_sha256_ni b m (\<lambda>ni. if ni \<noteq> 0 then return Impl_X86_SHA_NI else return Impl_Scalar)
       else if mode = SPX_SHA_BACKEND_COMMONCRYPTO
       then (if ob_commoncrypto b then return Impl_CommonCrypto else return Impl_Scalar)
       else thread_can_use_sha256_ni b m (\<lambda>ni.
         if ni \<noteq> 0 then return Impl_X86_SHA_NI
         else if ob_arm_sha b \<and> spx_sha2_arm_can_use_sha256 \<noteq> 0 then return Impl_ARM_SHA
         else if ob_commoncrypto b then return Impl_CommonCrypto
         else return Impl_Scalar))" for mode off :: int
  note fresh = sha256_select_run(1) [OF cache_inv_init, folded fresh_impl256_def] spx_sha2_arm_can_use_sha256_def
  have nr: "rest mode off \<noteq> Ret w" for mode off w
    using assms(2) by (simp add: rest_def thread_can_use_sha256_ni_def atomic_load_def)
  have "settles b m ptr v (n + 2) (rest (fresh_mode b m) (fresh_accel_off b m))"
    using assms(1) settles_more [OF assms(1), of "n + 2"] assms(2)
    unfolding rest_def fresh backend_defs
    by (simp split: if_split; intro conjI impI settles_ni256 [unfolded add_2_eq_Suc']; simp split: if_splits)
  then have "settles b m ptr v (n + 2 + 2 + 2) (thread_sha_backend_mode b m (\<lambda>mode. thread_disable_sha_accel b m (rest mode)))"
    by (intro settles_mode settles_accel nr not_returned)
  moreover have "thread_sha256_select b m return = thread_sha_backend_mode b m (\<lambda>mode. thread_disable_sha_accel b m (rest mode))"
    unfolding thread_sha256_select_def rest_def ..
  moreover have "n + 2 + 2 + 2 = n + 6" by simp
  ultimately show ?thesis by metis
qed

lemma settles_select512:
  assumes "settles b m ptr v n (return (fresh_impl512 b m))" "\<And>y w. return y \<noteq> Ret w"
  shows "settles b m ptr v (n + 6) (thread_sha512_select b m return)"
proof -
  define rest where "rest mode off = (if off \<noteq> 0 \<or> mode = SPX_SHA_BACKEND_SCALAR then return Impl_Scalar
       else if mode = SPX_SHA_BACKEND_ARM
       then (if ob_arm_sha b
             then (if spx_sha2_arm_can_use_sha512 \<noteq> 0 then return Impl_ARM_SHA else return Impl_Scalar)
             else return Impl_Scalar)
       else if mode = SPX_SHA_BACKEND_X86
       then thread_can_use_sha512_ni b m (\<lambda>ni. if ni \<noteq> 0 then return Impl_X86_SHA_NI else return Impl_Scalar)
       else if mode = SPX_SHA_BACKEND_COMMONCRYPTO
       then (if ob_commoncrypto b then return Impl_CommonCrypto else return Impl_Scalar)
       else thread_can_use_sha512_ni b m (\<lambda>ni.
         if ni \<noteq> 0 then return Impl_X86_SHA_NI
         else if ob_arm_sha b \<and> spx_sha2_arm_can_use_sha512 \<noteq> 0 then return Impl_ARM_SHA
         else if ob_commoncrypto b then return Impl_CommonCrypto
         else return Impl_Scalar))" for mode off :: int
  note fresh = sha512_select_run(1) [OF cache_inv_init, folded fresh_impl512_def] spx_sha2_arm_can_use_sha512_def
  have nr: "rest mode off \<noteq> Ret w" for mode off w
    using assms(2) by (simp add: rest_def thread_can_use_sha512_ni_def atomic_load_def)
  have "settles b m ptr v (n + 2) (rest (fresh_mode b m) (fresh_accel_off b m))"
    using assms(1) settles_more [OF assms(1), of "n + 2"] assms(2)
    unfolding rest_def fresh backend_defs
    by (simp split: if_split; intro conjI impI settles_ni512 [unfolded add_2_eq_Suc']; simp split: if_splits)
  then have "settles b m ptr v (n + 2 + 2 + 2) (thread_sha_backend_mode b m (\<lambda>mode. thread_disable_sha_accel b m (rest mode)))"
    by (intro settles_mode settles_accel nr not_returned)
  moreover have "thread_sha512_select b m return = thread_sha_backend_mode b m (\<lambda>mode. thread_disable_sha_accel b m (rest mode))"
    unfolding thread_sha512_select_def rest_def ..
  moreover have "n + 2 + 2 + 2 = n + 6" by simp
  ultimately show ?thesis by metis
qed

lemma settles_get:
  "settles b m oc_sha256_impl (fresh_impl256 b m) 8 (thread_sha256_get b m)"
  "settles b m oc_sha512_impl (fresh_impl512 b m) 8 (thread_sha512_get b m)"
proof -
  have hit: "oc_sha256_impl c = Some f \<Longrightarrow> f = fresh_impl256 b m" "oc_sha512_impl c = Some f \<Longrightarrow> f = fresh_impl512 b m"
    if "cache_inv b m c" for c f using that by (simp_all add: cache_inv_def)
  have "settles b m oc_sha256_impl (fresh_impl256 b m) (Suc 0)
      (atomic_store (\<lambda>c. c\<lparr>oc_sha256_impl := Some (fresh_impl256 b m)\<rparr>) (Ret (fresh_impl256 b m)))"
    by (intro settles_store settles_Ret) (simp add: keeps_cache_def cache_inv_def)
  from settles_select256 [where return = "\<lambda>f. atomic_store (\<lambda>c. c\<lparr>oc_sha256_impl := Some f\<rparr>) (Ret f)", OF this not_returned(2)]
  have sel: "settles b m oc_sha256_impl (fresh_impl256 b m) 7 (thread_sha256_select b m (\<lambda>f. atomic_store (\<lambda>c. c\<lparr>oc_sha256_impl := Some f\<rparr>) (Ret f)))"
    by simp
  have "settles b m oc_sha512_impl (fresh_impl512 b m) (Suc 0)
      (atomic_store (\<lambda>c. c\<lparr>oc_sha512_impl := Some (fresh_impl512 b m)\<rparr>) (Ret (fresh_impl512 b m)))"
    by (intro settles_store settles_Ret) (simp add: keeps_cache_def cache_inv_def)
  from settles_select512 [where return = "\<lambda>f. atomic_store (\<lambda>c. c\<lparr>oc_sha512_impl := Some f\<rparr>) (Ret f)", OF this not_returned(2)]
  have sel': "settles b m oc_sha512_impl (fresh_impl512 b m) 7 (thread_sha512_select b m (\<lambda>f. atomic_store (\<lambda>c. c\<lparr>oc_sha512_impl := Some f\<rparr>) (Ret f)))"
    by simp
  have nr: "thread_sha256_select b m (\<lambda>f. atomic_store (u f) (Ret f)) \<noteq> Ret w"
    "thread_sha512_select b m (\<lambda>f. atomic_store (u f) (Ret f)) \<noteq> Ret w" for u w
    by (simp_all add: thread_sha256_select_def thread_sha512_select_def thread_sha_backend_mode_def
        atomic_load_def [of oc_backend_mode] not_returned)
  have e: "8 = Suc 7" by simp
  show "settles b m oc_sha256_impl (fresh_impl256 b m) 8 (thread_sha256_get b m)"
    unfolding e thread_sha256_get_def using sel nr hit
    by (intro settles_load) (auto split: option.split intro: settles_Ret)
  show "settles b m oc_sha512_impl (fresh_impl512 b m) 8 (thread_sha512_get b m)"
    unfolding e thread_sha512_get_def using sel' nr hit
    by (intro settles_load) (auto split: option.split intro: settles_Ret)
qed

section \<open>Racing calls\<close>

text \<open>Thread \<open>i\<close> asks for the SHA-512 function if \<open>wide i\<close> and for the SHA-256 function otherwise.\<close>

definition call_of :: "opt_build \<Rightarrow> opt_machine \<Rightarrow> bool \<Rightarrow> thread" where
  "call_of b m wide = (if wide then thread_sha512_get b m else thread_sha256_get b m)"

definition pointer_of :: "bool \<Rightarrow> opt_cache \<Rightarrow> sha2_impl option" where
  "pointer_of wide c = (if wide then oc_sha512_impl c else oc_sha256_impl c)"

definition fresh_of :: "opt_build \<Rightarrow> opt_machine \<Rightarrow> bool \<Rightarrow> sha2_impl" where
  "fresh_of b m wide = (if wide then fresh_impl512 b m else fresh_impl256 b m)"

definition race_inv :: "opt_build \<Rightarrow> opt_machine \<Rightarrow> (nat \<Rightarrow> bool) \<Rightarrow> nat set \<Rightarrow> (nat \<Rightarrow> nat) \<Rightarrow> race_state \<Rightarrow> bool" where
  "race_inv b m wide I N = (\<lambda>(c, th). cache_inv b m c \<and>
     (\<forall>i\<in>I. settles b m (pointer_of (wide i)) (fresh_of b m (wide i)) (N i) (th i) \<and>
        (\<forall>f. th i = Ret f \<longrightarrow> pointer_of (wide i) c = Some f)))"

lemma call_settles: "settles b m (pointer_of w) (fresh_of b m w) 8 (call_of b m w)"
  using settles_get [of b m] by (simp add: pointer_of_def [abs_def] fresh_of_def call_of_def)

lemma race_inv_start:
  assumes "cache_inv b m c"
  shows "race_inv b m wide I (\<lambda>_. 8) (c, \<lambda>i. call_of b m (wide i))"
proof -
  have "call_of b m w \<noteq> Ret f" for w f
    by (simp add: call_of_def thread_sha256_get_def thread_sha512_get_def atomic_load_def)
  with assms call_settles show ?thesis by (simp add: race_inv_def)
qed

lemma pointer_kept:
  assumes "keeps_cache b m c c'" "pointer_of w c = Some f"
  shows "pointer_of w c' = Some (fresh_of b m w)"
proof -
  have "pointer_of w c' \<noteq> None" using assms by (auto simp: keeps_cache_def pointer_of_def split: if_splits)
  moreover have "pointer_of w c' = Some g \<Longrightarrow> g = fresh_of b m w" for g
    using assms(1) by (auto simp: keeps_cache_def cache_inv_def pointer_of_def fresh_of_def split: if_splits)
  ultimately show ?thesis by blast
qed

text \<open>One access: the invariant is kept, and one thread is closer to its return.\<close>

lemma race_inv_step:
  assumes "race_inv b m wide I N s" "race_step I s s'"
  shows "\<exists>i\<in>I. \<exists>k. N i = Suc k \<and> race_inv b m wide I (N(i := k)) s'"
proof -
  from assms(2) obtain i th f c t c' where st: "s = (c, th)" "s' = (c', th(i := t))" "i \<in> I" "th i = Atomic f" "f c = (t, c')"
    by (elim race_stepE)
  let ?v = "\<lambda>j. fresh_of b m (wide j)" and ?p = "\<lambda>j. pointer_of (wide j)"
  have inv: "cache_inv b m c" "\<And>j. j \<in> I \<Longrightarrow> settles b m (?p j) (?v j) (N j) (th j)"
    "\<And>j w. j \<in> I \<Longrightarrow> th j = Ret w \<Longrightarrow> ?p j c = Some w"
    using assms(1) by (auto simp: race_inv_def st(1))
  from inv(2) [OF st(3), unfolded st(4)] obtain k where k: "N i = Suc k"
    "keeps_cache b m c c'" "settles b m (?p i) (?v i) k t" "\<And>w. t = Ret w \<Longrightarrow> ?p i c' = Some w"
    using inv(1) st(5) by (elim settles_AtomicE) force
  have "?p j c' = Some w" if "j \<in> I" "th j = Ret w" for j w
  proof -
    have "w = ?v j" using inv(2) [OF that(1)] that(2) by auto
    then show ?thesis using pointer_kept [OF k(2) inv(3) [OF that]] by simp
  qed
  then have "race_inv b m wide I (N(i := k)) s'"
    using k(2-4) inv(2) by (auto simp: race_inv_def st(2) keeps_cache_def)
  with st(3) k(1) show ?thesis by blast
qed

lemma race_run:
  assumes "finite I" "race_inv b m wide I N s" "(race_step I ^^ n) s s'"
  shows "\<exists>N'. race_inv b m wide I N' s' \<and> n + sum N' I \<le> sum N I"
  using assms(3)
proof (induction n arbitrary: s')
  case 0
  then show ?case using assms(2) by auto
next
  case (Suc n)
  then obtain u where u: "(race_step I ^^ n) s u" "race_step I u s'" by auto
  from Suc.IH [OF u(1)] obtain N' where N': "race_inv b m wide I N' u" "n + sum N' I \<le> sum N I" by blast
  from race_inv_step [OF N'(1) u(2)] obtain i k where i: "i \<in> I" "N' i = Suc k" "race_inv b m wide I (N'(i := k)) s'" by blast
  have "sum (N'(i := k)) I < sum N' I"
    using assms(1) i(1,2) by (intro sum_strict_mono_ex1) auto
  then have "Suc n + sum (N'(i := k)) I \<le> sum N I" using N'(2) by linarith
  with i(3) show ?case by blast
qed

lemma race_progress: "i \<in> I \<Longrightarrow> (\<And>f. th i \<noteq> Ret f) \<Longrightarrow> \<exists>s. race_step I (c, th) s"
  by (cases "th i") (auto intro: race_step.access [OF _ _ surjective_pairing])

end
