(* ===== verification/Sha2_Standard.thy ===== *)
theory Sha2_Standard
  imports Complex_Main "HOL-Library.Word"
begin

text \<open>
  SHA-256 and SHA-512 as FIPS 180-4 states them, written from the standard alone: this theory imports nothing of the
  development, and shares no constant, table or function with the model of \<open>sphincsplus/ref/sha2.c\<close> that is
  compared with it.  The constants are not tables here but the bits of roots of primes that they are by definition
  (sections 4.2.2, 4.2.3, 5.3.3 and 5.3.5), over the real numbers.
\<close>

unbundle bit_operations_syntax

section \<open>Constants\<close>

definition is_prime :: "nat \<Rightarrow> bool" where
  "is_prime p \<longleftrightarrow> 2 \<le> p \<and> (\<forall>d\<in>set [2..<p]. \<not> d dvd p)"

definition primes_below :: "nat \<Rightarrow> nat list" where
  "primes_below n = filter is_prime [0..<n]"

text \<open>The first \<open>w\<close> bits of the fractional part of the \<open>k\<close>-th root of \<open>p\<close>.\<close>

definition frac_root :: "nat \<Rightarrow> nat \<Rightarrow> nat \<Rightarrow> nat" where
  "frac_root k w p = nat \<lfloor>frac (root k (real p)) * 2 ^ w\<rfloor>"

text \<open>The first 64 and 80 primes are those up to 311 and 409.\<close>

definition K256 :: "nat \<Rightarrow> 32 word" where
  "K256 t = of_nat (frac_root 3 32 (primes_below 410 ! t))"

definition K512 :: "nat \<Rightarrow> 64 word" where
  "K512 t = of_nat (frac_root 3 64 (primes_below 410 ! t))"

definition H256_0 :: "32 word list" where
  "H256_0 = map (\<lambda>i. of_nat (frac_root 2 32 (primes_below 410 ! i))) [0..<8]"

definition H512_0 :: "64 word list" where
  "H512_0 = map (\<lambda>i. of_nat (frac_root 2 64 (primes_below 410 ! i))) [0..<8]"

section \<open>The bits of a root by integer arithmetic\<close>

lemma frac_root_eq:
  assumes "0 < k" "x ^ k \<le> p * 2 ^ (k * w)" "p * 2 ^ (k * w) < Suc x ^ k"
  shows "frac_root k w p = x mod 2 ^ w"
proof -
  define r where "r = root k (real p)"
  define s where "s = r * 2 ^ w"
  have s: "0 \<le> s" "s ^ k = real (p * 2 ^ (k * w))"
    using assms(1) by (simp_all add: s_def r_def power_mult_distrib real_root_pow_pos2 mult.commute [of k] flip: power_mult)
  have "real x \<le> s"
  proof (rule ccontr)
    assume "\<not> real x \<le> s"
    then have "s ^ k < real x ^ k" using s(1) assms(1) by (intro power_strict_mono) auto
    then show False using assms(2) s(2) by (metis linorder_not_le of_nat_less_iff of_nat_power)
  qed
  moreover have "s < real x + 1"
  proof (rule ccontr)
    assume "\<not> s < real x + 1"
    then have "real (Suc x) ^ k \<le> s ^ k" by (intro power_mono) auto
    then show False using assms(3) s(2) by (metis linorder_not_le of_nat_less_iff of_nat_power)
  qed
  ultimately have fs: "\<lfloor>s\<rfloor> = int x" by (simp add: floor_eq_iff)
  have "r = s / real_of_int (2 ^ w)" by (simp add: s_def)
  then have fr: "\<lfloor>r\<rfloor> = int x div 2 ^ w" using floor_divide_real_eq_div [of "2 ^ w" s] fs by simp
  have "frac r * 2 ^ w = s - of_int (\<lfloor>r\<rfloor> * 2 ^ w)" by (simp add: frac_def s_def left_diff_distrib)
  then have "\<lfloor>frac r * 2 ^ w\<rfloor> = int x - int x div 2 ^ w * 2 ^ w" by (metis floor_diff_of_int fs fr)
  also have "\<dots> = int (x mod 2 ^ w)" by (simp add: zmod_int minus_div_mult_eq_mod)
  finally show ?thesis by (simp add: frac_root_def r_def)
qed

section \<open>Functions\<close>

text \<open>Sections 4.1.2 and 4.1.3.  \<open>word_rotr n\<close> is \<open>ROTR\<^sup>n\<close> and \<open>drop_bit n\<close> is \<open>SHR\<^sup>n\<close>.\<close>

definition std_Ch :: "'a::len word \<Rightarrow> 'a word \<Rightarrow> 'a word \<Rightarrow> 'a word" where
  "std_Ch x y z = (x AND y) XOR (NOT x AND z)"

definition std_Maj :: "'a::len word \<Rightarrow> 'a word \<Rightarrow> 'a word \<Rightarrow> 'a word" where
  "std_Maj x y z = (x AND y) XOR (x AND z) XOR (y AND z)"

text \<open>The numbers of the four functions of a word size: three rotations each, or two rotations and a shift.\<close>

record 'w sha2_functions =
  big0 :: "'w \<Rightarrow> 'w"
  big1 :: "'w \<Rightarrow> 'w"
  small0 :: "'w \<Rightarrow> 'w"
  small1 :: "'w \<Rightarrow> 'w"

definition functions_256 :: "32 word sha2_functions" where
  "functions_256 = \<lparr>
     big0 = (\<lambda>x. word_rotr 2 x XOR word_rotr 13 x XOR word_rotr 22 x),
     big1 = (\<lambda>x. word_rotr 6 x XOR word_rotr 11 x XOR word_rotr 25 x),
     small0 = (\<lambda>x. word_rotr 7 x XOR word_rotr 18 x XOR drop_bit 3 x),
     small1 = (\<lambda>x. word_rotr 17 x XOR word_rotr 19 x XOR drop_bit 10 x)\<rparr>"

definition functions_512 :: "64 word sha2_functions" where
  "functions_512 = \<lparr>
     big0 = (\<lambda>x. word_rotr 28 x XOR word_rotr 34 x XOR word_rotr 39 x),
     big1 = (\<lambda>x. word_rotr 14 x XOR word_rotr 18 x XOR word_rotr 41 x),
     small0 = (\<lambda>x. word_rotr 1 x XOR word_rotr 8 x XOR drop_bit 7 x),
     small1 = (\<lambda>x. word_rotr 19 x XOR word_rotr 61 x XOR drop_bit 6 x)\<rparr>"

section \<open>Hash computation\<close>

text \<open>Sections 6.2.2 and 6.4.2: the schedule \<open>W\<^sub>t\<close>, the variables \<open>a \<dots> h\<close> after \<open>t\<close> rounds, and the
  intermediate hash value.\<close>

function std_W :: "('a::len word) sha2_functions \<Rightarrow> 'a word list \<Rightarrow> nat \<Rightarrow> 'a word" where
  "std_W F M t =
     (if t \<le> 15 then M ! t
      else small1 F (std_W F M (t - 2)) + std_W F M (t - 7) + small0 F (std_W F M (t - 15)) + std_W F M (t - 16))"
  by pat_completeness auto
termination by (relation "measure (\<lambda>(F, M, t). t)") auto
declare std_W.simps [simp del]

type_synonym 'w working = "'w \<times> 'w \<times> 'w \<times> 'w \<times> 'w \<times> 'w \<times> 'w \<times> 'w"

fun std_round :: "('a::len word) sha2_functions \<Rightarrow> 'a word \<Rightarrow> 'a word \<Rightarrow> 'a word working \<Rightarrow> 'a word working" where
  "std_round F Kt Wt (a, b, c, d, e, f, g, h) =
     (let T1 = h + big1 F e + std_Ch e f g + Kt + Wt;
          T2 = big0 F a + std_Maj a b c
      in (T1 + T2, a, b, c, d + T1, e, f, g))"

primrec std_rounds :: "('a::len word) sha2_functions \<Rightarrow> (nat \<Rightarrow> 'a word) \<Rightarrow> 'a word list \<Rightarrow> nat \<Rightarrow> 'a word working
    \<Rightarrow> 'a word working" where
  "std_rounds F K M 0 v = v"
| "std_rounds F K M (Suc t) v = std_round F (K t) (std_W F M t) (std_rounds F K M t v)"

definition std_compress :: "('a::len word) sha2_functions \<Rightarrow> (nat \<Rightarrow> 'a word) \<Rightarrow> nat \<Rightarrow> 'a word list \<Rightarrow> 'a word list
    \<Rightarrow> 'a word list" where
  "std_compress F K rounds H M =
     (case std_rounds F K M rounds (H ! 0, H ! 1, H ! 2, H ! 3, H ! 4, H ! 5, H ! 6, H ! 7) of
        (a, b, c, d, e, f, g, h) \<Rightarrow> map2 (+) [a, b, c, d, e, f, g, h] H)"

section \<open>Octets\<close>

text \<open>Words are written most significant octet first (section 3.1).\<close>

definition octets_word :: "8 word list \<Rightarrow> 'a::len word" where
  "octets_word bs = foldl (\<lambda>x b. 256 * x + ucast b) 0 bs"

definition word_octets :: "'a::len word \<Rightarrow> 8 word list" where
  "word_octets x = map (\<lambda>i. ucast (drop_bit (LENGTH('a) - 8 - 8 * i) x)) [0..<LENGTH('a) div 8]"

definition octets_words :: "nat \<Rightarrow> nat \<Rightarrow> 8 word list \<Rightarrow> 'a::len word list" where
  "octets_words k n bs = map (\<lambda>i. octets_word (take k (drop (k * i) bs))) [0..<n]"

text \<open>One step of the hash over a block, on octets: the state of eight words, the block of sixteen.\<close>

definition std_sha256_block :: "8 word list \<Rightarrow> 8 word list \<Rightarrow> 8 word list" where
  "std_sha256_block st blk =
     concat (map word_octets (std_compress functions_256 K256 64 (octets_words 4 8 st) (octets_words 4 16 blk)))"

definition std_sha512_block :: "8 word list \<Rightarrow> 8 word list \<Rightarrow> 8 word list" where
  "std_sha512_block st blk =
     concat (map word_octets (std_compress functions_512 K512 80 (octets_words 8 8 st) (octets_words 8 16 blk)))"

end
