(* ===== verification/Sha2_Conformance.thy ===== *)
theory Sha2_Conformance
  imports Sha2 Sha2_Standard
begin

text \<open>
  The block functions of \<open>sha2.c\<close> compute what FIPS 180-4 defines: the tables are the roots of the primes, the macros are the
  functions of the standard, and the load and store functions are its order of octets.
\<close>

section \<open>The primes\<close>

text \<open>Below \<open>21\<^sup>2\<close> it is enough to try the primes below 21.\<close>

definition small_primes :: "nat list" where
  "small_primes = [2, 3, 5, 7, 11, 13, 17, 19]"

lemma small_divisor:
  assumes "2 \<le> d" "d < (21 :: nat)"
  shows "\<exists>q\<in>set small_primes. q dvd d"
proof -
  have "\<forall>d\<in>set [2..<21]. \<exists>q\<in>set small_primes. q dvd d" by (simp add: small_primes_def upt_rec_numeral)
  with assms show ?thesis unfolding set_upt by simp
qed

lemma is_prime_small:
  assumes "p < 441"
  shows "is_prime p \<longleftrightarrow> 2 \<le> p \<and> (\<forall>q\<in>set small_primes. q dvd p \<longrightarrow> q = p)"
proof (intro iffI conjI)
  assume "is_prime p"
  then have p: "2 \<le> p" "\<And>d. 2 \<le> d \<Longrightarrow> d < p \<Longrightarrow> \<not> d dvd p" by (auto simp: is_prime_def)
  then show "2 \<le> p" by simp
  show "\<forall>q\<in>set small_primes. q dvd p \<longrightarrow> q = p"
  proof (intro ballI impI)
    fix q assume q: "q \<in> set small_primes" "q dvd p"
    then have "2 \<le> q" "q \<le> p" using p(1) by (auto simp: small_primes_def dvd_imp_le)
    then show "q = p" using p(2) [of q] q(2) by force
  qed
next
  assume a: "2 \<le> p \<and> (\<forall>q\<in>set small_primes. q dvd p \<longrightarrow> q = p)"
  have "\<not> d dvd p" if d: "2 \<le> d" "d < p" for d
  proof
    assume "d dvd p"
    then obtain e where e: "p = d * e" by (elim dvdE)
    then have "2 \<le> e" using d by (cases "e \<le> 1") (auto simp: le_Suc_eq)
    moreover have "d < 21 \<or> e < 21"
    proof (rule ccontr)
      assume "\<not> (d < 21 \<or> e < 21)"
      then have "21 * 21 \<le> d * e" by (intro mult_le_mono) simp_all
      with e assms show False by simp
    qed
    ultimately obtain c where c: "2 \<le> c" "c < 21" "c dvd p" "c < p"
      using d e by (auto intro: that)
    then obtain q where "q \<in> set small_primes" "q dvd c" using small_divisor by blast
    then show False using a c dvd_trans [of q c p] dvd_imp_le [of q c] by force
  qed
  then show "is_prime p" using a by (auto simp: is_prime_def)
qed

lemma upt_split: "i \<le> j \<Longrightarrow> j \<le> k \<Longrightarrow> [i..<k] = [i..<j] @ [j..<k]"
  using upt_add_eq_append [of i j "k - j"] by simp

text \<open>The sieve, in pieces.\<close>

abbreviation sieve :: "nat \<Rightarrow> nat \<Rightarrow> nat list" where
  "sieve i j \<equiv> filter (\<lambda>p. 2 \<le> p \<and> (\<forall>q\<in>set small_primes. q dvd p \<longrightarrow> q = p)) [i..<j]"

lemma primes_below_sieve: "n \<le> 441 \<Longrightarrow> primes_below n = sieve 0 n"
  unfolding primes_below_def by (intro filter_cong refl is_prime_small) simp

lemma sieve_pieces:
  "sieve 2 50 = [2, 3, 5, 7, 11, 13, 17, 19, 23, 29, 31, 37, 41, 43, 47]"
  "sieve 50 100 = [53, 59, 61, 67, 71, 73, 79, 83, 89, 97]"
  "sieve 100 150 = [101, 103, 107, 109, 113, 127, 131, 137, 139, 149]"
  "sieve 150 200 = [151, 157, 163, 167, 173, 179, 181, 191, 193, 197, 199]"
  "sieve 200 250 = [211, 223, 227, 229, 233, 239, 241]"
  "sieve 250 300 = [251, 257, 263, 269, 271, 277, 281, 283, 293]"
  "sieve 300 350 = [307, 311, 313, 317, 331, 337, 347, 349]"
  "sieve 350 410 = [353, 359, 367, 373, 379, 383, 389, 397, 401, 409]"
  by (simp_all add: small_primes_def upt_rec_numeral)

lemma primes_below_410:
  "primes_below 410 =
     [2, 3, 5, 7, 11, 13, 17, 19, 23, 29, 31, 37, 41, 43, 47, 53, 59, 61, 67, 71,
      73, 79, 83, 89, 97, 101, 103, 107, 109, 113, 127, 131, 137, 139, 149, 151, 157, 163, 167, 173,
      179, 181, 191, 193, 197, 199, 211, 223, 227, 229, 233, 239, 241, 251, 257, 263, 269, 271, 277, 281,
      283, 293, 307, 311, 313, 317, 331, 337, 347, 349, 353, 359, 367, 373, 379, 383, 389, 397, 401, 409]"
proof -
  have "primes_below 410 = sieve 0 410" by (rule primes_below_sieve) simp
  also have "\<dots> = sieve 0 2 @ sieve 2 50 @ sieve 50 100 @ sieve 100 150 @ sieve 150 200 @ sieve 200 250 @ sieve 250 300 @
      sieve 300 350 @ sieve 350 410"
    unfolding filter_append [symmetric]
    by (rule arg_cong [where f = "filter _"]) (simp only: upt_split [symmetric] append_assoc le0 numeral_le_iff rel_simps)
  also have "sieve 0 2 = []" by (simp add: upt_rec)
  finally show ?thesis by (simp only: sieve_pieces append.simps)
qed

section \<open>The tables\<close>

text \<open>The integer part of the cube roots that occur.\<close>

definition cube_root_int :: "nat \<Rightarrow> nat" where
  "cube_root_int p = (if p < 8 then 1 else if p < 27 then 2 else if p < 64 then 3 else if p < 125 then 4
     else if p < 216 then 5 else if p < 343 then 6 else 7)"

text \<open>\<open>k\<close> is the \<open>w\<close>-bit fraction of the root of \<open>p\<close>, whose integer part is \<open>c\<close>.\<close>

definition fraction_ok :: "nat \<Rightarrow> nat \<Rightarrow> nat \<Rightarrow> nat \<Rightarrow> nat \<Rightarrow> bool" where
  "fraction_ok d w c p k \<longleftrightarrow> k < 2 ^ w \<and>
     (c * 2 ^ w + k) ^ d \<le> p * 2 ^ (d * w) \<and> p * 2 ^ (d * w) < (c * 2 ^ w + k + 1) ^ d"

lemma fraction_root: "fraction_ok d w c p k \<Longrightarrow> 0 < d \<Longrightarrow> frac_root d w p = k"
  by (subst frac_root_eq [of d "c * 2 ^ w + k"]) (simp_all add: fraction_ok_def)

lemma K_32_fractions: "list_all2 (\<lambda>p k. fraction_ok 3 32 (cube_root_int p) p (unat k)) (take 64 (primes_below 410)) K_32"
  by (simp add: primes_below_410 K_32_def fraction_ok_def cube_root_int_def)

lemma K_64_fractions: "list_all2 (\<lambda>p k. fraction_ok 3 64 (cube_root_int p) p (unat k)) (primes_below 410) K_64"
  by (simp add: primes_below_410 K_64_def fraction_ok_def cube_root_int_def)

lemma length_primes: "length (primes_below 410) = 80"
  by (simp add: primes_below_410)

lemma K_32_standard:
  assumes "t < 64"
  shows "K_32 ! t = K256 t"
proof -
  have "fraction_ok 3 32 (cube_root_int (primes_below 410 ! t)) (primes_below 410 ! t) (unat (K_32 ! t))"
    using list_all2_nthD [OF K_32_fractions, of t] assms by (simp add: length_primes)
  then show ?thesis using fraction_root unfolding K256_def by force
qed

lemma K_64_standard:
  assumes "t < 80"
  shows "K_64 ! t = K512 t"
proof -
  have "fraction_ok 3 64 (cube_root_int (primes_below 410 ! t)) (primes_below 410 ! t) (unat (K_64 ! t))"
    using list_all2_nthD [OF K_64_fractions, of t] assms by (simp add: length_primes)
  then show ?thesis using fraction_root unfolding K512_def by force
qed

section \<open>Functions and schedule\<close>

lemma std_W_256:
  "std_W functions_256 M t =
    fips_W (\<lambda>x. word_rotr 7 x XOR word_rotr 18 x XOR drop_bit 3 x) (\<lambda>x. word_rotr 17 x XOR word_rotr 19 x XOR drop_bit 10 x) M t"
proof (induction t rule: less_induct)
  case (less t)
  then show ?case by (subst std_W.simps, subst fips_W.simps) (simp add: functions_256_def)
qed

lemma std_W_512:
  "std_W functions_512 M t =
    fips_W (\<lambda>x. word_rotr 1 x XOR word_rotr 8 x XOR drop_bit 7 x) (\<lambda>x. word_rotr 19 x XOR word_rotr 61 x XOR drop_bit 6 x) M t"
proof (induction t rule: less_induct)
  case (less t)
  then show ?case by (subst std_W.simps, subst fips_W.simps) (simp add: functions_512_def)
qed

lemma std_round_fips: "std_round F k w v = fips_round (big0 F) (big1 F) k w v"
  by (cases v rule: vars_cases) (simp add: std_Ch_def std_Maj_def Ch_def Maj_def Let_def)

lemma std_rounds_fold:
  "(\<And>t. t < n \<Longrightarrow> K t = K' ! t) \<Longrightarrow>
    std_rounds F K M n v = foldl (\<lambda>s t. fips_round (big0 F) (big1 F) (K' ! t) (std_W F M t) s) v [0..<n]"
  by (induction n) (simp_all add: std_round_fips)

lemma std_compress_256:
  "std_compress functions_256 K256 64 [a, b, c, d, e, f, g, h] M =
    (case fips_compress_256 (a, b, c, d, e, f, g, h) M of (a, b, c, d, e, f, g, h) \<Rightarrow> [a, b, c, d, e, f, g, h])"
proof -
  let ?s = "std_rounds functions_256 K256 M 64 (a, b, c, d, e, f, g, h)"
  have "fips_compress_256 (a, b, c, d, e, f, g, h) M = fips_add ?s (a, b, c, d, e, f, g, h)"
    by (subst std_rounds_fold [of 64 K256 K_32])
      (simp_all only: K_32_standard fips_compress_256_def std_W_256 Let_def, simp add: functions_256_def)
  then show ?thesis by (cases ?s rule: vars_cases) (simp add: std_compress_def)
qed

lemma std_compress_512:
  "std_compress functions_512 K512 80 [a, b, c, d, e, f, g, h] M =
    (case fips_compress_512 (a, b, c, d, e, f, g, h) M of (a, b, c, d, e, f, g, h) \<Rightarrow> [a, b, c, d, e, f, g, h])"
proof -
  let ?s = "std_rounds functions_512 K512 M 80 (a, b, c, d, e, f, g, h)"
  have "fips_compress_512 (a, b, c, d, e, f, g, h) M = fips_add ?s (a, b, c, d, e, f, g, h)"
    by (subst std_rounds_fold [of 80 K512 K_64])
      (simp_all only: K_64_standard fips_compress_512_def std_W_512 Let_def, simp add: functions_512_def)
  then show ?thesis by (cases ?s rule: vars_cases) (simp add: std_compress_def)
qed

section \<open>Octets\<close>

lemma octet_step: "256 * x + ucast (b :: u8) = push_bit 8 x OR ucast b" for x :: "'a::len word"
proof -
  have "256 * x = push_bit 8 x" by (simp add: push_bit_eq_mult)
  moreover have "push_bit 8 x + ucast b = push_bit 8 x OR ucast b"
    by (rule disjunctive_add) (auto simp: bit_simps dest: bit_imp_le_length)
  ultimately show ?thesis by simp
qed

lemma octets_word_or: "octets_word bs = foldl (\<lambda>x b. push_bit 8 x OR ucast b) 0 bs"
  by (simp only: octets_word_def octet_step)

lemma take_nths: "n \<le> length x \<Longrightarrow> take n x = map ((!) x) [0..<n]"
  by (rule nth_equalityI) simp_all

lemma load_octets:
  "4 \<le> length x \<Longrightarrow> octets_word (take 4 x) = load_bigendian_32 x"
  "8 \<le> length x \<Longrightarrow> octets_word (take 8 x) = load_bigendian_64 x"
  by (simp_all add: take_nths upt_4 upt_8 octets_word_or load_bigendian_32_def load_bigendian_64_def push_bit_or ac_simps)

lemma load_octets_whole:
  "length x = 4 \<Longrightarrow> octets_word x = load_bigendian_32 x" "load_bigendian_32 (take 4 x) = load_bigendian_32 x"
  "length x = 8 \<Longrightarrow> octets_word x = load_bigendian_64 x" "load_bigendian_64 (take 8 x) = load_bigendian_64 x"
  using load_octets [of x] by (simp_all add: load_bigendian_32_def load_bigendian_64_def)

lemma ucast_drop_narrow: "ucast (drop_bit n (ucast x :: u64)) = (ucast (drop_bit n x) :: u8)" for x :: u32
  by (rule bit_word_eqI) (auto simp: bit_simps dest: bit_imp_le_length)

lemma store_octets: "store_bigendian_32 (ucast x) = word_octets x" "store_bigendian_64 y = word_octets y" for x :: u32
  using ucast_drop_narrow [of 0 x]
  by (simp_all add: store_bigendian_32_def store_bigendian_64_def word_octets_def upt_rec drop_bit_drop_bit ucast_drop_narrow Let_def)

lemma state_octets:
  "length st = 32 \<Longrightarrow> octets_words 4 8 st = (case load_state_32 st of (a, b, c, d, e, f, g, h) \<Rightarrow> [a, b, c, d, e, f, g, h])"
  "length st' = 64 \<Longrightarrow> octets_words 8 8 st' = (case load_state_64 st' of (a, b, c, d, e, f, g, h) \<Rightarrow> [a, b, c, d, e, f, g, h])"
  by (simp_all add: octets_words_def upt_rec load_octets load_octets_whole load_state_32.simps load_state_64.simps)

lemma block_octets:
  "length blk = 64 \<Longrightarrow> octets_words 4 16 blk = map (\<lambda>i. load_bigendian_32 (drop (4 * i) blk)) [0..<16]"
  "length blk' = 128 \<Longrightarrow> octets_words 8 16 blk' = map (\<lambda>i. load_bigendian_64 (drop (8 * i) blk')) [0..<16]"
  by (auto simp: octets_words_def load_octets simp del: upt_rec_numeral)

section \<open>Blocks\<close>

lemma std_sha256_block_ref:
  assumes "length st = 32" "length blk = 64"
  shows "std_sha256_block st blk = store_state_32 (block_sha256 (load_state_32 st) blk)"
proof -
  obtain a b c d e f g h where l: "load_state_32 st = (a, b, c, d, e, f, g, h)" by (rule vars_cases)
  show ?thesis
    using assms
    by (cases "block_sha256 (load_state_32 st) blk" rule: vars_cases)
      (simp add: std_sha256_block_def state_octets block_octets l std_compress_256 store_state_32.simps store_octets
        flip: block_sha256_fips)
qed

lemma std_sha512_block_ref:
  assumes "length st = 64" "length blk = 128"
  shows "std_sha512_block st blk = store_state_64 (block_sha512 (load_state_64 st) blk)"
proof -
  obtain a b c d e f g h where l: "load_state_64 st = (a, b, c, d, e, f, g, h)" by (rule vars_cases)
  show ?thesis
    using assms
    by (cases "block_sha512 (load_state_64 st) blk" rule: vars_cases)
      (simp add: std_sha512_block_def state_octets block_octets l std_compress_512 store_state_64.simps store_octets
        flip: block_sha512_fips)
qed

section \<open>Initial hash values\<close>

definition square_root_int :: "nat \<Rightarrow> nat" where
  "square_root_int p = (if p < 4 then 1 else if p < 9 then 2 else if p < 16 then 3 else 4)"

lemma H_fractions:
  "list_all2 (\<lambda>p k. fraction_ok 2 32 (square_root_int p) p k) (take 8 (primes_below 410))
     [0x6a09e667, 0xbb67ae85, 0x3c6ef372, 0xa54ff53a, 0x510e527f, 0x9b05688c, 0x1f83d9ab, 0x5be0cd19]"
  "list_all2 (\<lambda>p k. fraction_ok 2 64 (square_root_int p) p k) (take 8 (primes_below 410))
     [0x6a09e667f3bcc908, 0xbb67ae8584caa73b, 0x3c6ef372fe94f82b, 0xa54ff53a5f1d36f1,
      0x510e527fade682d1, 0x9b05688c2b3e6c1f, 0x1f83d9abfb41bd6b, 0x5be0cd19137e2179]"
  by (simp_all add: primes_below_410 fraction_ok_def square_root_int_def)

lemma fractions_map:
  assumes "list_all2 (\<lambda>p k. fraction_ok d w (c p) p k) ps ks" "0 < d"
  shows "map (frac_root d w) ps = ks"
  using assms(1) by (induction rule: list_all2_induct) (simp_all add: fraction_root [OF _ assms(2)])

lemma H_0_values:
  "H256_0 = [0x6a09e667, 0xbb67ae85, 0x3c6ef372, 0xa54ff53a, 0x510e527f, 0x9b05688c, 0x1f83d9ab, 0x5be0cd19]"
  "H512_0 = [0x6a09e667f3bcc908, 0xbb67ae8584caa73b, 0x3c6ef372fe94f82b, 0xa54ff53a5f1d36f1,
      0x510e527fade682d1, 0x9b05688c2b3e6c1f, 0x1f83d9abfb41bd6b, 0x5be0cd19137e2179]"
proof -
  have "H256_0 = map of_nat (map (frac_root 2 32) (take 8 (primes_below 410)))"
    "H512_0 = map of_nat (map (frac_root 2 64) (take 8 (primes_below 410)))"
    by (auto simp: H256_0_def H512_0_def length_primes intro!: nth_equalityI)
  then show "H256_0 = [0x6a09e667, 0xbb67ae85, 0x3c6ef372, 0xa54ff53a, 0x510e527f, 0x9b05688c, 0x1f83d9ab, 0x5be0cd19]"
    "H512_0 = [0x6a09e667f3bcc908, 0xbb67ae8584caa73b, 0x3c6ef372fe94f82b, 0xa54ff53a5f1d36f1,
      0x510e527fade682d1, 0x9b05688c2b3e6c1f, 0x1f83d9abfb41bd6b, 0x5be0cd19137e2179]"
    unfolding fractions_map [OF H_fractions(1) zero_less_numeral] fractions_map [OF H_fractions(2) zero_less_numeral] by simp_all
qed

lemma iv_standard:
  "iv_256 = concat (map word_octets H256_0)" "iv_512 = concat (map word_octets H512_0)"
  unfolding H_0_values by (simp_all add: iv_256_def iv_512_def flip: store_octets, simp_all add: store_bigendian_32_def store_bigendian_64_def)

end
