(* ===== verification/Hash_Properties.thy ===== *)
theory Hash_Properties
  imports Sample_Backend Sha2_Backends Sha2_Race Sha2_Conformance
begin

text \<open>
  Properties of the hash layer: the SHA-2 block functions against FIPS 180-4, incremental hashing against
  hashing the padded message, the tweakable hashes against FIPS 205 and RFC 2104, the random
  source, the byte conversions, and the dispatch of the block function with its accelerated backends.
\<close>

section \<open>SHA-2\<close>

text \<open>C24. The SHA-2 block functions are those of FIPS 180-4.  The standard is theory \<open>Sha2_Standard\<close>, which knows
  nothing of the code: its round constants and initial hash values are the leading bits of the fractional parts of the cube and square roots
  of the first primes.  One pass of \<open>crypto_hashblocks_sha256_ref\<close> (\<open>crypto_hashblocks_sha512_ref\<close>) over a block, with
  its tables, its rotations, its schedule expanded in place and its widened additions, computes the next hash value of
  the standard, octet for octet, and the initial state of the code is the standard's.\<close>

theorem sha2_block_fips:
  assumes "length st = 32" "length blk = 64" "length st' = 64" "length blk' = 128"
  shows "crypto_hashblocks_sha256_ref st blk = (std_sha256_block st blk, 0) \<and>
    crypto_hashblocks_sha512_ref st' blk' = (std_sha512_block st' blk', 0) \<and>
    iv_256 = concat (map word_octets H256_0) \<and> iv_512 = concat (map word_octets H512_0)"
proof (intro conjI iv_standard)
  show "crypto_hashblocks_sha256_ref st blk = (std_sha256_block st blk, 0)"
    using assms unfolding crypto_hashblocks_sha256_ref_def
    by (subst blocks_loop_sha256.simps, subst blocks_loop_sha256.simps) (simp add: std_sha256_block_ref)
  show "crypto_hashblocks_sha512_ref st' blk' = (std_sha512_block st' blk', 0)"
    using assms unfolding crypto_hashblocks_sha512_ref_def
    by (subst blocks_loop_sha512.simps, subst blocks_loop_sha512.simps) (simp add: std_sha512_block_ref)
qed

theorem sha2_block_fips_witness:
  "crypto_hashblocks_sha256_ref iv_256 (replicate 64 0) = (std_sha256_block iv_256 (replicate 64 0), 0) \<and>
    crypto_hashblocks_sha512_ref iv_512 (replicate 128 0) = (std_sha512_block iv_512 (replicate 128 0), 0)"
  using sha2_block_fips [of iv_256 "replicate 64 0" iv_512 "replicate 128 0"] by simp

lemma chunks_absorbed:
  assumes "sha256_backend hb" "\<And>c. c \<in> set chunks \<Longrightarrow> length c mod 64 = 0"
  shows "sha256_inc_finalize hb (foldl (\<lambda>st c. sha256_inc_blocks hb st c (length c div 64)) sha256_inc_init chunks) rest =
    sha256_md hb (concat chunks @ rest)"
proof -
  have "\<exists>n. length (concat chunks) = n * 64 \<and> foldl (\<lambda>st c. sha256_inc_blocks hb st c (length c div 64)) sha256_inc_init chunks
      = sha256_state hb (concat chunks)"
    using assms(2)
  proof (induction chunks rule: rev_induct)
    case (snoc c cs)
    then obtain n where n: "length (concat cs) = n * 64"
      "foldl (\<lambda>st c. sha256_inc_blocks hb st c (length c div 64)) sha256_inc_init cs = sha256_state hb (concat cs)" by auto
    have c: "length c = 64 * (length c div 64)" using snoc.prems [of c] by (simp add: mod_eq_0_iff_dvd)
    then have "length (concat (cs @ [c])) = (n + length c div 64) * 64" using n(1) by (simp add: algebra_simps)
    moreover have "foldl (\<lambda>st c. sha256_inc_blocks hb st c (length c div 64)) sha256_inc_init (cs @ [c]) = sha256_state hb (concat (cs @ [c]))"
      using n sha256_backend.sha256_inc_blocks_state [OF assms(1) n(1) c] by simp
    ultimately show ?case by blast
  qed (simp add: sha256_backend.sha256_state_init [OF assms(1)])
  then show ?thesis using sha256_backend.sha256_inc_finalize_state [OF assms(1)] by metis
qed

lemma pad_fills:
  fixes b k l :: nat
  assumes "0 < b" "k < b"
  shows "b dvd l + (1 + ((2 * b - k - 1 - l mod b) mod b + k))"
proof -
  define r where "r = l mod b"
  have r: "r < b" using assms(1) by (simp add: r_def)
  have "b dvd r + (1 + ((2 * b - k - 1 - r) mod b + k))"
  proof (cases "r + k + 1 \<le> b")
    case True
    then have "2 * b - k - 1 - r = b + (b - k - 1 - r)" by simp
    then have "(2 * b - k - 1 - r) mod b = (b - k - 1 - r) mod b" by simp
    moreover have "r + (1 + (b - k - 1 - r + k)) = b" using True by simp
    moreover have "(b - k - 1 - r) mod b = b - k - 1 - r" using assms(1) by simp
    ultimately show ?thesis by simp
  next
    case False
    then have "2 * b - k - 1 - r < b" using assms(1) by linarith
    then have "(2 * b - k - 1 - r) mod b = 2 * b - k - 1 - r" by simp
    moreover have "r + (1 + (2 * b - k - 1 - r + k)) = 2 * b" using r assms(2) by simp
    ultimately show ?thesis by simp
  qed
  moreover have "l = b * (l div b) + r" by (simp add: r_def)
  ultimately show ?thesis unfolding r_def [symmetric] by (metis dvd_add dvd_triv_left add.assoc)
qed

text \<open>C25. Hashing is hashing of the padded message, however the message is fed in.  \<open>sha256\<close> and \<open>sha512\<close> are one pass of the block function over
  the message padded to whole blocks, \<open>sha512\<close> with the bits of the length above \<open>2\<^sup>6\<^sup>4\<close>; and absorbing any sequence of whole-block chunks
  with \<open>sha256_inc_blocks\<close> and finishing with \<open>sha256_inc_finalize\<close> gives the hash of the concatenation.\<close>

theorem sha2_padded:
  assumes "sha256_backend hb" "sha512_backend hb512" "\<And>c. c \<in> set chunks \<Longrightarrow> length c mod 64 = 0"
  shows "sha256 hb m = fst (hb iv_256 (sha256_pad m)) \<and> sha512 hb512 m = fst (hb512 iv_512 (sha512_pad m)) \<and>
    64 dvd length (sha256_pad m) \<and> 128 dvd length (sha512_pad m) \<and>
    sha256_inc_finalize hb (foldl (\<lambda>st c. sha256_inc_blocks hb st c (length c div 64)) sha256_inc_init chunks) rest =
      sha256 hb (concat chunks @ rest)"
proof -
  have "64 dvd length (sha256_pad m)" using pad_fills [of 64 8 "length m"] by (simp add: sha256_pad_def)
  moreover have "128 dvd length (sha512_pad m)" using pad_fills [of 128 16 "length m"] by (simp add: sha512_pad_def)
  moreover have "sha256_inc_finalize hb (foldl (\<lambda>st c. sha256_inc_blocks hb st c (length c div 64)) sha256_inc_init chunks) rest =
      sha256 hb (concat chunks @ rest)"
    using chunks_absorbed [OF assms(1,3)] sha256_backend.sha256_eq_md [OF assms(1)] by simp
  ultimately show ?thesis
    using sha256_backend.sha256_eq_md [OF assms(1), of m] sha512_backend.sha512_eq_md [OF assms(2), of m]
    by (simp add: sha256_md_def sha512_md_def)
qed

theorem sha2_padded_witness:
  "sha256 crypto_hashblocks_sha256_ref [97, 98, 99] = fst (crypto_hashblocks_sha256_ref iv_256 ([97, 98, 99, 128] @ replicate 59 0 @ [24])) \<and>
   sha256_inc_finalize crypto_hashblocks_sha256_ref (sha256_inc_blocks crypto_hashblocks_sha256_ref
      (sha256_inc_blocks crypto_hashblocks_sha256_ref sha256_inc_init (replicate 64 1) 1) (replicate 128 2) 2) [3] =
    sha256 crypto_hashblocks_sha256_ref (replicate 64 1 @ replicate 128 2 @ [3])"
proof -
  have "be_bytes 8 24 = replicate 7 0 @ [24]" by code_simp
  moreover have "replicate 59 (0 :: u8) = replicate 52 0 @ replicate 7 0" by (simp flip: replicate_add)
  moreover have "length c mod 64 = 0" if "c \<in> set [replicate 64 1, replicate 128 (2 :: u8)]" for c using that by auto
  ultimately show ?thesis
    using sha2_padded [OF ref256.sha256_backend_axioms ref512.sha512_backend_axioms,
        of "[replicate 64 1, replicate 128 2]" "[97, 98, 99]" "[3]"]
    by (simp add: sha256_pad_def)
qed

section \<open>Tweakable hashes\<close>

text \<open>C26. The hash functions of FIPS 205 with SHA-256 from the midstate.  In a context that \<open>initialize_hash_function\<close> prepared,
  \<open>thash\<close> and \<open>prf_addr\<close> compute \<open>T\<close> (with \<open>F\<close> and \<open>H\<close> as its one- and two-block cases) and \<open>PRF\<close> over the padded
  public seed, the 22-byte address and the input, truncated to 16 bytes.\<close>

theorem tweakable_hashes:
  assumes "sha256_backend hb" "length (pub_seed ctx) = 16" "length (sk_seed ctx) = 16" "length inp = n * 16"
  shows "thash hb inp n (initialize_hash_function hb ctx) addr = fips205_T hb (pub_seed ctx) addr inp \<and>
    prf_addr hb (initialize_hash_function hb ctx) addr = fips205_PRF hb (pub_seed ctx) (sk_seed ctx) addr"
proof -
  let ?c = "initialize_hash_function hb ctx"
  have s: "ctx_seeded hb ?c" by (rule sha256_backend.ctx_seeded_init [OF assms(1,2)])
  have e: "pub_seed ?c = pub_seed ctx" "sk_seed ?c = sk_seed ctx"
    by (simp_all add: initialize_hash_function_def seed_state_def)
  show ?thesis
    using sha256_backend.thash_T [OF assms(1) s assms(4)] sha256_backend.prf_addr_PRF [OF assms(1) s] assms(3) by (simp add: e)
qed

theorem tweakable_hashes_witness:
  "thash crypto_hashblocks_sha256_ref (replicate 32 1) 2 (initialize_hash_function crypto_hashblocks_sha256_ref
      \<lparr>pub_seed = replicate 16 2, sk_seed = replicate 16 3, state_seeded = []\<rparr>) zero_addr =
    fips205_T crypto_hashblocks_sha256_ref (replicate 16 2) zero_addr (replicate 32 1)"
  using tweakable_hashes [OF ref256.sha256_backend_axioms, of "\<lparr>pub_seed = replicate 16 2, sk_seed = replicate 16 3, state_seeded = []\<rparr>"
      "replicate 32 1" 2 zero_addr] by simp

text \<open>C27. \<open>gen_message_random\<close> is HMAC-SHA-256 with the PRF key over the optional randomiser and the message, truncated to 16 bytes,
  on both its branches (message shorter than the rest of the block or not).\<close>

theorem message_random_hmac:
  assumes "sha256_backend hb" "length sk_prf = 16" "length optrand = 16"
  shows "gen_message_random hb sk_prf optrand m = take 16 (hmac_sha256 hb sk_prf (optrand @ m))"
  by (rule sha256_backend.gen_message_random_hmac [OF assms])

theorem message_random_hmac_witness:
  "gen_message_random crypto_hashblocks_sha256_ref (replicate 16 1) (replicate 16 2) (replicate 99 3) =
    take 16 (hmac_sha256 crypto_hashblocks_sha256_ref (replicate 16 1) (replicate 16 2 @ replicate 99 3))"
  by (rule message_random_hmac [OF ref256.sha256_backend_axioms]) simp_all

text \<open>C28. \<open>hash_message\<close> computes \<open>H\<^sub>m\<^sub>s\<^sub>g\<close> of FIPS 205 (the cached MGF1 included) and splits it into the FORS digest, a tree index below
  \<open>2\<^sup>2\<^sup>4\<close> and a leaf index below 64.\<close>

theorem message_digest:
  fixes R pk :: bytes
  assumes "sha256_backend hb" "length R = 16" "length pk = 32"
  shows "\<exists>D tree leaf. D = fips205_H_msg hb R (take 16 pk) (drop 16 pk) m \<and> hash_message hb (R @ rest) pk m = (take 16 D, tree, leaf) \<and>
    tree = take_bit 24 (bytes_to_ull (drop 16 D) 3) \<and> leaf = take_bit 6 (ucast (bytes_to_ull (drop 19 D) 1)) \<and>
    unat tree < 2 ^ 24 \<and> unat leaf < 2 ^ SPX_TREE_HEIGHT"
proof -
  note h = sha256_backend.hash_message_H_msg [OF assms, of m]
  have "hash_message hb (R @ rest) pk m = hash_message hb R pk m" by (rule sha256_backend.hash_message_prefix [OF assms(1,2)])
  then show ?thesis using h hash_message_bounds [OF h] by simp
qed

theorem message_digest_witness:
  "\<exists>D tree leaf. hash_message crypto_hashblocks_sha256_ref (replicate 3680 1) (replicate 32 2) [3] = (take 16 D, tree, leaf) \<and>
    unat tree < 2 ^ 24 \<and> unat leaf < 2 ^ SPX_TREE_HEIGHT"
proof -
  have "replicate 3680 (1 :: u8) = replicate 16 1 @ replicate 3664 1" by (simp flip: replicate_add)
  moreover have "\<exists>D tree leaf. hash_message crypto_hashblocks_sha256_ref (replicate 16 1 @ replicate 3664 1) (replicate 32 2) [3] =
      (take 16 D, tree, leaf) \<and> unat tree < 2 ^ 24 \<and> unat leaf < 2 ^ SPX_TREE_HEIGHT"
    using message_digest [OF ref256.sha256_backend_axioms length_replicate length_replicate] by blast
  ultimately show ?thesis by simp
qed

section \<open>The random source\<close>

text \<open>C29. The random source.  It reads its buffer cyclically: a request of any length returns the next bytes, starting over at the end of
  the buffer as often as needed, and the offset stays inside the buffer; without a buffer the output is zeroed and the failure flag is set,
  so that the failure cannot be missed.  The seed it is filled with before signing is the SHA-256 digest of key and message and the digest of
  that digest and a one byte, and deriving it consumes nothing.\<close>

theorem random_source:
  assumes "rng_ok r" "length buf = n" "0 < n" "g_random_data r \<noteq> Some []"
    and "sha256_backend hb" "length sk = 64" "length msg = mlen" "length seed = 64" "m = Some msg \<or> m = None \<and> msg = []"
  shows "randombytes (Some buf) n r = (case g_random_data r of
      Some d \<Rightarrow> (Some (map (\<lambda>i. d ! ((g_random_data_offset r + i) mod length d)) [0..<n]),
        r\<lparr>g_random_data_offset := (g_random_data_offset r + n) mod length d\<rparr>)
    | None \<Rightarrow> (Some (replicate n 0), r\<lparr>g_random_source_failed := True\<rparr>)) \<and> rng_ok (snd (randombytes (Some buf) n r)) \<and>
    slh_dsa_derandomize hb (Some seed) m mlen (Some sk) r =
      (Some (sha256_md hb (sk @ msg) @ sha256_md hb (sha256_md hb (sk @ msg) @ [1])), r)"
proof -
  note d = sha256_backend.derandomize_hash [OF assms(5-9), folded slh_dsa_derandomize_def]
  show ?thesis
  proof (cases "g_random_data r")
    case None
    then show ?thesis
      using assms(1-4) randombytes_fails_closed [of r n buf] d by (simp add: mark_random_source_failed_def rng_ok_def)
  next
    case (Some x)
    then show ?thesis
      using assms(1-4) randombytes_cyclic [of r x buf n] d by (simp add: cyclic_def rng_ok_def)
  qed
qed

theorem random_source_witness:
  "randombytes (Some [0, 0, 0, 0, 0]) 5 (slh_dsa_init_random_source (Some [1, 2, 3]) 3 rng_start) =
    (Some [1, 2, 3, 1, 2], \<lparr>g_random_data = Some [1, 2, 3], g_random_data_size = 3, g_random_data_offset = 2, g_random_source_failed = False\<rparr>)"
proof -
  have "map (\<lambda>i. [1, 2, 3 :: u8] ! ((0 + i) mod length [1, 2, 3 :: u8])) [0..<5] = [1, 2, 3, 1, 2]" by code_simp
  moreover note random_source [of "slh_dsa_init_random_source (Some [1, 2, 3]) 3 rng_start" "[0, 0, 0, 0, 0]" 5,
      OF _ _ _ _ ref256.sha256_backend_axioms length_replicate, of "[]" 0 "replicate 64 0" None]
  ultimately show ?thesis
    by (simp add: slh_dsa_init_random_source_def slh_dsa_random_source_clear_failure_def rng_ok_def)
qed

section \<open>Addresses\<close>

text \<open>C30. Hash addresses are well formed and separate the hash calls.  Every setter and copier keeps an address at 32 bytes; and for fields
  in the range of the parameter set, the 22 bytes that the hash functions read determine all fields: two chain addresses (or two node
  addresses) agree on them only when layer, tree, type, key pair, chain and position (or height and index) agree, and a chain address
  and a node address only when they have the same type.\<close>

theorem address_fields:
  assumes "valid_addr a" "valid_addr b"
    and "unat l < 256" "unat l' < 256" "unat y < 256" "unat y' < 256" "unat c < 256" "unat c' < 256" "unat h < 256" "unat h' < 256"
  shows "(\<forall>x \<in> {set_layer_addr a l, set_tree_addr a t, set_type a y, set_keypair_addr a k, set_chain_addr a c, set_hash_addr a h,
      set_tree_height a c, set_tree_index a i, copy_subtree_addr a b, copy_keypair_addr a b}. valid_addr x) \<and>
    (take SPX_SHA256_ADDR_BYTES (full_chain_addr l t y k c h) = take SPX_SHA256_ADDR_BYTES (full_chain_addr l' t' y' k' c' h') \<longleftrightarrow>
      l = l' \<and> t = t' \<and> y = y' \<and> k = k' \<and> c = c' \<and> h = h') \<and>
    (take SPX_SHA256_ADDR_BYTES (full_node_addr l t y k c i) = take SPX_SHA256_ADDR_BYTES (full_node_addr l' t' y' k' c' i') \<longleftrightarrow>
      l = l' \<and> t = t' \<and> y = y' \<and> k = k' \<and> c = c' \<and> i = i') \<and>
    (take SPX_SHA256_ADDR_BYTES (full_chain_addr l t y k c h) = take SPX_SHA256_ADDR_BYTES (full_node_addr l' t' y' k' c' i') \<longrightarrow> y = y')"
proof (intro conjI)
  have n: "SPX_SHA256_ADDR_BYTES = 22" by simp
  show "\<forall>x \<in> {set_layer_addr a l, set_tree_addr a t, set_type a y, set_keypair_addr a k, set_chain_addr a c, set_hash_addr a h,
      set_tree_height a c, set_tree_index a i, copy_subtree_addr a b, copy_keypair_addr a b}. valid_addr x"
    using assms(1,2) by (simp add: addr_len)
  show "take SPX_SHA256_ADDR_BYTES (full_chain_addr l t y k c h) = take SPX_SHA256_ADDR_BYTES (full_chain_addr l' t' y' k' c' h') \<longleftrightarrow>
      l = l' \<and> t = t' \<and> y = y' \<and> k = k' \<and> c = c' \<and> h = h'"
    unfolding n using chain_addr_inj [OF _ assms(3-10)] by blast
  show "take SPX_SHA256_ADDR_BYTES (full_node_addr l t y k c i) = take SPX_SHA256_ADDR_BYTES (full_node_addr l' t' y' k' c' i') \<longleftrightarrow>
      l = l' \<and> t = t' \<and> y = y' \<and> k = k' \<and> c = c' \<and> i = i'"
    unfolding n using node_addr_inj [OF _ assms(3-8)] by blast
  show "take SPX_SHA256_ADDR_BYTES (full_chain_addr l t y k c h) = take SPX_SHA256_ADDR_BYTES (full_node_addr l' t' y' k' c' i') \<longrightarrow> y = y'"
    unfolding n using chain_node_type [OF _ assms(5,6)] by blast
qed

theorem address_fields_witness:
  "take SPX_SHA256_ADDR_BYTES (full_chain_addr 4 7 0 3 15 254) \<noteq> take SPX_SHA256_ADDR_BYTES (full_chain_addr 4 7 0 3 15 255) \<and>
    take SPX_SHA256_ADDR_BYTES (full_node_addr 4 7 2 0 1 5) \<noteq> take SPX_SHA256_ADDR_BYTES (full_node_addr 4 7 2 0 2 5)"
proof
  show "take SPX_SHA256_ADDR_BYTES (full_chain_addr 4 7 0 3 15 254) \<noteq> take SPX_SHA256_ADDR_BYTES (full_chain_addr 4 7 0 3 15 255)"
    by (subst address_fields [OF valid_zero_addr valid_zero_addr, THEN conjunct2, THEN conjunct1]) simp_all
  show "take SPX_SHA256_ADDR_BYTES (full_node_addr 4 7 2 0 1 5) \<noteq> take SPX_SHA256_ADDR_BYTES (full_node_addr 4 7 2 0 2 5)"
    by (subst address_fields [where h = 0 and h' = 0, OF valid_zero_addr valid_zero_addr, THEN conjunct2, THEN conjunct2, THEN conjunct1]) simp_all
qed

section \<open>Byte conversions\<close>

text \<open>C31. The big-endian conversions are inverse to each other, for the 64-bit integers of \<open>ull_to_bytes\<close> and \<open>bytes_to_ull\<close> at every width up to
  eight bytes and for the word loads and stores of the block functions.\<close>

theorem byte_roundtrips:
  assumes "n \<le> 8" "length out = n" "length x = n" "length y = 8"
  shows "bytes_to_ull (ull_to_bytes out n v) n = take_bit (8 * n) v \<and> ull_to_bytes out n (bytes_to_ull x n) = x \<and>
    load_bigendian_64 (store_bigendian_64 v) = v \<and> store_bigendian_64 (load_bigendian_64 y) = y"
  using assms bytes_to_ull_be_bytes [of n v] be_bytes_bytes_to_ull [of x n] store_load_64 [of y] by (simp add: ull_to_bytes_be)

theorem byte_roundtrips_witness:
  "bytes_to_ull (ull_to_bytes [0, 0] 2 0x12345) 2 = 0x2345 \<and> ull_to_bytes [9, 9] 2 (bytes_to_ull [7, 8] 2) = [7, 8]"
  using byte_roundtrips [of 2 "[0, 0]" "[7, 8]" "replicate 8 0" "0x12345"] byte_roundtrips [of 2 "[9, 9]" "[7, 8]" "replicate 8 0" 0]
  by (simp add: take_bit_eq_mod)

section \<open>Dispatch\<close>

text \<open>C32. Which block function runs.  Whatever the caches hold, a production build always dispatches to the scalar functions, and no
  build dispatches to the SHA-NI functions unless they were compiled in and the CPU probe reports the instructions.  The choice is stable:
  once a call has returned, every later call returns the same function and the caches keep their invariant, also when the
  flags are consulted again in between.\<close>

theorem dispatch_safe:
  assumes "cache_inv b m c" "spx_sha256_get_hashblocks_impl b m c = (f, c1)" "spx_sha512_get_hashblocks_impl b m c1 = (f', c2)"
    and "spx_opt_disable_simd b m c2 = (d, c3)"
  shows "(ob_production b \<longrightarrow> f = Impl_Scalar \<and> f' = Impl_Scalar) \<and>
    (f = Impl_X86_SHA_NI \<longrightarrow> ob_sha256_intrinsics b \<and> spx_detect_sha256_ni m) \<and>
    (f' = Impl_X86_SHA_NI \<longrightarrow> ob_sha512_intrinsics b \<and> spx_detect_sha512_ni m) \<and> f \<noteq> Impl_ARM_SHA \<and>
    cache_inv b m c3 \<and> spx_sha256_get_hashblocks_impl b m c3 = (f, c3) \<and> spx_sha512_get_hashblocks_impl b m c3 = (f', c3) \<and>
    spx_sha2_test_sha256_impl c3 = sha2_impl_code f \<and> spx_sha2_test_sha512_impl c3 = sha2_impl_code f'"
proof -
  have 1: "f = fresh_impl256 b m" "cache_inv b m c1" "oc_sha256_impl c1 = Some f"
    using sha256_get_cached [OF assms(1)] assms(2) by auto
  have 2: "f' = fresh_impl512 b m" "cache_inv b m c2" "oc_sha512_impl c2 = Some f'"
    using sha512_get_cached [OF 1(2)] assms(3) by auto
  have "oc_sha256_impl c2 = Some f" using assms(3) 1(3) sha512_get_keeps256 [of b m c1] by simp
  moreover have "oc_sha256_impl c3 = oc_sha256_impl c2" "oc_sha512_impl c3 = oc_sha512_impl c2"
    using assms(4) by (auto simp: disable_simd_run split: if_splits)
  moreover have "(ob_production b \<longrightarrow> f = Impl_Scalar \<and> f' = Impl_Scalar) \<and>
      (f = Impl_X86_SHA_NI \<longrightarrow> ob_sha256_intrinsics b \<and> spx_detect_sha256_ni m) \<and>
      (f' = Impl_X86_SHA_NI \<longrightarrow> ob_sha512_intrinsics b \<and> spx_detect_sha512_ni m) \<and> f \<noteq> Impl_ARM_SHA"
    using production_scalar [of b m] fresh_ni_detected [of b m] unfolding 1(1) 2(1)
    by (auto simp: fresh_impl256_def fresh_impl512_def sha256_select_run sha512_select_run split: if_splits)
  ultimately show ?thesis
    using disable_simd_cached(2) [OF 2(2)] assms(4) 2(3)
    by (simp add: spx_sha256_get_hashblocks_impl_def spx_sha512_get_hashblocks_impl_def spx_sha2_test_sha256_impl_def
        spx_sha2_test_sha512_impl_def)
qed

definition x86_build :: opt_build where
  "x86_build = \<lparr>ob_production = False, ob_knobs = False, ob_arm_sha = False, ob_commoncrypto = False,
     ob_sha256_intrinsics = True, ob_sha512_intrinsics = False, ob_avx2 = False\<rparr>"

definition plain_machine :: opt_machine where
  "plain_machine = \<lparr>om_getenv = (\<lambda>_. None), om_cpuid = (\<lambda>_ _. (0, 0, 0, 0)), om_xgetbv0 = 0, om_avx2 = False\<rparr>"

theorem dispatch_safe_witness:
  "\<exists>c3. spx_sha256_get_hashblocks_impl x86_build plain_machine c3 = (Impl_Scalar, c3) \<and> spx_sha2_test_sha256_impl c3 = 1"
proof -
  obtain f c1 f' c2 d c3 where run: "spx_sha256_get_hashblocks_impl x86_build plain_machine opt_cache_init = (f, c1)"
    "spx_sha512_get_hashblocks_impl x86_build plain_machine c1 = (f', c2)" "spx_opt_disable_simd x86_build plain_machine c2 = (d, c3)"
    by (metis prod.collapse)
  have "f = fresh_impl256 x86_build plain_machine" using sha256_get_cached(1) [OF cache_inv_init] run(1) by (metis fst_conv)
  also have "\<dots> = Impl_Scalar" by code_simp
  finally show ?thesis using dispatch_safe [OF cache_inv_init run] by auto
qed

definition ni_build :: opt_build where
  "ni_build = x86_build\<lparr>ob_sha512_intrinsics := True\<rparr>"

definition ni_machine :: opt_machine where
  "ni_machine = plain_machine\<lparr>om_cpuid := (\<lambda>_ _. (- 1, - 1, - 1, - 1)), om_xgetbv0 := 7\<rparr>"

text \<open>C34. Racing first calls agree.  Threads that call \<open>spx_sha256_get_hashblocks_impl\<close> or \<open>spx_sha512_get_hashblocks_impl\<close> at
  the same time interleave at every atomic load and store: of the function pointer, and inside the selection of the backend mode, the
  switch for the accelerated code and the probe result, which the calls share.  A call that runs alone does what the sequential model of the
  function does, cache included.  From every cache the code can have and under every schedule, a call
  makes at most eight accesses; as long as a call has not returned, some access is possible; the caches keep holding what a fresh
  evaluation gives; and every call that has returned got the function it would have got alone, and the pointer holds it.\<close>

theorem racing_calls:
  assumes "cache_inv b m c" "finite I"
    and "(race_step I ^^ n) (c, \<lambda>i. call_of b m (wide i)) (c', th)"
  shows "n \<le> 8 * card I \<and> cache_inv b m c' \<and>
    ((\<exists>s. race_step I (c', th) s) \<or> (\<forall>i\<in>I. \<exists>f. th i = Ret f)) \<and>
    (\<forall>i\<in>I. \<forall>f. th i = Ret f \<longrightarrow>
       (if wide i then f = fst (spx_sha512_get_hashblocks_impl b m c) \<and> oc_sha512_impl c' = Some f
        else f = fst (spx_sha256_get_hashblocks_impl b m c) \<and> oc_sha256_impl c' = Some f)) \<and>
    alone (call_of b m w) d = (if w then spx_sha512_get_hashblocks_impl b m d else spx_sha256_get_hashblocks_impl b m d)"
proof -
  obtain N where N: "race_inv b m wide I N (c', th)" "n + sum N I \<le> sum (\<lambda>_. 8) I"
    using race_run [OF assms(2) race_inv_start [OF assms(1)] assms(3)] by blast
  show ?thesis
  proof (intro conjI ballI allI impI)
    show "n \<le> 8 * card I" using N(2) by simp
    show "cache_inv b m c'" using N(1) by (simp add: race_inv_def)
    show "alone (call_of b m w) d = (if w then spx_sha512_get_hashblocks_impl b m d else spx_sha256_get_hashblocks_impl b m d)"
      by (simp add: call_of_def alone_get)
    show "(\<exists>s. race_step I (c', th) s) \<or> (\<forall>i\<in>I. \<exists>f. th i = Ret f)" using race_progress [of _ I th c'] by blast
    fix i f assume "i \<in> I" "th i = Ret f"
    then have "f = fresh_of b m (wide i)" "pointer_of (wide i) c' = Some f" using N(1) by (auto simp: race_inv_def)
    then show "if wide i then f = fst (spx_sha512_get_hashblocks_impl b m c) \<and> oc_sha512_impl c' = Some f
        else f = fst (spx_sha256_get_hashblocks_impl b m c) \<and> oc_sha256_impl c' = Some f"
      by (simp add: fresh_of_def pointer_of_def sha256_get_cached(1) [OF assms(1)] sha512_get_cached(1) [OF assms(1)] split: if_splits)
  qed
qed

theorem racing_calls_witness:
  "\<exists>n c th. (race_step {0, 1} ^^ n) (opt_cache_init, \<lambda>i. call_of ni_build ni_machine (i = 1)) (c, th) \<and> n \<le> 16 \<and>
    th 0 = Ret Impl_X86_SHA_NI \<and> th 1 = Ret Impl_X86_SHA_NI \<and> oc_sha256_impl c = Some Impl_X86_SHA_NI"
proof -
  let ?s = "(opt_cache_init, \<lambda>i. call_of ni_build ni_machine (i = 1))"
  have imp: "fresh_impl256 ni_build ni_machine = Impl_X86_SHA_NI" "fresh_impl512 ni_build ni_machine = Impl_X86_SHA_NI" by code_simp+
  let ?P = "\<lambda>n. \<exists>s. (race_step {0, 1} ^^ n) ?s s"
  note rc = racing_calls [OF cache_inv_init, of "{0, 1}" _ ni_build ni_machine "\<lambda>i. i = 1" _ _ True opt_cache_init]
  have "?P n \<Longrightarrow> n \<le> 16" for n using rc [of n] by auto
  moreover have "?P 0" by auto
  ultimately obtain n where n: "?P n" "\<And>k. ?P k \<Longrightarrow> k \<le> n" using GreatestI_nat [of ?P 0 16] Greatest_le_nat [of ?P _ 16] by blast
  then obtain c th where run: "(race_step {0, 1} ^^ n) ?s (c, th)" by auto
  have "\<nexists>s. race_step {0, 1} (c, th) s"
  proof
    assume "\<exists>s. race_step {0, 1} (c, th) s"
    then have "?P (Suc n)" using run by auto
    then show False using n(2) by fastforce
  qed
  then have "n \<le> 16 \<and> th 0 = Ret Impl_X86_SHA_NI \<and> th 1 = Ret Impl_X86_SHA_NI \<and> oc_sha256_impl c = Some Impl_X86_SHA_NI"
    using rc [OF _ run] imp sha256_get_cached(1) [OF cache_inv_init, of ni_build ni_machine]
      sha512_get_cached(1) [OF cache_inv_init, of ni_build ni_machine] by auto
  with run show ?thesis by blast
qed

text \<open>C35. The function behind the dispatch pointer is the scalar one.  For every build and machine and every cache that the code can
  have, \<open>crypto_hashblocks_sha256\<close> and \<open>crypto_hashblocks_sha512\<close>, which call the function that the dispatcher chose, return what
  the scalar functions return, also where they run the SHA-NI instructions; with CommonCrypto, this holds below \<open>2\<^sup>3\<^sup>2\<close> bytes
  and under the behaviour of its update function that the code relies on.  Without CommonCrypto they
  meet the contract of a block function under which the rest of the library is proved.\<close>

theorem dispatched_block_functions:
  assumes "cache_inv b m c" "length st = 32" "length st' = 64"
    and "ob_commoncrypto b \<Longrightarrow> cc_compresses_256 cc \<and> cc_compresses_512 cc' \<and> length inp < 2 ^ 32"
  shows "fst (crypto_hashblocks_sha256_impl b m neon cc c st inp) = crypto_hashblocks_sha256_ref st inp \<and>
    fst (crypto_hashblocks_sha512_impl b m cc' c st' inp) = crypto_hashblocks_sha512_ref st' inp \<and>
    (\<not> ob_commoncrypto b \<longrightarrow> sha256_backend (\<lambda>st inp. fst (crypto_hashblocks_sha256_impl b m neon cc c st inp)) \<and>
       sha512_backend (\<lambda>st inp. fst (crypto_hashblocks_sha512_impl b m cc' c st inp)))"
  using dispatched_sha256(1) [OF assms(1,2)] dispatched_sha512(1) [OF assms(1,3)] dispatched_backend [OF assms(1)] assms(4) by blast

definition cc_build :: opt_build where
  "cc_build = x86_build\<lparr>ob_commoncrypto := True\<rparr>"

definition cc_sample :: "u32 cc_update" where "cc_sample s d = fst (blocks_loop_sha256 s d)"
definition cc_sample' :: "u64 cc_update" where "cc_sample' s d = fst (blocks_loop_sha512 s d)"

theorem dispatched_block_functions_witness:
  "fresh_impl256 ni_build ni_machine = Impl_X86_SHA_NI \<and> fresh_impl512 ni_build ni_machine = Impl_X86_SHA_NI \<and>
   fresh_impl256 cc_build plain_machine = Impl_CommonCrypto \<and>
   fst (crypto_hashblocks_sha256_impl ni_build ni_machine False cc_sample opt_cache_init iv_256 (replicate 70 7)) =
     crypto_hashblocks_sha256_ref iv_256 (replicate 70 7) \<and>
   fst (crypto_hashblocks_sha512_impl ni_build ni_machine cc_sample' opt_cache_init iv_512 (replicate 70 7)) =
     crypto_hashblocks_sha512_ref iv_512 (replicate 70 7) \<and>
   fst (crypto_hashblocks_sha256_impl cc_build plain_machine False cc_sample opt_cache_init iv_256 (replicate 70 7)) =
     crypto_hashblocks_sha256_ref iv_256 (replicate 70 7)"
proof -
  have "fresh_impl256 ni_build ni_machine = Impl_X86_SHA_NI" "fresh_impl512 ni_build ni_machine = Impl_X86_SHA_NI"
    "fresh_impl256 cc_build plain_machine = Impl_CommonCrypto" by code_simp+
  moreover have "cc_compresses_256 cc_sample" "cc_compresses_512 cc_sample'"
    by (simp_all add: cc_compresses_256_def cc_compresses_512_def cc_sample_def cc_sample'_def)
  ultimately show ?thesis
    using dispatched_block_functions [OF cache_inv_init, of iv_256 iv_512 ni_build cc_sample cc_sample' "replicate 70 7" ni_machine False]
      dispatched_block_functions [OF cache_inv_init, of iv_256 iv_512 cc_build cc_sample cc_sample' "replicate 70 7" plain_machine False]
    by simp
qed

text \<open>C36. Two defects of the accelerated backends.  (1) The CommonCrypto functions cut the length to 32 bits and still report every whole block
  as consumed: of an input of any length they hash only as many bytes as the length of its whole blocks modulo \<open>2\<^sup>3\<^sup>2\<close>, and
  return the length of what follows all its whole blocks.  (2) The instructions of the ARMv8 code, which is switched off, do four rounds of the scalar
  code when they get the halves \<open>a, b, c, d\<close> and \<open>e, f, g, h\<close> in their roles; the round macro passes them swapped.  On every state and message its
  second half is the first half of four rounds that start from the swapped state, and its first half the second half of four rounds
  that start from this wrong half and the old first half.  That is not what four rounds give: with \<open>h = 1\<close>, the other variables 0 and a message word that cancels the
  constant the results differ.\<close>

theorem backend_defects:
  assumes "cc_compresses_256 cc" "length st = 32" "cc_compresses_512 cc'" "length st' = 64" "off \<le> 60"
  shows "spx_cc_sha256_hashblocks cc st inp =
      (fst (crypto_hashblocks_sha256_ref st (take (64 * (length inp div 64) mod 2 ^ 32) inp)), length inp mod 64) \<and>
    spx_cc_sha512_hashblocks cc' st' inp =
      (fst (crypto_hashblocks_sha512_ref st' (take (128 * (length inp div 128) mod 2 ^ 32) inp)), int (length inp mod 128)) \<and>
    (let wk = quad_add msg (of_lanes4 (drop off spx_sha256_round_consts))
     in (vsha256hq_u32 state0 state1 wk, vsha256h2q_u32 state1 state0 wk) =
       halves (four_rounds (lanes4 msg) off (join_halves state0 state1))) \<and>
    SPX_SHA256_ROUND4 msg off (state0, state1) =
      (let state1' = fst (halves (four_rounds (lanes4 msg) off (join_halves state1 state0)))
       in (snd (halves (four_rounds (lanes4 msg) off (join_halves state1' state0))), state1')) \<and>
    SPX_SHA256_ROUND4 (Quad (- 0x428a2f98) 0 0 0) 0 (Quad 0 0 0 0, Quad 0 0 0 1)
      \<noteq> halves (four_rounds [- 0x428a2f98, 0, 0, 0] 0 (0, 0, 0, 0, 0, 0, 0, 1))"
  unfolding Let_def [of "quad_add msg _"]
  by (intro conjI cc_sha256_truncates cc_sha512_truncates arm_instructions arm_macro arm_macro_differs assms)

text \<open>The consequence at \<open>2\<^sup>3\<^sup>2\<close> bytes: nothing is hashed, and nothing is reported as left over.\<close>

theorem backend_defects_witness:
  "spx_cc_sha256_hashblocks cc_sample iv_256 (replicate (2 ^ 32) 1) = (iv_256, 0)"
proof -
  have "cc_compresses_256 cc_sample" "cc_compresses_512 cc_sample'"
    by (simp_all add: cc_compresses_256_def cc_compresses_512_def cc_sample_def cc_sample'_def)
  from backend_defects [OF this(1) _ this(2), of iv_256 iv_512 0 "replicate (2 ^ 32) 1"]
  show ?thesis using ref256.hb_short [of iv_256 "[]"] by simp
qed

end
