(* ===== verification/Avx2_Hash.thy ===== *)
theory Avx2_Hash
  imports Avx2_Sha256 Tree_Hash
begin

text \<open>
  The hash functions on eight inputs at once: \<open>sha256_final8x\<close> (\<open>sha256avx.c\<close>), \<open>sha256x8\<close>, \<open>sha256x8_seeded\<close> and \<open>mgf1x8\<close>
  (\<open>sha256x8.c\<close>), \<open>prf_addrx8\<close> (\<open>hash_sha2x8.c\<close>) and \<open>thashx8\<close> (\<open>thash_sha2_simplex8.c\<close>).  Eight pointers are a list of
  eight strings.  Every function is shown to compute, input by input, what its scalar counterpart computes with the
  reference block function.
\<close>

section \<open>The hashing state\<close>

record sha256ctx =
  sx_s :: "m256i list"
  sx_msgblocks :: bytes
  sx_datalen :: u32
  sx_msglen :: u64

definition sha256_init8x :: "sha256ctx \<Rightarrow> sha256ctx" where
  "sha256_init8x ctx = ctx\<lparr>sx_s := map mm256_set1_epi32 [0x6a09e667, 0xbb67ae85, 0x3c6ef372, 0xa54ff53a,
     0x510e527f, 0x9b05688c, 0x1f83d9ab, 0x5be0cd19], sx_datalen := 0, sx_msglen := 0\<rparr>"

text \<open>Eight rows of \<open>w\<close> bytes in one buffer: \<open>f i\<close> is written at position \<open>off\<close> of row \<open>i\<close>, for all of them.\<close>

definition put_rows :: "nat \<Rightarrow> nat \<Rightarrow> (nat \<Rightarrow> bytes) \<Rightarrow> bytes \<Rightarrow> bytes" where
  "put_rows w off f buf = foldl (\<lambda>buf i. put_bytes (w * i + off) (f i) buf) buf [0..<8]"

definition block_ptrs :: "bytes \<Rightarrow> bytes list" where
  "block_ptrs mb = map (\<lambda>i. drop (64 * i) mb) [0..<8]"

definition sha256_final8x :: "sha256ctx \<Rightarrow> bytes list" where
  "sha256_final8x ctx =
     (let d = unat (sx_datalen ctx);
          mb = put_rows 64 d (\<lambda>i. 0x80 # replicate (63 - d) 0) (sx_msgblocks ctx);
          (s, mb) = (if d < 56 then (sx_s ctx, mb)
                     else (sha256_transform8x (sx_s ctx) (block_ptrs mb), replicate (8 * 64) 0));
          msglen = sx_msglen ctx + ucast (sx_datalen ctx * 8);
          mb = put_rows 64 56 (\<lambda>i. ull_to_bytes (replicate 8 0) 8 msglen) mb;
          s = sha256_transform8x s (block_ptrs mb);
          s = transpose_avx s
      in map (\<lambda>i. mm256_storeu_si256 (BYTESWAP (s ! i))) [0..<8])"

text \<open>\<open>_sha256x8\<close>: the loop over the whole blocks, and the rest.\<close>

function sha256x8_loop :: "sha256ctx \<Rightarrow> bytes list \<Rightarrow> nat \<Rightarrow> nat \<Rightarrow> sha256ctx \<times> nat" where
  "sha256x8_loop ctx ins inlen i =
     (if 64 \<le> inlen - i
      then sha256x8_loop (ctx\<lparr>sx_s := sha256_transform8x (sx_s ctx) (map (drop i) ins), sx_msglen := sx_msglen ctx + 512\<rparr>)
             ins inlen (i + 64)
      else (ctx, i))"
  by pat_completeness auto
termination by (relation "measure (\<lambda>(ctx, ins, inlen, i). inlen - i)") auto
declare sha256x8_loop.simps [simp del]

definition sha256x8_inner :: "sha256ctx \<Rightarrow> bytes list \<Rightarrow> nat \<Rightarrow> bytes list" where
  "sha256x8_inner ctx ins inlen =
     (let (ctx, i) = sha256x8_loop ctx ins inlen 0;
          bytes_to_copy = inlen - i;
          mb = put_rows 64 0 (\<lambda>j. get_bytes i bytes_to_copy (ins ! j)) (sx_msgblocks ctx)
      in sha256_final8x (ctx\<lparr>sx_msgblocks := mb, sx_datalen := of_nat bytes_to_copy\<rparr>))"

text \<open>\<open>ctx0\<close> is the uninitialised local state.\<close>

definition sha256x8_seeded :: "sha256ctx \<Rightarrow> bytes \<Rightarrow> u64 \<Rightarrow> bytes list \<Rightarrow> nat \<Rightarrow> bytes list" where
  "sha256x8_seeded ctx0 seed seedlen ins inlen =
     sha256x8_inner (ctx0\<lparr>sx_s := map (\<lambda>i. mm256_set1_epi32 (load_bigendian_32 (drop (4 * i) seed))) [0..<8],
       sx_datalen := 0, sx_msglen := seedlen\<rparr>) ins inlen"

definition sha256x8 :: "sha256ctx \<Rightarrow> bytes list \<Rightarrow> nat \<Rightarrow> bytes list" where
  "sha256x8 ctx0 ins inlen = sha256x8_inner (sha256_init8x ctx0) ins inlen"

section \<open>MGF1, PRF and the tweakable hash\<close>

text \<open>\<open>outx8\<close> holds eight outputs of \<open>outlen\<close> bytes.\<close>

function mgf1x8_loop :: "sha256ctx \<Rightarrow> bytes list \<Rightarrow> nat \<Rightarrow> nat \<Rightarrow> nat \<Rightarrow> bytes \<Rightarrow> bytes" where
  "mgf1x8_loop ctx0 ins inlen outlen i outx8 =
     (let outs = sha256x8 ctx0 (map (\<lambda>j. take inlen (ins ! j) @ u32_to_bytes (of_nat i)) [0..<8]) (inlen + 4)
      in if (i + 1) * SPX_SHA256_OUTPUT_BYTES \<le> outlen
         then mgf1x8_loop ctx0 ins inlen outlen (i + 1)
                (put_rows outlen (SPX_SHA256_OUTPUT_BYTES * i) (\<lambda>j. outs ! j) outx8)
         else put_rows outlen (SPX_SHA256_OUTPUT_BYTES * i)
                (\<lambda>j. take (outlen - i * SPX_SHA256_OUTPUT_BYTES) (outs ! j)) outx8)"
  by pat_completeness auto
termination by (relation "measure (\<lambda>(ctx0, ins, inlen, outlen, i, outx8). Suc outlen - i)") auto
declare mgf1x8_loop.simps [simp del]

definition mgf1x8 :: "sha256ctx \<Rightarrow> bytes \<Rightarrow> nat \<Rightarrow> bytes list \<Rightarrow> nat \<Rightarrow> bytes" where
  "mgf1x8 ctx0 outx8 outlen ins inlen = mgf1x8_loop ctx0 ins inlen outlen 0 outx8"

definition prf_addrx8 :: "sha256ctx \<Rightarrow> spx_ctx \<Rightarrow> spx_addr list \<Rightarrow> bytes list" where
  "prf_addrx8 ctx0 ctx addrx8 =
     (let bufs = map (\<lambda>j. take SPX_SHA256_ADDR_BYTES (addrx8 ! j) @ take SPX_N (sk_seed ctx)) [0..<8];
          outs = sha256x8_seeded ctx0 (state_seeded ctx) 512 bufs (SPX_SHA256_ADDR_BYTES + SPX_N)
      in map (\<lambda>j. take SPX_N (outs ! j)) [0..<8])"

definition thashx8 :: "sha256ctx \<Rightarrow> bytes list \<Rightarrow> nat \<Rightarrow> spx_ctx \<Rightarrow> spx_addr list \<Rightarrow> bytes list" where
  "thashx8 ctx0 ins inblocks ctx addrx8 =
     (let bufs = map (\<lambda>j. take SPX_SHA256_ADDR_BYTES (addrx8 ! j) @ take (inblocks * SPX_N) (ins ! j)) [0..<8];
          outs = sha256x8_seeded ctx0 (state_seeded ctx) 512 bufs (SPX_SHA256_ADDR_BYTES + inblocks * SPX_N)
      in map (\<lambda>j. take SPX_N (outs ! j)) [0..<8])"

section \<open>Blocks of the message buffer\<close>

lemma get_row_put:
  assumes "length buf = w * 8" "j < 8" "n < 8" "off + length b \<le> w"
  shows "get_bytes (w * j) w (put_bytes (w * n + off) b buf) =
    (if j = n then put_bytes off b (get_bytes (w * j) w buf) else get_bytes (w * j) w buf)"
proof -
  have row: "w * i + w \<le> w * k" if "i < k" for i k using that by (metis Suc_leI mult_Suc_right add.commute mult_le_mono2)
  have n: "w * n + w \<le> length buf" using row [OF assms(3)] assms(1) by simp
  consider "j < n" | "n < j" | "j = n" by linarith
  then show ?thesis
  proof cases
    case 1
    then show ?thesis using row [OF 1] n assms(4) by (simp add: get_put_below)
  next
    case 2
    then show ?thesis using row [OF 2] row [OF assms(2)] assms by (simp add: get_put_above)
  next
    case 3
    then show ?thesis using n assms(4) by (intro nth_equalityI) (auto simp: get_bytes_def nth_put_bytes)
  qed
qed

lemma put_rows:
  assumes "length buf = w * 8" "\<And>i. i < 8 \<Longrightarrow> off + length (f i) \<le> w"
  shows "length (put_rows w off f buf) = w * 8"
    and "j < 8 \<Longrightarrow> get_bytes (w * j) w (put_rows w off f buf) = put_bytes off (f j) (get_bytes (w * j) w buf)"
proof -
  have "length (foldl (\<lambda>buf i. put_bytes (w * i + off) (f i) buf) buf [0..<n]) = w * 8 \<and>
      (j < 8 \<longrightarrow> get_bytes (w * j) w (foldl (\<lambda>buf i. put_bytes (w * i + off) (f i) buf) buf [0..<n]) =
        (if j < n then put_bytes off (f j) (get_bytes (w * j) w buf) else get_bytes (w * j) w buf))" if "n \<le> 8" for n
    using that
  proof (induction n)
    case (Suc n)
    then have "off + length (f n) \<le> w" using assms(2) by simp
    moreover have "w * n + w \<le> w * 8" using Suc.prems by (metis mult_Suc_right add.commute mult_le_mono2)
    ultimately have "w * n + off + length (f n) \<le> w * 8" by linarith
    then have "length (put_bytes (w * n + off) (f n) buf') = w * 8" if "length buf' = w * 8" for buf'
      using that by simp
    then show ?case using Suc \<open>off + length (f n) \<le> w\<close> by (auto simp: get_row_put)
  qed (use assms(1) in simp)
  from this [of 8] show "length (put_rows w off f buf) = w * 8"
    "j < 8 \<Longrightarrow> get_bytes (w * j) w (put_rows w off f buf) = put_bytes off (f j) (get_bytes (w * j) w buf)"
    by (auto simp: put_rows_def)
qed

section \<open>Lanes of the hashing functions\<close>

text \<open>Lane \<open>j\<close> has absorbed the whole blocks \<open>pre\<close>.\<close>

definition absorbed :: "nat \<Rightarrow> m256i list \<Rightarrow> bytes \<Rightarrow> bool" where
  "absorbed j s pre \<longleftrightarrow> length s = 8 \<and> 64 dvd length pre \<and>
     store_state_32 (lane_state j s) = fst (crypto_hashblocks_sha256_ref iv_256 pre)"

lemma absorbed_transform:
  assumes "j < 8" "absorbed j s pre" "64 \<le> length (data ! j)"
  shows "absorbed j (sha256_transform8x s data) (pre @ take 64 (data ! j))"
proof -
  let ?b = "take 64 (data ! j)"
  have s: "length s = 8" "store_state_32 (lane_state j s) = fst (crypto_hashblocks_sha256_ref iv_256 pre)"
    and d: "64 dvd length pre" using assms(2) by (simp_all add: absorbed_def)
  obtain k where k: "length pre = k * 64" using d by (metis dvd_div_mult_self)
  have b: "length ?b = 64" using assms(3) by simp
  have "block_sha256 (lane_state j s) (?b @ drop 64 (data ! j)) = block_sha256 (lane_state j s) ?b"
    using b by (intro block_append) simp
  then have "block_sha256 (lane_state j s) (data ! j) = block_sha256 (lane_state j s) ?b" by simp
  moreover have "fst (crypto_hashblocks_sha256_ref st ?b) = store_state_32 (block_sha256 (load_state_32 st) ?b)" for st
    using b by (simp add: crypto_hashblocks_sha256_ref_def blocks_loop_sha256.simps [of _ ?b] blocks_loop_sha256.simps [of _ "[]"])
  moreover have "fst (crypto_hashblocks_sha256_ref iv_256 (pre @ ?b)) =
      fst (crypto_hashblocks_sha256_ref (fst (crypto_hashblocks_sha256_ref iv_256 pre)) ?b)"
    by (rule ref256.hb_append [OF _ k]) simp
  ultimately show ?thesis
    using transform8x_lane [OF assms(1) s(1) assms(3)] d b
    by (simp add: absorbed_def flip: s(2))
qed

lemma nth_block_ptrs: "j < 8 \<Longrightarrow> block_ptrs mb ! j = drop (64 * j) mb"
  by (simp add: block_ptrs_def del: upt_Suc)

lemma absorbed_blocks:
  assumes "j < 8" "absorbed j s pre" "length mb = 512"
  shows "absorbed j (sha256_transform8x s (block_ptrs mb)) (pre @ get_bytes (64 * j) 64 mb)"
  using absorbed_transform [OF assms(1,2), of "block_ptrs mb"] assms(1,3) by (simp add: nth_block_ptrs get_bytes_def)

text \<open>The last transposition and byte swap lay the state of lane \<open>j\<close> out as output \<open>j\<close>.\<close>

lemma store_lane:
  assumes "j < 8"
  shows "mm256_storeu_si256 (BYTESWAP (transpose_avx s ! j)) = store_state_32 (lane_state j s)"
  using assms by (simp add: store_byteswap lane_transpose lane_state_def store_state_32.simps store_bigendian_32_u32 upt_8)

lemma final8x_lane:
  assumes "j < 8" "absorbed j (sx_s ctx) pre" "length (sx_msgblocks ctx) = 512" "unat (sx_datalen ctx) < 64"
    and "sx_msglen ctx = of_nat (8 * length pre)"
  shows "sha256_final8x ctx ! j = sha256_md crypto_hashblocks_sha256_ref (pre @ get_bytes (64 * j) (unat (sx_datalen ctx)) (sx_msgblocks ctx))"
proof -
  define d where "d = unat (sx_datalen ctx)"
  define rest where "rest = get_bytes (64 * j) d (sx_msgblocks ctx)"
  define mb where "mb = put_rows 64 d (\<lambda>i. 0x80 # replicate (63 - d) 0) (sx_msgblocks ctx)"
  define len where "len = be_bytes 8 (of_nat (8 * length (pre @ rest)))"
  have d: "d < 64" using assms(4) by (simp add: d_def)
  have rest: "length rest = d" using assms(1,3) d by (simp add: rest_def)
  have mb: "length mb = 512" "get_bytes (64 * j) 64 mb = rest @ 0x80 # replicate (63 - d) 0"
    using put_rows [of "sx_msgblocks ctx" 64 d "\<lambda>i. 0x80 # replicate (63 - d) 0"] assms(1,3) d
    by (simp_all add: mb_def rest_def get_bytes_def put_bytes_def)
  have "unat (sx_datalen ctx * 8) = 8 * d"
    using d by (simp add: unat_word_ariths d_def)
  then have "sx_msglen ctx + ucast (sx_datalen ctx * 8) = of_nat (8 * length (pre @ rest))"
    using assms(5) rest by (metis add_mult_distrib2 length_append of_nat_add of_nat_unat)
  then have len: "ull_to_bytes (replicate 8 0) 8 (sx_msglen ctx + ucast (sx_datalen ctx * 8)) = len"
    by (simp only: ull_to_bytes_be len_def length_replicate)
  have ll: "length len = 8" by (simp add: len_def)
  have le: "be_bytes 8 (8 * of_nat (length pre) + 8 * of_nat d) = len" by (simp add: len_def rest)
  obtain s1 mb1 pre1 where s1: "(if d < 56 then (sx_s ctx, mb) else (sha256_transform8x (sx_s ctx) (block_ptrs mb), replicate 512 0)) = (s1, mb1)"
    and a1: "absorbed j s1 pre1" and mb1: "length mb1 = 512"
    and pad: "pre1 @ put_bytes 56 len (get_bytes (64 * j) 64 mb1) = sha256_pad (pre @ rest)"
  proof (cases "d < 56")
    case True
    have "(length pre + d) mod 64 = d" using assms(2) d by (auto simp: absorbed_def elim!: dvdE)
    moreover have "(119 - d) mod 64 = 55 - d" using True by (simp add: mod_if)
    moreover have "56 - d = Suc (55 - d)" using True by simp
    moreover have "replicate (63 - d) (0 :: u8) = replicate (55 - d) 0 @ replicate 8 0"
      using True by (simp flip: replicate_add)
    ultimately have "pre @ put_bytes 56 len (get_bytes (64 * j) 64 mb) = sha256_pad (pre @ rest)"
      using True rest ll by (simp add: mb(2) sha256_pad_def put_bytes_def le)
    then show thesis using True assms(2) mb(1) by (intro that) auto
  next
    case False
    have "(length pre + d) mod 64 = d" using assms(2) d by (auto simp: absorbed_def elim!: dvdE)
    moreover have "(119 - d) mod 64 = 119 - d" using False d by (simp add: mod_if)
    moreover have "replicate (119 - d) (0 :: u8) = replicate (63 - d) 0 @ replicate 56 0"
      using d by (simp flip: replicate_add)
    moreover have "get_bytes (64 * j) 64 (replicate 512 (0 :: u8)) = replicate 64 0" using assms(1) by (simp add: get_bytes_def)
    ultimately have "(pre @ get_bytes (64 * j) 64 mb) @ put_bytes 56 len (get_bytes (64 * j) 64 (replicate 512 0)) = sha256_pad (pre @ rest)"
      using rest ll by (simp add: mb(2) sha256_pad_def put_bytes_def le)
    then show thesis using False absorbed_blocks [OF assms(1,2) mb(1)] by (intro that) auto
  qed
  define mb2 where "mb2 = put_rows 64 56 (\<lambda>i. len) mb1"
  have mb2: "length mb2 = 512" "get_bytes (64 * j) 64 mb2 = put_bytes 56 len (get_bytes (64 * j) 64 mb1)"
    using put_rows [of mb1 64 56 "\<lambda>i. len"] assms(1) ll mb1 by (simp_all add: mb2_def)
  have "sha256_final8x ctx ! j = store_state_32 (lane_state j (sha256_transform8x s1 (block_ptrs mb2)))"
    unfolding sha256_final8x_def Let_def d_def [symmetric] mb_def [symmetric] len
    using s1 assms(1) by (auto simp: store_lane mb2_def simp del: upt_Suc split: if_splits)
  also have "\<dots> = fst (crypto_hashblocks_sha256_ref iv_256 (pre1 @ get_bytes (64 * j) 64 mb2))"
    using absorbed_blocks [OF assms(1) a1 mb2(1)] by (simp add: absorbed_def)
  also have "\<dots> = sha256_md crypto_hashblocks_sha256_ref (pre @ rest)"
    unfolding mb2(2) pad sha256_md_def ..
  finally show ?thesis unfolding rest_def d_def .
qed

lemma sha256x8_loop_lane:
  assumes "j < 8" "length ins = 8" "inlen \<le> length (ins ! j)" "i \<le> inlen"
    and "absorbed j (sx_s ctx) (pre @ take i (ins ! j))" "sx_msglen ctx = of_nat (8 * length (pre @ take i (ins ! j)))"
    and "sha256x8_loop ctx ins inlen i = (ctx', i')"
  shows "i' \<le> inlen \<and> inlen - i' < 64 \<and> absorbed j (sx_s ctx') (pre @ take i' (ins ! j)) \<and>
    sx_msglen ctx' = of_nat (8 * length (pre @ take i' (ins ! j))) \<and> sx_msgblocks ctx' = sx_msgblocks ctx"
  using assms(4-)
proof (induction "inlen - i" arbitrary: i ctx rule: less_induct)
  case less
  show ?case
  proof (cases "64 \<le> inlen - i")
    case True
    let ?ctx = "ctx\<lparr>sx_s := sha256_transform8x (sx_s ctx) (map (drop i) ins), sx_msglen := sx_msglen ctx + 512\<rparr>"
    have t: "take (i + 64) (ins ! j) = take i (ins ! j) @ take 64 (drop i (ins ! j))" by (rule take_add)
    have a: "absorbed j (sx_s ?ctx) (pre @ take (i + 64) (ins ! j))"
      using absorbed_transform [OF assms(1) less.prems(2), of "map (drop i) ins"] assms(1-3) True unfolding t by simp
    have m: "sx_msglen ?ctx = of_nat (8 * length (pre @ take (i + 64) (ins ! j)))"
      using less.prems(3) assms(3) True by (simp add: t algebra_simps)
    have "sha256x8_loop ?ctx ins inlen (i + 64) = (ctx', i')"
      using less.prems(4) True by (subst (asm) sha256x8_loop.simps) simp
    from less.hyps [OF _ _ a m this] True show ?thesis by simp
  next
    case False
    then show ?thesis using less.prems by (subst (asm) sha256x8_loop.simps) auto
  qed
qed

lemma sha256x8_inner_lane:
  assumes "j < 8" "length ins = 8" "length (ins ! j) = inlen" "length (sx_msgblocks ctx) = 512"
    and "absorbed j (sx_s ctx) pre" "sx_msglen ctx = of_nat (8 * length pre)"
    and "\<And>k. k < 8 \<Longrightarrow> length (ins ! k) = inlen"
  shows "sha256x8_inner ctx ins inlen ! j = sha256_md crypto_hashblocks_sha256_ref (pre @ ins ! j)"
proof -
  obtain ctx' i where l: "sha256x8_loop ctx ins inlen 0 = (ctx', i)" by fastforce
  have r: "i \<le> inlen" "inlen - i < 64" "absorbed j (sx_s ctx') (pre @ take i (ins ! j))"
    "sx_msglen ctx' = of_nat (8 * length (pre @ take i (ins ! j)))" "sx_msgblocks ctx' = sx_msgblocks ctx"
    using sha256x8_loop_lane [OF assms(1,2) _ _ _ _ l, of pre] assms(3,5,6) by auto
  define mb where "mb = put_rows 64 0 (\<lambda>k. get_bytes i (inlen - i) (ins ! k)) (sx_msgblocks ctx')"
  have len: "length (get_bytes i (inlen - i) (ins ! k)) = inlen - i" if "k < 8" for k
    using assms(7) [OF that] r(1) by (simp add: get_bytes_def)
  have mb: "length mb = 512" "get_bytes (64 * j) 64 mb = put_bytes 0 (get_bytes i (inlen - i) (ins ! j)) (get_bytes (64 * j) 64 (sx_msgblocks ctx'))"
    using put_rows [of "sx_msgblocks ctx'" 64 0 "\<lambda>k. get_bytes i (inlen - i) (ins ! k)"] assms(1,4) r(2,5) len by (simp_all add: mb_def)
  have "get_bytes (64 * j) (inlen - i) mb = take (inlen - i) (get_bytes (64 * j) 64 mb)"
    using r(2) by (simp add: get_bytes_def)
  also have "\<dots> = get_bytes i (inlen - i) (ins ! j)"
    unfolding mb(2) put_bytes_def using len [OF assms(1)] by simp
  also have "\<dots> = drop i (ins ! j)" using assms(3) by (simp add: get_bytes_def)
  finally have rest: "get_bytes (64 * j) (inlen - i) mb = drop i (ins ! j)" .
  have n: "unat (of_nat (inlen - i) :: u32) = inlen - i" using r(2) by (intro unat_of_nat_small) simp
  have "sha256x8_inner ctx ins inlen = sha256_final8x (ctx'\<lparr>sx_msgblocks := mb, sx_datalen := of_nat (inlen - i)\<rparr>)"
    by (simp only: sha256x8_inner_def l prod.case Let_def mb_def)
  then show ?thesis
    using final8x_lane [OF assms(1), of "ctx'\<lparr>sx_msgblocks := mb, sx_datalen := of_nat (inlen - i)\<rparr>" "pre @ take i (ins ! j)"]
      r mb(1) n rest by simp
qed

text \<open>The eight-lane hashes are eight scalar hashes.\<close>

theorem sha256x8_lane:
  assumes "length ins = 8" "\<And>k. k < 8 \<Longrightarrow> length (ins ! k) = inlen" "length (sx_msgblocks ctx0) = 512" "j < 8"
  shows "sha256x8 ctx0 ins inlen ! j = sha256 crypto_hashblocks_sha256_ref (ins ! j)"
proof -
  have "lane_state j (sx_s (sha256_init8x ctx0)) = load_state_32 iv_256"
    using assms(4) by (simp add: lane_state_def sha256_init8x_def lane_set1 load_state_32.simps iv_256_def load_bigendian_32_def)
  moreover have "fst (crypto_hashblocks_sha256_ref iv_256 []) = iv_256" by (rule ref256.hb_short) simp_all
  ultimately have "absorbed j (sx_s (sha256_init8x ctx0)) []"
    by (simp add: absorbed_def store_load_state sha256_init8x_def)
  then show ?thesis
    using sha256x8_inner_lane [OF assms(4,1) _ _ _ _ assms(2), of "sha256_init8x ctx0" "[]"] assms
    by (simp add: sha256x8_def sha256_init8x_def ref256.sha256_eq_md)
qed

text \<open>From the midstate of a context.\<close>

lemma sha256x8_seeded_lane:
  assumes "ctx_seeded crypto_hashblocks_sha256_ref ctx" "length ins = 8" "\<And>k. k < 8 \<Longrightarrow> length (ins ! k) = inlen"
    and "length (sx_msgblocks ctx0) = 512" "j < 8"
  shows "sha256x8_seeded ctx0 (state_seeded ctx) 512 ins inlen ! j =
    sha256_inc_finalize crypto_hashblocks_sha256_ref (state_seeded ctx) (ins ! j)"
proof -
  let ?pre = "pub_seed ctx @ replicate 48 0"
  let ?s = "map (\<lambda>i. mm256_set1_epi32 (load_bigendian_32 (drop (4 * i) (state_seeded ctx)))) [0..<8]"
  let ?st = "fst (crypto_hashblocks_sha256_ref iv_256 ?pre)"
  have c: "length (pub_seed ctx) = 16" "state_seeded ctx = ?st @ store_bigendian_64 (of_nat (length ?pre))"
    using assms(1) by (simp_all add: ctx_seeded_def sha256_state_def)
  have l: "length ?st = 32" by (simp add: ref256.hb_length)
  have "lane_state j ?s = load_state_32 ?st"
    using assms(5) l by (simp add: lane_state_def lane_set1 load_state_32.simps c(2) load_bigendian_append upt_8)
  then have "absorbed j ?s ?pre" using l c(1) by (simp add: absorbed_def store_load_state)
  then show ?thesis
    using sha256x8_inner_lane [OF assms(5,2) _ _ _ _ assms(3), of
        "ctx0\<lparr>sx_s := ?s, sx_datalen := 0, sx_msglen := 512\<rparr>" ?pre] assms(3-5) c(1)
    by (simp add: sha256x8_seeded_def ref256.seeded_finalize [OF assms(1)])
qed

section \<open>The eight-lane contexts\<close>

text \<open>The local states have their 512-byte message buffer; the hash context is seeded.\<close>

locale eight_lanes = seeded crypto_hashblocks_sha256_ref ctx for ctx :: spx_ctx +
  fixes ctx0 :: sha256ctx
  assumes msgblocks: "length (sx_msgblocks ctx0) = 512"
    and sk_seed_len: "length (sk_seed ctx) = 16"
begin

lemma prf_addrx8_lanes:
  assumes "length addrx8 = 8" "\<And>j. j < 8 \<Longrightarrow> valid_addr (addrx8 ! j)"
  shows "prf_addrx8 ctx0 ctx addrx8 = map (\<lambda>j. prf_addr crypto_hashblocks_sha256_ref ctx (addrx8 ! j)) [0..<8]"
  unfolding prf_addrx8_def Let_def
proof (intro map_cong refl)
  fix j assume "j \<in> set [0..<8]"
  then show "take SPX_N (sha256x8_seeded ctx0 (state_seeded ctx) 512
      (map (\<lambda>j. take SPX_SHA256_ADDR_BYTES (addrx8 ! j) @ take SPX_N (sk_seed ctx)) [0..<8]) (SPX_SHA256_ADDR_BYTES + SPX_N) ! j) =
      prf_addr crypto_hashblocks_sha256_ref ctx (addrx8 ! j)"
    using assms msgblocks sk_seed_len
    by (subst sha256x8_seeded_lane [OF seeded]) (simp_all add: prf_addr_def del: upt_Suc)
qed

lemma thashx8_lanes:
  assumes "length addrx8 = 8" "\<And>j. j < 8 \<Longrightarrow> valid_addr (addrx8 ! j)" "\<And>j. j < 8 \<Longrightarrow> inblocks * 16 \<le> length (ins ! j)"
  shows "thashx8 ctx0 ins inblocks ctx addrx8 =
    map (\<lambda>j. thash crypto_hashblocks_sha256_ref (ins ! j) inblocks ctx (addrx8 ! j)) [0..<8]"
  unfolding thashx8_def Let_def
proof (intro map_cong refl)
  fix j assume "j \<in> set [0..<8]"
  then show "take SPX_N (sha256x8_seeded ctx0 (state_seeded ctx) 512
      (map (\<lambda>j. take SPX_SHA256_ADDR_BYTES (addrx8 ! j) @ take (inblocks * SPX_N) (ins ! j)) [0..<8])
      (SPX_SHA256_ADDR_BYTES + inblocks * SPX_N) ! j) =
      thash crypto_hashblocks_sha256_ref (ins ! j) inblocks ctx (addrx8 ! j)"
    using assms msgblocks
    by (subst sha256x8_seeded_lane [OF seeded]) (simp_all add: thash_def del: upt_Suc)
qed

end

section \<open>The mask generator\<close>

lemma mgf1x8_loop_lane:
  assumes "\<And>j. j < 8 \<Longrightarrow> length (ins ! j) = inlen" "length (sx_msgblocks ctx0) = 512" "j < 8"
    and "length outx8 = outlen * 8" "32 * i \<le> outlen" "take (32 * i) (get_bytes (outlen * j) outlen outx8) = out"
  shows "get_bytes (outlen * j) outlen (mgf1x8_loop ctx0 ins inlen outlen i outx8) =
    mgf1_256_loop crypto_hashblocks_sha256_ref (ins ! j) outlen i out"
  using assms(4-)
proof (induction "outlen - i" arbitrary: i outx8 out rule: less_induct)
  case less
  define outs where "outs = sha256x8 ctx0 (map (\<lambda>j. take inlen (ins ! j) @ u32_to_bytes (of_nat i)) [0..<8]) (inlen + 4)"
  have outs: "outs ! k = sha256 crypto_hashblocks_sha256_ref (ins ! k @ u32_to_bytes (of_nat i))" if "k < 8" for k
    unfolding outs_def using that assms(1,2) by (subst sha256x8_lane) (simp_all del: upt_Suc)
  have len: "length (outs ! k) = 32" if "k < 8" for k
    using outs [OF that] by (simp add: ref256.sha256_eq_md ref256.length_sha256_md)
  have row: "length (get_bytes (outlen * j) outlen outx8) = outlen"
  proof (rule length_get_bytes)
    have "outlen * Suc j \<le> outlen * 8" using assms(3) by (intro mult_le_mono2) simp
    then show "outlen * j + outlen \<le> length outx8" using less.prems(1) by simp
  qed
  show ?case
  proof (cases "32 * Suc i \<le> outlen")
    case True
    let ?o = "put_rows outlen (32 * i) (\<lambda>k. outs ! k) outx8"
    have o: "length ?o = outlen * 8" "get_bytes (outlen * j) outlen ?o = put_bytes (32 * i) (outs ! j) (get_bytes (outlen * j) outlen outx8)"
      using put_rows [OF less.prems(1), of "32 * i" "\<lambda>k. outs ! k"] True len assms(3) by auto
    have "take (32 * Suc i) (get_bytes (outlen * j) outlen ?o) = out @ outs ! j"
      using less.prems(3) row True len [OF assms(3)] unfolding o(2) by (auto simp: put_bytes_def)
    from less.hyps [OF _ o(1) _ this] True show ?thesis
      using outs [OF assms(3)] by (subst mgf1x8_loop.simps, subst mgf1_256_loop.simps) (simp add: Let_def flip: outs_def)
  next
    case False
    let ?f = "\<lambda>k. take (outlen - i * 32) (outs ! k)"
    have "get_bytes (outlen * j) outlen (put_rows outlen (32 * i) ?f outx8) = put_bytes (32 * i) (?f j) (get_bytes (outlen * j) outlen outx8)"
      using put_rows(2) [OF less.prems(1), of "32 * i" ?f j] less.prems(2) len assms(3) by auto
    also have "\<dots> = out @ ?f j"
      using less.prems(2,3) row False len [OF assms(3)] by (auto simp: put_bytes_def)
    finally show ?thesis
      using False less.prems(2) outs [OF assms(3)]
      by (subst mgf1x8_loop.simps, subst mgf1_256_loop.simps) (auto simp: Let_def simp flip: outs_def)
  qed
qed

theorem mgf1x8_lane:
  assumes "\<And>j. j < 8 \<Longrightarrow> length (ins ! j) = inlen" "length (sx_msgblocks ctx0) = 512" "length outx8 = outlen * 8" "j < 8"
  shows "get_bytes (outlen * j) outlen (mgf1x8 ctx0 outx8 outlen ins inlen) = mgf1_256 crypto_hashblocks_sha256_ref outlen (ins ! j)"
  unfolding mgf1x8_def mgf1_256_def using assms by (intro mgf1x8_loop_lane) simp_all

end
