(* ===== verification/Avx2_Tree.thy ===== *)
theory Avx2_Tree
  imports Avx2_Hash
begin

text \<open>
  \<open>treehashx8\<close> (\<open>sphincsplus/sha2-avx2/utilsx8.c\<close>): the Merkle tree in steps of eight nodes.  A logical node is a list of eight
  nodes, the stack is a list of logical nodes, the eight addresses are a list.  In the top three levels only the right part of
  the logical node is meaningful (\<open>left_adj\<close>, \<open>prev_left_adj\<close>); the other lanes hash what the uninitialised stack holds, so
  the initial stack is an argument.  The theorem: root and authentication path are those of the specification
  \<open>merkle_node\<close>, whatever that stack was.
\<close>

section \<open>treehashx8\<close>

text \<open>The sixteen children a combining step reads, as eight pairs.\<close>

definition pairs8 :: "bytes list \<Rightarrow> bytes list \<Rightarrow> bytes list" where
  "pairs8 left current =
     map (\<lambda>j. left ! (2 * j) @ left ! (2 * j + 1)) [0..<4] @ map (\<lambda>j. current ! (2 * j) @ current ! (2 * j + 1)) [0..<4]"

text \<open>The addresses of the nodes being created; the index is computed in \<open>int64_t\<close>.\<close>

definition set_node_addrsx8 :: "spx_addr list \<Rightarrow> u32 \<Rightarrow> u32 \<Rightarrow> u32 \<Rightarrow> u32 \<Rightarrow> spx_addr list" where
  "set_node_addrsx8 tree_addrx8 h internal_idx left_adj internal_idx_offset =
     map (\<lambda>j. let tree_index = 4 * int (unat (internal_idx AND NOT 1)) + int j - int (unat left_adj) + int (unat internal_idx_offset)
       in set_tree_index (set_tree_height (tree_addrx8 ! j) (h + 1)) (word_of_int tree_index)) [0..<8]"

datatype climb8_result =
    Returned8 bytes bytes "spx_addr list"
  | Broke8 u32 "bytes list" bytes "spx_addr list" u32 u32

function treehashx8_climb :: "sha256ctx \<Rightarrow> spx_ctx \<Rightarrow> u32 \<Rightarrow> u32 \<Rightarrow> u32 \<Rightarrow> bytes list list \<Rightarrow> u32 \<Rightarrow> u32 \<Rightarrow> u32 \<Rightarrow> u32
    \<Rightarrow> u32 \<Rightarrow> u32 \<Rightarrow> bytes list \<Rightarrow> bytes \<Rightarrow> spx_addr list \<Rightarrow> climb8_result" where
  "treehashx8_climb ctx0 ctx tree_height max_idx idx stackx8 h internal_idx internal_leaf internal_idx_offset
       left_adj prev_left_adj current auth_path tree_addrx8 =
     (if h \<ge> tree_height - 3 \<and> h = tree_height then Returned8 (current ! 7) auth_path tree_addrx8
      else
        let (prev_left_adj, left_adj) =
              (if h \<ge> tree_height - 3 then (left_adj, 8 - push_bit (unat (tree_height - h - 1)) 1)
               else (prev_left_adj, left_adj))
        in if h = tree_height then Returned8 (current ! 7) auth_path tree_addrx8
           else
             let auth_path =
                   (if (push_bit 3 internal_idx XOR internal_leaf) AND NOT 7 = 0
                    then put_bytes (unat h * SPX_N) (current ! unat (((internal_leaf AND 7) XOR 1) + prev_left_adj)) auth_path
                    else auth_path)
             in if internal_idx AND 1 = 0 \<and> idx < max_idx
                then Broke8 h current auth_path tree_addrx8 left_adj prev_left_adj
                else
                  let internal_idx_offset = drop_bit 1 internal_idx_offset;
                      tree_addrx8 = set_node_addrsx8 tree_addrx8 h internal_idx left_adj internal_idx_offset;
                      left = stackx8 ! unat h;
                      current = thashx8 ctx0 (pairs8 left current) 2 ctx tree_addrx8
                  in treehashx8_climb ctx0 ctx tree_height max_idx idx stackx8 (h + 1) (drop_bit 1 internal_idx)
                       (drop_bit 1 internal_leaf) internal_idx_offset left_adj prev_left_adj current auth_path tree_addrx8)"
  by pat_completeness auto
termination
  by (relation "measure (\<lambda>(ctx0, ctx, th, mi, i, st, h, r). unat (th - h))") (auto intro: word_count_to)

declare treehashx8_climb.simps [simp del]

lemma treehashx8_climb_Broke8:
  "treehashx8_climb ctx0 ctx th max_idx idx stackx8 h ii il io la pa current auth_path addrs = Broke8 h' c a t l p \<Longrightarrow>
    idx < max_idx"
proof (induction ctx0 ctx th max_idx idx stackx8 h ii il io la pa current auth_path addrs rule: treehashx8_climb.induct)
  case (1 ctx0 ctx th max_idx idx stackx8 h ii il io la pa current auth_path addrs)
  show ?case
    using 1 by (subst (asm) (2) treehashx8_climb.simps) (auto simp: Let_def split: if_splits)
qed

text \<open>A generator returns the eight leaves from an index on.\<close>

type_synonym 'i gen_leafx8 = "u32 \<Rightarrow> 'i \<Rightarrow> bytes list \<times> 'i"

function treehashx8_loop :: "sha256ctx \<Rightarrow> spx_ctx \<Rightarrow> u32 \<Rightarrow> u32 \<Rightarrow> u32 \<Rightarrow> 'i gen_leafx8 \<Rightarrow> u32 \<Rightarrow> u32
    \<Rightarrow> bytes list list \<Rightarrow> u32 \<Rightarrow> u32 \<Rightarrow> bytes \<Rightarrow> spx_addr list \<Rightarrow> 'i \<Rightarrow> bytes \<times> bytes \<times> spx_addr list \<times> 'i" where
  "treehashx8_loop ctx0 ctx leaf_idx idx_offset tree_height gen_leafx8 max_idx idx stackx8 left_adj prev_left_adj
       auth_path tree_addrx8 info =
     (let (current, info) = gen_leafx8 (8 * idx + idx_offset) info
      in case treehashx8_climb ctx0 ctx tree_height max_idx idx stackx8 0 idx leaf_idx idx_offset left_adj prev_left_adj
                current auth_path tree_addrx8 of
           Returned8 root auth_path tree_addrx8 \<Rightarrow> (root, auth_path, tree_addrx8, info)
         | Broke8 h current auth_path tree_addrx8 left_adj prev_left_adj \<Rightarrow>
             treehashx8_loop ctx0 ctx leaf_idx idx_offset tree_height gen_leafx8 max_idx (idx + 1)
               (stackx8[unat h := current]) left_adj prev_left_adj auth_path tree_addrx8 info)"
  by pat_completeness auto
termination
  by (relation "measure (\<lambda>(ctx0, ctx, li, io, th, g, max_idx, idx, r). unat max_idx - unat idx)")
    (auto intro: word_count_up dest!: treehashx8_climb_Broke8)

declare treehashx8_loop.simps [simp del]

definition treehashx8 :: "sha256ctx \<Rightarrow> bytes list list \<Rightarrow> bytes \<Rightarrow> spx_ctx \<Rightarrow> u32 \<Rightarrow> u32 \<Rightarrow> u32 \<Rightarrow> 'i gen_leafx8
    \<Rightarrow> spx_addr list \<Rightarrow> 'i \<Rightarrow> bytes \<times> bytes \<times> spx_addr list \<times> 'i" where
  "treehashx8 ctx0 stackx8 auth_path ctx leaf_idx idx_offset tree_height gen_leafx8 tree_addrx8 info =
     (let max_idx = push_bit (unat (tree_height - 3)) 1 - 1
      in treehashx8_loop ctx0 ctx leaf_idx idx_offset tree_height gen_leafx8 max_idx 0 stackx8 0 0
           auth_path tree_addrx8 info)"

section \<open>Indices within a logical node\<close>

lemma hit_iff:
  fixes a b :: u32
  assumes "unat a < 2 ^ 29"
  shows "(push_bit 3 a XOR b) AND NOT 7 = 0 \<longleftrightarrow> drop_bit 3 b = a"
proof -
  have m: "(7 :: u32) = mask 3" by (simp add: mask_eq_exp_minus_1)
  have "x AND NOT 7 = push_bit 3 (drop_bit 3 x)" for x :: u32
    unfolding m by (rule bit_word_eqI) (auto simp: bit_simps)
  moreover have "push_bit 3 (drop_bit 3 x) = 0 \<longleftrightarrow> drop_bit 3 x = 0" for x :: u32
  proof
    assume "push_bit 3 (drop_bit 3 x) = 0"
    then have "drop_bit 3 (push_bit 3 (drop_bit 3 x)) = 0" by simp
    moreover have "drop_bit 3 (push_bit 3 (drop_bit 3 x)) = drop_bit 3 x"
      by (rule bit_word_eqI) (auto simp: bit_simps dest: bit_imp_le_length)
    ultimately show "drop_bit 3 x = 0" by simp
  qed simp
  ultimately have z: "x AND NOT 7 = 0 \<longleftrightarrow> drop_bit 3 x = 0" for x :: u32 by simp
  have "take_bit 29 a = a"
    using assms by (intro word_eq_unatI) (simp add: unsigned_take_bit_eq take_bit_nat_eq_self)
  moreover have "drop_bit 3 (push_bit 3 a) = take_bit 29 a" by (rule bit_word_eqI) (auto simp: bit_simps)
  ultimately have "drop_bit 3 (push_bit 3 a XOR b) = a XOR drop_bit 3 b"
    by (simp add: drop_bit_xor)
  moreover have "a XOR c = 0 \<longleftrightarrow> c = a" for c :: u32
  proof -
    have "a XOR (a XOR c) = c" by (simp flip: xor.assoc)
    then show ?thesis by (metis xor.right_neutral xor_self_eq)
  qed
  ultimately show ?thesis by (simp only: z)
qed

lemma unat_and_7: "unat (x AND 7) = unat x mod 8" for x :: u32
proof -
  have "(x AND 7) = take_bit 3 x" by (simp add: take_bit_eq_mask mask_eq_exp_minus_1)
  then show ?thesis by (simp only: unsigned_take_bit_eq) (simp add: take_bit_eq_mod)
qed

lemma unat_low_xor: "unat ((x AND 7) XOR 1) = (let m = unat x mod 8 in if odd m then m - 1 else m + 1)" for x :: u32
  by (simp add: unat_and_7 unsigned_xor_eq xor_Suc_0_eq Let_def)

lemma sibling_split: "sibling leaf h = 8 * (unat leaf div 2 ^ (h + 3)) + unat ((drop_bit h leaf AND 7) XOR 1)"
proof -
  define m where "m = unat leaf div 2 ^ h"
  have "unat leaf div 2 ^ (h + 3) = m div 8" by (simp add: m_def power_add div_mult2_eq)
  moreover have qr: "m = 8 * (m div 8) + m mod 8" by simp
  moreover have "odd (m mod 8) \<longleftrightarrow> odd m" by (metis dvd_mod_iff even_numeral even_mult_iff numeral_Bit0_eq_double)
  ultimately show ?thesis
    unfolding sibling_cases unat_low_xor unat_drop_bit m_def [symmetric] Let_def
    using odd_pos [of "m mod 8"] by (cases "odd m") simp_all
qed

lemma unat_even_part: "unat (x AND NOT 1) = 2 * (unat x div 2)" for x :: u32
proof -
  have m: "(1 :: u32) = mask (Suc 0)" by simp
  have "x AND NOT 1 = push_bit (Suc 0) (drop_bit (Suc 0) x)"
    by (subst m) (rule bit_word_eqI, simp only: bit_simps, auto)
  moreover have "unat x < 2 ^ 32" using unsigned_less [of x] by simp
  then have "unat (drop_bit (Suc 0) x) < 2 ^ 31" by (simp add: unat_drop_bit)
  ultimately show ?thesis by (simp add: push_bit_eq_mult unat_word_ariths unat_drop_bit)
qed

section \<open>Combining two logical nodes\<close>

definition lens8 :: "bytes list \<Rightarrow> bool" where
  "lens8 c \<longleftrightarrow> length c = 8 \<and> (\<forall>i<8. length (c ! i) = 16)"

definition addrs8 :: "spx_addr \<Rightarrow> spx_addr list \<Rightarrow> bool" where
  "addrs8 addr0 as \<longleftrightarrow> length as = 8 \<and> (\<forall>j<8. agree_except node_fields (as ! j) addr0)"

lemma nth_pairs8:
  "j < 4 \<Longrightarrow> pairs8 left current ! j = left ! (2 * j) @ left ! (2 * j + 1)"
  "4 \<le> j \<Longrightarrow> j < 8 \<Longrightarrow> pairs8 left current ! j = current ! (2 * (j - 4)) @ current ! (2 * (j - 4) + 1)"
  by (auto simp: pairs8_def nth_append nth_upt simp del: upt_Suc upt_rec_numeral)

lemma length_nth_pairs8: "lens8 left \<Longrightarrow> lens8 current \<Longrightarrow> j < 8 \<Longrightarrow> length (pairs8 left current ! j) = 32"
  by (cases "j < 4") (simp_all add: nth_pairs8 lens8_def)

lemma nth_node_addrs:
  assumes "addrs8 addr0 as" "j < 8"
  shows "set_node_addrsx8 as h ii la off ! j = set_tree_index (set_tree_height addr0 (h + 1))
    (of_nat (8 * (unat ii div 2) + j) - la + off)"
  unfolding set_node_addrsx8_def Let_def unat_even_part
  using assms node_addr_unique [of "as ! j" addr0] by (simp add: addrs8_def algebra_simps del: upt_Suc)

lemma addrs8_node_addrs: "addrs8 addr0 as \<Longrightarrow> addrs8 addr0 (set_node_addrsx8 as h ii la off)"
  by (simp add: addrs8_def set_node_addrsx8_def Let_def agree_node_set del: upt_Suc)

context eight_lanes
begin

lemma combine8:
  fixes h ii la io :: u32
  assumes "lens8 left" "lens8 current" "addrs8 addr0 as"
  defines "r \<equiv> thashx8 ctx0 (pairs8 left current) 2 ctx (set_node_addrsx8 as h ii la io)"
  shows "lens8 r"
    and "j < 8 \<Longrightarrow> r ! j = thash crypto_hashblocks_sha256_ref (pairs8 left current ! j) 2 ctx
      (set_tree_index (set_tree_height addr0 (h + 1)) (of_nat (8 * (unat ii div 2) + j) - la + io))"
proof -
  have a: "length (set_node_addrsx8 as h ii la io) = 8" "\<And>i. i < 8 \<Longrightarrow> valid_addr (set_node_addrsx8 as h ii la io ! i)"
    using addrs8_node_addrs [OF assms(3)] by (auto simp: addrs8_def agree_except_def)
  have r: "r = map (\<lambda>j. thash crypto_hashblocks_sha256_ref (pairs8 left current ! j) 2 ctx (set_node_addrsx8 as h ii la io ! j)) [0..<8]"
    unfolding r_def using a length_nth_pairs8 [OF assms(1,2)] by (intro thashx8_lanes) auto
  show "lens8 r" by (simp add: r lens8_def del: upt_Suc)
  show "r ! j = thash crypto_hashblocks_sha256_ref (pairs8 left current ! j) 2 ctx
      (set_tree_index (set_tree_height addr0 (h + 1)) (of_nat (8 * (unat ii div 2) + j) - la + io))" if "j < 8"
    using that by (simp add: r nth_node_addrs [OF assms(3)] del: upt_Suc)
qed

end

section \<open>treehashx8 computes the Merkle tree\<close>

text \<open>The contract of an eight-leaf generator.\<close>

locale leaf_generator8 = eight_lanes ctx ctx0 for ctx :: spx_ctx and ctx0 :: sha256ctx +
  fixes gen :: "'i gen_leafx8" and L :: "nat \<Rightarrow> bytes" and P :: "nat \<Rightarrow> 'i \<Rightarrow> bool"
    and off :: u32 and th :: nat
  assumes th_range: "3 \<le> th" "th < 32"
    and length_L: "length (L i) = 16"
    and gen_L: "k < 2 ^ (th - 3) \<Longrightarrow> P k info \<Longrightarrow> fst (gen (8 * of_nat k + off) info) = map (\<lambda>j. L (8 * k + j)) [0..<8]"
    and gen_P: "k < 2 ^ (th - 3) \<Longrightarrow> P k info \<Longrightarrow> P (Suc k) (snd (gen (8 * of_nat k + off) info))"
begin

abbreviation node :: "spx_addr \<Rightarrow> nat \<Rightarrow> nat \<Rightarrow> bytes" where
  "node addr0 \<equiv> merkle_node crypto_hashblocks_sha256_ref ctx addr0 off L"

text \<open>Eight consecutive nodes.\<close>

definition node8 :: "spx_addr \<Rightarrow> nat \<Rightarrow> nat \<Rightarrow> bytes list" where
  "node8 addr0 h i = map (\<lambda>j. node addr0 h (8 * i + j)) [0..<8]"

lemma length_node: "length (node addr h i) = 16"
  by (rule length_merkle_node) (rule length_L)

lemma nth_node8: "j < 8 \<Longrightarrow> node8 addr0 h i ! j = node addr0 h (8 * i + j)"
  by (simp add: node8_def del: upt_Suc)

lemma lens8_node8: "lens8 (node8 addr0 h i)"
  by (simp add: lens8_def nth_node8 length_node) (simp add: node8_def)

lemma low_step:
  assumes "addrs8 addr0 as" "unat ii = 2 * q + 1"
  shows "thashx8 ctx0 (pairs8 (node8 addr0 h (2 * q)) (node8 addr0 h (2 * q + 1))) 2 ctx
      (set_node_addrsx8 as (of_nat h) ii 0 (drop_bit (Suc h) off)) = node8 addr0 (Suc h) q" (is "?r = _")
proof (rule nth_equalityI)
  note c = combine8 [OF lens8_node8 lens8_node8 assms(1)]
  have len: "length ?r = 8" using c(1) unfolding lens8_def by blast
  then show "length ?r = length (node8 addr0 (Suc h) q)" by (simp add: node8_def)
  fix j assume "j < length ?r"
  then have j: "j < 8" by (simp only: len)
  have "pairs8 (node8 addr0 h (2 * q)) (node8 addr0 h (2 * q + 1)) ! j = node addr0 h (2 * (8 * q + j)) @ node addr0 h (2 * (8 * q + j) + 1)"
  proof (cases "j < 4")
    case True
    then show ?thesis by (simp add: nth_pairs8 nth_node8)
  next
    case False
    then obtain d where "j = d + 4" "d < 4" using j by (metis add.commute le_Suc_ex not_less add_less_imp_less_right numeral_Bit0)
    then show ?thesis by (simp add: nth_pairs8 nth_node8 algebra_simps)
  qed
  then show "?r ! j = node8 addr0 (Suc h) q ! j"
    using j assms(2) by (simp add: c(2) nth_node8 node_addr_def add.commute [of 1])
qed

text \<open>In the top levels the nodes are at the right end of the logical node.\<close>

definition adj :: "nat \<Rightarrow> nat" where
  "adj t = 8 - 2 ^ (3 - t)"

definition top_ok :: "spx_addr \<Rightarrow> nat \<Rightarrow> bytes list \<Rightarrow> bool" where
  "top_ok addr0 t c \<longleftrightarrow> lens8 c \<and> (\<forall>i < 2 ^ (3 - t). c ! (adj t + i) = node addr0 (th - 3 + t) i)"

lemma top_step:
  assumes "addrs8 addr0 as" "top_ok addr0 t c" "t < 3" "lens8 left"
  shows "top_ok addr0 (Suc t) (thashx8 ctx0 (pairs8 left c) 2 ctx
      (set_node_addrsx8 as (of_nat (th - 3 + t)) 0 (of_nat (adj (Suc t))) (drop_bit (Suc (th - 3 + t)) off)))" (is "top_ok _ _ ?r")
proof -
  have c: "lens8 c" using assms(2) by (simp add: top_ok_def)
  note r = combine8 [OF assms(4) c assms(1)]
  have "?r ! (adj (Suc t) + i) = node addr0 (Suc (th - 3 + t)) i" if i: "i < 2 ^ (2 - t)" for i
  proof -
    let ?j = "adj (Suc t) + i"
    consider "t = 0" | "t = 1" | "t = 2" using assms(3) by linarith
    then have j: "4 \<le> ?j" "?j < 8" "2 * (?j - 4) = adj t + 2 * i" "2 * i + 1 < 2 ^ (3 - t)"
      using i by (cases; simp add: adj_def)+
    have "pairs8 left c ! ?j = node addr0 (th - 3 + t) (2 * i) @ node addr0 (th - 3 + t) (2 * i + 1)"
    proof -
      have "c ! (adj t + i') = node addr0 (th - 3 + t) i'" if "i' < 2 ^ (3 - t)" for i' using assms(2) that by (simp add: top_ok_def)
      from this [of "2 * i"] this [of "2 * i + 1"] show ?thesis using j by (simp add: nth_pairs8)
    qed
    then show ?thesis using j(2) by (simp add: r(2) node_addr_def add.commute [of 1])
  qed
  then show ?thesis using r(1) by (simp add: top_ok_def)
qed

text \<open>Word facts of the climb.\<close>

lemma th_words:
  "unat (of_nat th :: u32) = th" "(of_nat th :: u32) - 3 = of_nat (th - 3)"
  using th_range by (simp_all add: unat_of_nat_small of_nat_diff)

lemma unat_height: "h \<le> th \<Longrightarrow> unat (of_nat h :: u32) = h"
  using th_range by (simp add: unat_of_nat_small)

lemma idx_bound: "k < 2 ^ 29" if "k < 2 ^ (th - 3)" for k :: nat
  using that by (rule order.strict_trans2) (rule power_increasing, use th_range in auto)

lemma unat_idx: "k < 2 ^ (th - 3) \<Longrightarrow> unat (of_nat k :: u32) = k"
  using idx_bound [of k] by (intro unat_of_nat_small) simp

lemma unat_max: "unat (2 ^ (th - 3) - 1 :: u32) = 2 ^ (th - 3) - 1"
proof -
  have "unat (of_nat (2 ^ (th - 3) - 1) :: u32) = 2 ^ (th - 3) - 1" by (rule unat_idx) simp
  then show ?thesis by simp
qed

lemma max_eq: "Suc k = 2 ^ (th - 3) \<Longrightarrow> (of_nat k :: u32) = 2 ^ (th - 3) - 1"
  using unat_max by (intro word_eq_unatI) (simp add: unat_idx)

lemma top_words:
  assumes "t < 3"
  shows "(of_nat (th - 3 + t) :: u32) \<ge> of_nat (th - 3)" "(of_nat (th - 3 + t) :: u32) \<noteq> of_nat th"
    "8 - push_bit (unat (of_nat th - of_nat (th - 3 + t) - 1 :: u32)) 1 = (of_nat (adj (Suc t)) :: u32)"
proof -
  have u: "unat (of_nat (th - 3 + t) :: u32) = th - 3 + t" using assms th_range by (intro unat_height) simp
  then show "(of_nat (th - 3 + t) :: u32) \<ge> of_nat (th - 3)" using unat_height [of "th - 3"] by (simp only: word_le_nat_alt)
  show "(of_nat (th - 3 + t) :: u32) \<noteq> of_nat th" using u th_words(1) assms th_range by auto
  have "(of_nat th :: u32) = of_nat (th - 3) + 3" using th_words(2) by (simp add: algebra_simps)
  then have "(of_nat th - of_nat (th - 3 + t) - 1 :: u32) = of_nat (2 - t)" using assms by (simp add: of_nat_diff)
  moreover have "unat (of_nat (2 - t) :: u32) = 2 - t" by (intro unat_of_nat_small) simp
  ultimately have e: "unat (of_nat th - of_nat (th - 3 + t) - 1 :: u32) = 2 - t" by simp
  consider "t = 0" | "t = 1" | "t = 2" using assms by linarith
  then show "8 - push_bit (unat (of_nat th - of_nat (th - 3 + t) - 1 :: u32)) 1 = (of_nat (adj (Suc t)) :: u32)"
    unfolding e by cases (simp_all add: adj_def)
qed

text \<open>The authentication path.\<close>

definition group :: "u32 \<Rightarrow> nat \<Rightarrow> nat" where
  "group leaf h = unat leaf div 2 ^ (h + 3)"

definition leaf_ok :: "u32 \<Rightarrow> bool" where
  "leaf_ok leaf \<longleftrightarrow> unat leaf < 2 ^ th \<or> 2 ^ (2 * th) \<le> unat leaf"

lemma hit_group:
  assumes "unat ii < 2 ^ 29"
  shows "(push_bit 3 ii XOR drop_bit h leaf) AND NOT 7 = 0 \<longleftrightarrow> group leaf h = unat ii"
proof -
  have "unat (drop_bit 3 (drop_bit h leaf)) = group leaf h" by (simp only: group_def unat_drop_bit power_add div_mult2_eq)
  then show ?thesis unfolding hit_iff [OF assms] by (metis word_eq_unatI)
qed

lemma auth_ok_write:
  assumes "auth_ok N th leaf Q a" "h < th" "hit \<Longrightarrow> v = N h (sibling leaf h)" "hit \<Longrightarrow> length v = 16"
    and "\<And>j. R j \<Longrightarrow> Q j \<or> j = h \<and> hit"
  shows "auth_ok N th leaf R (if hit then put_bytes (h * 16) v a else a)"
  using assms by (auto simp: auth_ok_def get_put_piece [of _ 16 _ th] mult.commute [of _ 16])

definition climb8_ok :: "spx_addr \<Rightarrow> u32 \<Rightarrow> nat \<Rightarrow> climb8_result \<Rightarrow> bool" where
  "climb8_ok addr0 leaf k r = (case r of
     Returned8 root a as \<Rightarrow> Suc k = 2 ^ (th - 3) \<and> root = node addr0 th 0 \<and>
       auth_ok (node addr0) th leaf (\<lambda>h. unat leaf < 2 ^ th) a \<and> addrs8 addr0 as
   | Broke8 h c a as la pa \<Rightarrow> Suc k < 2 ^ (th - 3) \<and> la = 0 \<and> pa = 0 \<and>
       (\<exists>j < th - 3. h = of_nat j \<and> 2 ^ j dvd Suc k \<and> even (k div 2 ^ j) \<and> c = node8 addr0 j (k div 2 ^ j)) \<and>
       auth_ok (node addr0) th leaf (\<lambda>h. h < th - 3 \<and> Suc (group leaf h) * 2 ^ h \<le> Suc k) a \<and> addrs8 addr0 as)"

lemma top_hit:
  assumes "leaf_ok leaf" "h < th" "th - 3 \<le> h"
  shows "(push_bit 3 0 XOR drop_bit h leaf) AND NOT 7 = 0 \<longleftrightarrow> unat leaf < 2 ^ th"
proof -
  have "group leaf h = 0 \<longleftrightarrow> unat leaf < 2 ^ (h + 3)" by (simp add: group_def div_eq_0_iff)
  moreover have "unat leaf < 2 ^ (h + 3)" if "unat leaf < 2 ^ th"
    using that by (rule order.strict_trans2) (use assms(3) in \<open>simp add: power_increasing\<close>)
  moreover have "\<not> unat leaf < 2 ^ (h + 3)" if "\<not> unat leaf < 2 ^ th"
  proof -
    have "(2 :: nat) ^ (h + 3) \<le> 2 ^ (2 * th)" using assms(2) th_range by (intro power_increasing) auto
    with that assms(1) show ?thesis unfolding leaf_ok_def by linarith
  qed
  ultimately show ?thesis using hit_group [of 0 h leaf] by auto
qed

lemma top_auth:
  assumes "leaf_ok leaf" "t < 3" "top_ok addr0 t c"
    and "auth_ok (node addr0) th leaf (\<lambda>h. unat leaf < 2 ^ th \<and> h < th - 3 + t) a"
  defines "h \<equiv> th - 3 + t"
  shows "auth_ok (node addr0) th leaf (\<lambda>h. unat leaf < 2 ^ th \<and> h < th - 3 + Suc t)
    (if (push_bit 3 0 XOR drop_bit h leaf) AND NOT 7 = 0
     then put_bytes (h * 16) (c ! unat (((drop_bit h leaf AND 7) XOR 1) + of_nat (adj t))) a else a)"
proof (rule auth_ok_write [OF assms(4)])
  show h: "h < th" using assms(2) th_range by (simp add: h_def)
  note hit = top_hit [OF assms(1) h]
  assume "(push_bit 3 0 XOR drop_bit h leaf) AND NOT 7 = 0"
  then have l: "unat leaf < 2 ^ th" and "unat leaf div 2 ^ (h + 3) = 0"
    using hit hit_group [of 0 h leaf] by (auto simp: group_def h_def)
  then have s: "sibling leaf h = unat ((drop_bit h leaf AND 7) XOR 1)" by (simp add: sibling_split)
  have lt: "sibling leaf h < 2 ^ (3 - t)"
    using sibling_less [OF l h] assms(2) th_range by (simp add: h_def)
  have "sibling leaf h + adj t < 8"
    using lt power_increasing [of "3 - t" 3 "2 :: nat"] by (simp add: adj_def)
  then have "unat (((drop_bit h leaf AND 7) XOR 1) + of_nat (adj t)) = adj t + sibling leaf h"
    by (simp add: unat_word_ariths s unat_of_nat_small)
  then show "c ! unat (((drop_bit h leaf AND 7) XOR 1) + of_nat (adj t)) = node addr0 h (sibling leaf h)"
    using assms(3) lt by (simp add: top_ok_def h_def)
  then show "length (c ! unat (((drop_bit h leaf AND 7) XOR 1) + of_nat (adj t))) = 16" by (simp add: length_node)
next
  fix j assume "unat leaf < 2 ^ th \<and> j < th - 3 + Suc t"
  then show "unat leaf < 2 ^ th \<and> j < th - 3 + t \<or> j = h \<and> (push_bit 3 0 XOR drop_bit h leaf) AND NOT 7 = 0"
    using top_hit [OF assms(1), of h] assms(2) th_range by (auto simp: h_def)
qed

lemma top_correct:
  assumes "leaf_ok leaf" "Suc k = 2 ^ (th - 3)" "t \<le> 3" "top_ok addr0 t c" "addrs8 addr0 as"
    and "auth_ok (node addr0) th leaf (\<lambda>h. unat leaf < 2 ^ th \<and> h < th - 3 + t) a" "\<And>h. h < th \<Longrightarrow> lens8 (stack ! h)"
  shows "climb8_ok addr0 leaf k (treehashx8_climb ctx0 ctx (of_nat th) (2 ^ (th - 3) - 1) (of_nat k) stack
    (of_nat (th - 3 + t)) 0 (drop_bit (th - 3 + t) leaf) (drop_bit (th - 3 + t) off) (of_nat (adj t)) pa c a as)"
  using assms(3-6)
proof (induction "3 - t" arbitrary: t pa c a as)
  case 0
  then have t: "t = 3" and th: "th - 3 + 3 = th" using th_range by simp_all
  have "c ! 7 = node addr0 th 0" using 0 t th by (simp add: top_ok_def adj_def)
  moreover have "auth_ok (node addr0) th leaf (\<lambda>h. unat leaf < 2 ^ th) a"
    using 0 t th by (auto simp: auth_ok_def)
  moreover have "(of_nat th :: u32) - 3 \<le> of_nat th" using th_words(2) unat_height by (simp add: word_le_nat_alt)
  ultimately show ?case
    unfolding t th using 0 assms(2) by (subst treehashx8_climb.simps) (simp add: climb8_ok_def)
next
  case (Suc n)
  then have t: "t < 3" by simp
  let ?h = "th - 3 + t"
  have h: "?h < th" using t th_range by simp
  have uh: "unat (of_nat ?h :: u32) = ?h" by (rule unat_height) (use h in simp)
  let ?a = "if (push_bit 3 0 XOR drop_bit ?h leaf) AND NOT 7 = 0
     then put_bytes (?h * 16) (c ! unat (((drop_bit ?h leaf AND 7) XOR 1) + of_nat (adj t))) a else a"
  let ?as = "set_node_addrsx8 as (of_nat ?h) 0 (of_nat (adj (Suc t))) (drop_bit (Suc ?h) off)"
  have "climb8_ok addr0 leaf k (treehashx8_climb ctx0 ctx (of_nat th) (2 ^ (th - 3) - 1) (of_nat k) stack
    (of_nat (th - 3 + Suc t)) 0 (drop_bit (th - 3 + Suc t) leaf) (drop_bit (th - 3 + Suc t) off) (of_nat (adj (Suc t)))
    (of_nat (adj t)) (thashx8 ctx0 (pairs8 (stack ! ?h) c) 2 ctx ?as) ?a ?as)"
    using Suc.hyps(2) t top_step [OF Suc.prems(3,2) t assms(7) [OF h]] addrs8_node_addrs [OF Suc.prems(3)]
      top_auth [OF assms(1) t Suc.prems(2,4)]
    by (intro Suc.hyps(1)) simp_all
  moreover have "drop_bit 1 (drop_bit ?h x) = drop_bit (th - 3 + Suc t) x" for x :: u32 by simp
  ultimately show ?case
    using top_words [OF t] th_words(2) max_eq [OF assms(2)] uh
    by (subst treehashx8_climb.simps) (simp add: Let_def add.commute [of 1] split del: if_split cong: if_cong)
qed

lemma low_hit:
  assumes "k < 2 ^ (th - 3)"
  shows "(push_bit 3 (drop_bit h (of_nat k)) XOR drop_bit h leaf) AND NOT 7 = 0 \<longleftrightarrow> group leaf h = k div 2 ^ h"
proof -
  have "unat (drop_bit h (of_nat k :: u32)) = k div 2 ^ h" by (simp add: unat_drop_bit unat_idx [OF assms])
  moreover have "k div 2 ^ h < 2 ^ 29" using idx_bound [OF assms] by (meson div_le_dividend le_less_trans)
  ultimately show ?thesis
    using hit_group [of "drop_bit h (of_nat k)" h leaf] by simp
qed

lemma low_auth:
  assumes "auth_ok (node addr0) th leaf (\<lambda>j. j < th - 3 \<and> (Suc (group leaf j) * 2 ^ j \<le> k \<or> j < h \<and> Suc (group leaf j) * 2 ^ j = Suc k)) a"
    and "h < th - 3" "k < 2 ^ (th - 3)"
  shows "auth_ok (node addr0) th leaf (\<lambda>j. j < th - 3 \<and> (Suc (group leaf j) * 2 ^ j \<le> k \<or> j < Suc h \<and> Suc (group leaf j) * 2 ^ j = Suc k))
    (if (push_bit 3 (drop_bit h (of_nat k)) XOR drop_bit h leaf) AND NOT 7 = 0
     then put_bytes (h * 16) (node8 addr0 h (k div 2 ^ h) ! unat ((drop_bit h leaf AND 7) XOR 1)) a else a)"
proof (rule auth_ok_write [OF assms(1)])
  show "h < th" using assms(2) by simp
  have lt: "unat ((drop_bit h leaf AND 7) XOR 1) < 8" by (simp add: unat_low_xor Let_def) presburger
  assume "(push_bit 3 (drop_bit h (of_nat k)) XOR drop_bit h leaf) AND NOT 7 = 0"
  then have "sibling leaf h = 8 * (k div 2 ^ h) + unat ((drop_bit h leaf AND 7) XOR 1)"
    by (simp only: low_hit [OF assms(3)] sibling_split) (simp add: group_def)
  then show "node8 addr0 h (k div 2 ^ h) ! unat ((drop_bit h leaf AND 7) XOR 1) = node addr0 h (sibling leaf h)"
    using lt by (simp add: nth_node8)
  then show "length (node8 addr0 h (k div 2 ^ h) ! unat ((drop_bit h leaf AND 7) XOR 1)) = 16" by (simp add: length_node)
next
  fix j assume "j < th - 3 \<and> (Suc (group leaf j) * 2 ^ j \<le> k \<or> j < Suc h \<and> Suc (group leaf j) * 2 ^ j = Suc k)"
  then show "j < th - 3 \<and> (Suc (group leaf j) * 2 ^ j \<le> k \<or> j < h \<and> Suc (group leaf j) * 2 ^ j = Suc k) \<or>
      j = h \<and> (push_bit 3 (drop_bit h (of_nat k)) XOR drop_bit h leaf) AND NOT 7 = 0"
    using div_of_Suc_mult [of k "2 ^ h" "Suc (group leaf h)"] unfolding low_hit [OF assms(3)]
    by (auto simp: less_Suc_eq mult.commute)
qed

text \<open>The whole climb after logical leaf \<open>k\<close>.\<close>

lemma climb8_correct:
  assumes "leaf_ok leaf" "k < 2 ^ (th - 3)" "h \<le> th - 3" "2 ^ h dvd Suc k" "addrs8 addr0 as"
    and "auth_ok (node addr0) th leaf (\<lambda>j. j < th - 3 \<and> (Suc (group leaf j) * 2 ^ j \<le> k \<or> j < h \<and> Suc (group leaf j) * 2 ^ j = Suc k)) a"
    and "\<And>h. h < th \<Longrightarrow> lens8 (stack ! h)"
    and "\<And>j. j < th - 3 \<Longrightarrow> odd (k div 2 ^ j) \<Longrightarrow> stack ! j = node8 addr0 j (k div 2 ^ j - 1)"
  shows "climb8_ok addr0 leaf k (treehashx8_climb ctx0 ctx (of_nat th) (2 ^ (th - 3) - 1) (of_nat k) stack
    (of_nat h) (drop_bit h (of_nat k)) (drop_bit h leaf) (drop_bit h off) 0 0 (node8 addr0 h (k div 2 ^ h)) a as)"
  using assms(3-6)
proof (induction "th - 3 - h" arbitrary: h a as)
  case 0
  then have h: "h = th - 3" by simp
  then have k: "Suc k = 2 ^ (th - 3)" using 0 assms(2) by (metis Suc_leI dvd_imp_le le_antisym zero_less_Suc)
  have "k div 2 ^ (th - 3) = 0" using assms(2) by simp
  then have "top_ok addr0 0 (node8 addr0 h (k div 2 ^ h))" by (simp add: h top_ok_def lens8_node8 adj_def nth_node8)
  moreover have "auth_ok (node addr0) th leaf (\<lambda>j. unat leaf < 2 ^ th \<and> j < th - 3 + 0) a"
    using 0(5)
  proof (rule auth_ok_mono)
    fix j assume j: "unat leaf < 2 ^ th \<and> j < th - 3 + 0"
    have e: "th - 3 - j + (j + 3) = th" "th - 3 - j + j = th - 3" using j by linarith+
    then have "group leaf j < 2 ^ (th - 3 - j)"
      unfolding group_def using j by (intro less_mult_imp_div_less) (simp flip: power_add)
    then have "Suc (group leaf j) * 2 ^ j \<le> 2 ^ (th - 3 - j) * 2 ^ j" by (intro mult_le_mono1) simp
    also have "\<dots> = Suc k" using e by (simp add: k flip: power_add)
    finally show "j < th - 3 \<and> (Suc (group leaf j) * 2 ^ j \<le> k \<or> j < h \<and> Suc (group leaf j) * 2 ^ j = Suc k)"
      using j h by auto
  qed
  moreover have "drop_bit (th - 3) (of_nat k :: u32) = 0"
    using \<open>k div 2 ^ (th - 3) = 0\<close> by (intro word_eq_unatI) (simp add: unat_drop_bit unat_idx [OF assms(2)])
  ultimately show ?case
    using top_correct [OF assms(1) k _ _ 0(4) _ assms(7), of 0 "node8 addr0 h (k div 2 ^ h)" a 0] by (simp add: h adj_def)
next
  case (Suc n)
  then have h: "h < th - 3" by simp
  have uh: "unat (of_nat h :: u32) = h" using h by (intro unat_height) simp
  have hw: "(of_nat h :: u32) \<noteq> of_nat th" "\<not> (of_nat th :: u32) - 3 \<le> of_nat h"
  proof -
    show "(of_nat h :: u32) \<noteq> of_nat th" using uh th_words(1) h by (metis diff_le_self leD)
    show "\<not> (of_nat th :: u32) - 3 \<le> of_nat h" unfolding th_words(2) word_le_nat_alt uh using unat_height [of "th - 3"] h by simp
  qed
  have ud: "unat (drop_bit h (of_nat k :: u32)) = k div 2 ^ h" by (simp add: unat_drop_bit unat_idx [OF assms(2)])
  let ?c = "node8 addr0 h (k div 2 ^ h)"
  let ?a = "if (push_bit 3 (drop_bit h (of_nat k)) XOR drop_bit h leaf) AND NOT 7 = 0
     then put_bytes (h * 16) (?c ! unat ((drop_bit h leaf AND 7) XOR 1)) a else a"
  note auth = low_auth [OF Suc.prems(4) h assms(2)]
  show ?case
  proof (cases "even (k div 2 ^ h) \<and> Suc k < 2 ^ (th - 3)")
    case True
    have "auth_ok (node addr0) th leaf (\<lambda>j. j < th - 3 \<and> Suc (group leaf j) * 2 ^ j \<le> Suc k) ?a"
      using auth
    proof (rule auth_ok_mono)
      fix j assume "j < th - 3 \<and> Suc (group leaf j) * 2 ^ j \<le> Suc k"
      moreover have "Suc (group leaf j) * 2 ^ j \<noteq> Suc k" if "h < j"
        using zero_bit_ndvd [of k h j] True that by (metis dvd_triv_right)
      ultimately show "j < th - 3 \<and> (Suc (group leaf j) * 2 ^ j \<le> k \<or> j < Suc h \<and> Suc (group leaf j) * 2 ^ j = Suc k)"
        by (auto simp: le_Suc_eq less_Suc_eq_le intro: leI)
    qed
    then have "climb8_ok addr0 leaf k (Broke8 (of_nat h) ?c ?a as 0 0)"
      using True Suc.prems h by (auto simp: climb8_ok_def intro!: exI [of _ h])
    moreover have "(drop_bit h (of_nat k :: u32)) AND 1 = 0" "(of_nat k :: u32) < 2 ^ (th - 3) - 1"
      using True by (simp_all add: word_and_1_eq_0 ud word_less_nat_alt unat_idx [OF assms(2)] unat_max less_diff_conv)
    ultimately show ?thesis using hw uh by (subst treehashx8_climb.simps) (simp add: Let_def split del: if_split cong: if_cong)
  next
    case False
    have odd: "odd (k div 2 ^ h)"
    proof (rule ccontr)
      assume "\<not> odd (k div 2 ^ h)"
      with False assms(2) zero_bit_ndvd [of k h "th - 3"] h show False by (simp add: not_less le_Suc_eq)
    qed
    define q where "q = k div 2 ^ Suc h"
    have q: "k div 2 ^ h = 2 * q + 1" using odd by (auto elim!: oddE simp: q_def div_mult2_eq mult.commute [of 2])
    let ?as = "set_node_addrsx8 as (of_nat h) (drop_bit h (of_nat k)) 0 (drop_bit (Suc h) off)"
    have step: "thashx8 ctx0 (pairs8 (stack ! h) ?c) 2 ctx ?as = node8 addr0 (Suc h) q"
      using low_step [OF Suc.prems(3), of "drop_bit h (of_nat k)" q h] assms(8) [OF h odd] by (simp add: ud q)
    have "climb8_ok addr0 leaf k (treehashx8_climb ctx0 ctx (of_nat th) (2 ^ (th - 3) - 1) (of_nat k) stack
        (of_nat (Suc h)) (drop_bit (Suc h) (of_nat k)) (drop_bit (Suc h) leaf) (drop_bit (Suc h) off) 0 0 (node8 addr0 (Suc h) q) ?a ?as)"
      using Suc.hyps(2) h ones_step [OF Suc.prems(2) odd] auth addrs8_node_addrs [OF Suc.prems(3)] unfolding q_def
      by (intro Suc.hyps(1)) simp_all
    moreover have "(drop_bit h (of_nat k :: u32)) AND 1 \<noteq> 0" using odd by (simp add: word_and_1_eq_0 ud)
    moreover have "drop_bit 1 (drop_bit h x) = drop_bit (Suc h) x" for x :: u32 by simp
    ultimately show ?thesis
      using hw uh step by (subst treehashx8_climb.simps) (simp add: Let_def add.commute [of 1] split del: if_split cong: if_cong)
  qed
qed

definition stack8_ok :: "spx_addr \<Rightarrow> nat \<Rightarrow> bytes list list \<Rightarrow> bool" where
  "stack8_ok addr0 k stack \<longleftrightarrow> length stack = th \<and> (\<forall>h<th. lens8 (stack ! h)) \<and>
     (\<forall>j<th - 3. odd (k div 2 ^ j) \<longrightarrow> stack ! j = node8 addr0 j (k div 2 ^ j - 1))"

lemma stack8_ok_step:
  assumes "stack8_ok addr0 k stack" "j < th - 3" "2 ^ j dvd Suc k" "even (k div 2 ^ j)"
  shows "stack8_ok addr0 (Suc k) (stack[j := node8 addr0 j (k div 2 ^ j)])"
proof -
  have "stack[j := node8 addr0 j (k div 2 ^ j)] ! h = node8 addr0 h (Suc k div 2 ^ h - 1)"
    if "h < th - 3" "odd (Suc k div 2 ^ h)" for h
    using bits_Suc [OF assms(3,4) that(2)] assms that by (auto simp: stack8_ok_def nth_list_update Suc_div_dvd)
  moreover have "lens8 (stack[j := node8 addr0 j (k div 2 ^ j)] ! h)" if "h < th" for h
    using assms(1,2) that by (simp add: stack8_ok_def nth_list_update lens8_node8)
  ultimately show ?thesis using assms(1) by (simp add: stack8_ok_def)
qed

lemma treehashx8_loop_correct:
  assumes "leaf_ok leaf" "k < 2 ^ (th - 3)" "stack8_ok addr0 k stack"
    and "auth_ok (node addr0) th leaf (\<lambda>h. h < th - 3 \<and> Suc (group leaf h) * 2 ^ h \<le> k) a" "addrs8 addr0 as" "P k info"
  shows "case treehashx8_loop ctx0 ctx leaf off (of_nat th) gen (2 ^ (th - 3) - 1) (of_nat k) stack 0 0 a as info of
      (root, a', as', info') \<Rightarrow> root = node addr0 th 0 \<and> auth_ok (node addr0) th leaf (\<lambda>h. unat leaf < 2 ^ th) a' \<and>
        addrs8 addr0 as' \<and> P (2 ^ (th - 3)) info'"
  using assms(2-)
proof (induction "2 ^ (th - 3) - k" arbitrary: k stack a as info)
  case (Suc n)
  obtain info1 where gen: "gen (8 * of_nat k + off) info = (node8 addr0 0 k, info1)" and P1: "P (Suc k) info1"
    using gen_L [OF Suc.prems(1,5)] gen_P [OF Suc.prems(1,5)] by (simp add: node8_def) (metis prod.collapse)
  let ?r = "treehashx8_climb ctx0 ctx (of_nat th) (2 ^ (th - 3) - 1) (of_nat k) stack 0 (of_nat k) leaf off 0 0 (node8 addr0 0 k) a as"
  have ok: "climb8_ok addr0 leaf k ?r"
    using climb8_correct [OF assms(1) Suc.prems(1), of 0 addr0 as a stack] Suc.prems by (simp add: stack8_ok_def)
  show ?case
  proof (cases ?r)
    case (Returned8 root a' as')
    then show ?thesis
      using ok P1 by (subst treehashx8_loop.simps) (auto simp: gen climb8_ok_def)
  next
    case (Broke8 h c a' as' la pa)
    with ok obtain j where b: "Suc k < 2 ^ (th - 3)" "j < th - 3" "h = of_nat j" "2 ^ j dvd Suc k" "even (k div 2 ^ j)"
      "c = node8 addr0 j (k div 2 ^ j)" "la = 0" "pa = 0" "addrs8 addr0 as'"
      "auth_ok (node addr0) th leaf (\<lambda>h. h < th - 3 \<and> Suc (group leaf h) * 2 ^ h \<le> Suc k) a'"
      by (auto simp: climb8_ok_def)
    have "unat h = j" unfolding b(3) by (rule unat_height) (use b(2) in simp)
    then have st: "stack8_ok addr0 (Suc k) (stack[unat h := c])"
      using stack8_ok_step [OF Suc.prems(2) b(2,4,5)] b(6) by simp
    have suc: "(of_nat (Suc k) :: u32) = of_nat k + 1" by simp
    from Suc.hyps(1) [OF _ b(1) st b(10,9) P1, unfolded suc] Suc.hyps(2) show ?thesis
      by (subst treehashx8_loop.simps) (simp add: gen Broke8 b(7,8))
  qed
qed simp

theorem treehashx8_correct:
  assumes "length a = 16 * th" "addrs8 addr0 as" "P 0 info" "length stack = th" "\<And>h. h < th \<Longrightarrow> lens8 (stack ! h)" "leaf_ok leaf"
  shows "\<exists>a' as' info'. treehashx8 ctx0 stack a ctx leaf off (of_nat th) gen as info = (node addr0 th 0, a', as', info') \<and>
      addrs8 addr0 as' \<and> P (2 ^ (th - 3)) info' \<and> length a' = 16 * th \<and>
      (unat leaf < 2 ^ th \<longrightarrow> a' = auth_path_of crypto_hashblocks_sha256_ref ctx addr0 off L th leaf)"
proof -
  obtain root a' as' info' where r: "treehashx8_loop ctx0 ctx leaf off (of_nat th) gen (2 ^ (th - 3) - 1) 0 stack 0 0 a as info =
      (root, a', as', info')" by (metis prod_cases4)
  have "root = node addr0 th 0 \<and> auth_ok (node addr0) th leaf (\<lambda>h. unat leaf < 2 ^ th) a' \<and> addrs8 addr0 as' \<and> P (2 ^ (th - 3)) info'"
    using treehashx8_loop_correct [of leaf 0 addr0 stack a as info] assms r by (simp add: stack8_ok_def auth_ok_def)
  moreover have "treehashx8 ctx0 stack a ctx leaf off (of_nat th) gen as info = (root, a', as', info')"
    using r unat_height [of "th - 3"] by (simp add: treehashx8_def th_words(2) push_bit_eq_mult)
  moreover have "a' = auth_path_of crypto_hashblocks_sha256_ref ctx addr0 off L th leaf"
    if "auth_ok (node addr0) th leaf (\<lambda>h. True) a'"
  proof -
    have "auth_path_of crypto_hashblocks_sha256_ref ctx addr0 off L th leaf = concat (map (\<lambda>h. get_bytes (16 * h) 16 a') [0..<th])"
      unfolding auth_path_of_def using that by (intro arg_cong [where f = concat] map_cong refl) (simp add: auth_ok_def)
    then show ?thesis using concat_pieces [of a' 16 th] that by (simp add: auth_ok_def)
  qed
  ultimately show ?thesis by (auto simp: auth_ok_def)
qed

end

end
