(* ===== verification/Avx2_Sign.thy ===== *)
theory Avx2_Sign
  imports Avx2_Tree Merkle Fors
begin

text \<open>
  The signer's trees on eight lanes: \<open>fors_gen_leafx8\<close>, \<open>fors_sign_tree_avx2\<close> and the AVX2 branch of \<open>fors_sign\<close>
  (\<open>fors.c\<close>), \<open>wots_gen_leafx8\<close> (\<open>wotsx1.c\<close>) and \<open>merkle_sign_avx2\<close> (\<open>merkle.c\<close>).  The arguments \<open>ctx0\<close> and
  \<open>stk\<close> are the uninitialised hash state and the uninitialised node stack (for each tree height).  The generators are shown
  to run eight scalar generators side by side, which gives the contract \<open>leaf_generator8\<close>; the signatures are then those of
  the scalar path.
\<close>

section \<open>FORS\<close>

definition fors_gen_skx8 :: "sha256ctx \<Rightarrow> spx_ctx \<Rightarrow> spx_addr list \<Rightarrow> bytes list" where
  "fors_gen_skx8 ctx0 ctx fors_leaf_addrx8 = prf_addrx8 ctx0 ctx fors_leaf_addrx8"

definition fors_sk_to_leafx8 :: "sha256ctx \<Rightarrow> bytes list \<Rightarrow> spx_ctx \<Rightarrow> spx_addr list \<Rightarrow> bytes list" where
  "fors_sk_to_leafx8 ctx0 sks ctx fors_leaf_addrx8 = thashx8 ctx0 sks 1 ctx fors_leaf_addrx8"

record fors_gen_leaf_info_x8 =
  leaf_addrx8 :: "spx_addr list"

definition fors_gen_leafx8 :: "sha256ctx \<Rightarrow> spx_ctx \<Rightarrow> u32 \<Rightarrow> fors_gen_leaf_info_x8 \<Rightarrow> bytes list \<times> fors_gen_leaf_info_x8" where
  "fors_gen_leafx8 ctx0 ctx addr_idx info =
     (let fors_leaf_addrx8 = leaf_addrx8 info;
          fors_leaf_addrx8 = map (\<lambda>j. set_type (set_tree_index (fors_leaf_addrx8 ! j) (addr_idx + of_nat j)) SPX_ADDR_TYPE_FORSPRF) [0..<8];
          leaf = fors_gen_skx8 ctx0 ctx fors_leaf_addrx8;
          fors_leaf_addrx8 = map (\<lambda>j. set_type (fors_leaf_addrx8 ! j) SPX_ADDR_TYPE_FORSTREE) [0..<8];
          leaf = fors_sk_to_leafx8 ctx0 leaf ctx fors_leaf_addrx8
      in (leaf, info\<lparr>leaf_addrx8 := fors_leaf_addrx8\<rparr>))"

definition fors_sign_tree_avx2 :: "hashblocks_fn \<Rightarrow> sha256ctx \<Rightarrow> (nat \<Rightarrow> bytes list list) \<Rightarrow> bytes \<Rightarrow> spx_ctx \<Rightarrow> spx_addr \<Rightarrow> u32 \<Rightarrow> u32
    \<Rightarrow> bytes \<times> bytes" where
  "fors_sign_tree_avx2 hb ctx0 stk sig_tree ctx fors_addr leaf_idx tree_num =
     (let idx_offset = tree_num * push_bit SPX_FORS_HEIGHT 1;
          fors_tree_addrx8 = replicate 8 (set_type (copy_keypair_addr zero_addr fors_addr) SPX_ADDR_TYPE_FORSTREE);
          fors_info = \<lparr>leaf_addrx8 = replicate 8 (copy_keypair_addr zero_addr fors_addr)\<rparr>;
          addr = set_tree_height (fors_tree_addrx8 ! 0) 0;
          addr = set_tree_index addr (leaf_idx + idx_offset);
          addr = set_type addr SPX_ADDR_TYPE_FORSPRF;
          sk = fors_gen_sk hb ctx addr;
          fors_tree_addrx8 = fors_tree_addrx8[0 := set_type addr SPX_ADDR_TYPE_FORSTREE];
          (root, auth, fors_tree_addrx8, fors_info) =
            treehashx8 ctx0 (stk SPX_FORS_HEIGHT) (drop SPX_N sig_tree) ctx leaf_idx idx_offset (of_nat SPX_FORS_HEIGHT)
              (fors_gen_leafx8 ctx0 ctx) fors_tree_addrx8 fors_info
      in (sk @ auth, root))"

definition fors_tree_step_avx2 :: "hashblocks_fn \<Rightarrow> sha256ctx \<Rightarrow> (nat \<Rightarrow> bytes list list) \<Rightarrow> spx_ctx \<Rightarrow> spx_addr \<Rightarrow> u32 list
    \<Rightarrow> bytes \<times> bytes \<Rightarrow> nat \<Rightarrow> bytes \<times> bytes" where
  "fors_tree_step_avx2 hb ctx0 stk ctx fors_addr indices = (\<lambda>(sig, roots) i.
     let (sig_tree, root_out) =
           fors_sign_tree_avx2 hb ctx0 stk (get_bytes (i * SPX_FORS_TREE_SIG_BYTES) SPX_FORS_TREE_SIG_BYTES sig)
             ctx fors_addr (indices ! i) (of_nat i)
     in (put_bytes (i * SPX_FORS_TREE_SIG_BYTES) sig_tree sig, put_bytes (i * SPX_N) root_out roots))"

text \<open>\<open>fors_sign\<close> when \<open>spx_has_avx2 ()\<close> holds.\<close>

definition fors_sign_avx2 :: "hashblocks_fn \<Rightarrow> sha256ctx \<Rightarrow> (nat \<Rightarrow> bytes list list) \<Rightarrow> bytes \<Rightarrow> bytes \<Rightarrow> spx_ctx \<Rightarrow> spx_addr
    \<Rightarrow> bytes \<times> bytes" where
  "fors_sign_avx2 hb ctx0 stk sig m ctx fors_addr =
     (let roots = replicate (SPX_FORS_SIG_TREES * SPX_N) 0;
          fors_pk_addr = set_type (copy_keypair_addr zero_addr fors_addr) SPX_ADDR_TYPE_FORSPK;
          indices = message_to_indices m;
          (sig, roots) = foldl (fors_tree_step_avx2 hb ctx0 stk ctx fors_addr indices) (sig, roots) [0..<SPX_FORS_SIG_TREES]
      in (sig, thash hb roots SPX_FORS_SIG_TREES ctx fors_pk_addr))"

section \<open>WOTS+C leaves\<close>

record leaf_info_x8 =
  x8_wots_sig :: "bytes option"
  x8_wots_sign_leaf :: u32
  x8_wots_steps :: "u32 list option"
  x8_leaf_addr :: "spx_addr list"
  x8_pk_addr :: "spx_addr list"

text \<open>Chain \<open>i\<close> of the eight leaves; the value of lane \<open>sidx\<close> at position \<open>wots_k\<close> goes into the signature.\<close>

function wots_leaf_chainx8 :: "sha256ctx \<Rightarrow> spx_ctx \<Rightarrow> bool \<Rightarrow> u32 \<Rightarrow> nat \<Rightarrow> nat \<Rightarrow> u32 \<Rightarrow> bytes list \<Rightarrow> bytes option
    \<Rightarrow> spx_addr list \<Rightarrow> bytes list \<times> bytes option \<times> spx_addr list" where
  "wots_leaf_chainx8 ctx0 ctx do_sign wots_k sidx i k buffer sig addrs =
     (let sig = (if do_sign \<and> k = wots_k then map_option (put_bytes (i * SPX_N) (buffer ! sidx)) sig else sig)
      in if k = of_nat SPX_WOTS_W - 1 then (buffer, sig, addrs)
         else (let addrs = map (\<lambda>a. set_hash_addr a k) addrs
               in wots_leaf_chainx8 ctx0 ctx do_sign wots_k sidx i (k + 1) (thashx8 ctx0 buffer 1 ctx addrs) sig addrs))"
  by pat_completeness auto
termination
  by (relation "measure (\<lambda>(ctx0, ctx, do_sign, wots_k, sidx, i, k, r). unat ((of_nat SPX_WOTS_W - 1) - k))")
    (auto intro: word_count_to [of _ "255::u32", simplified])

declare wots_leaf_chainx8.simps [simp del]

definition wots_leaf_stepx8 :: "sha256ctx \<Rightarrow> spx_ctx \<Rightarrow> bool \<Rightarrow> u32 list option \<Rightarrow> nat
    \<Rightarrow> bytes list \<times> bytes option \<times> spx_addr list \<Rightarrow> nat \<Rightarrow> bytes list \<times> bytes option \<times> spx_addr list" where
  "wots_leaf_stepx8 ctx0 ctx do_sign steps sidx = (\<lambda>(pk_buffers, sig, addrs) i.
     let wots_k = (if do_sign then the steps ! i else SPX_NO_SIGN_LEAF);
         addrs = map (\<lambda>a. set_type (set_hash_addr (set_chain_addr a (of_nat i)) 0) SPX_ADDR_TYPE_WOTSPRF) addrs;
         buffer = prf_addrx8 ctx0 ctx addrs;
         addrs = map (\<lambda>a. set_type a SPX_ADDR_TYPE_WOTS) addrs;
         (buffer, sig, addrs) = wots_leaf_chainx8 ctx0 ctx do_sign wots_k sidx i 0 buffer sig addrs
     in (map2 (@) pk_buffers buffer, sig, addrs))"

definition wots_gen_leafx8 :: "sha256ctx \<Rightarrow> spx_ctx \<Rightarrow> u32 \<Rightarrow> leaf_info_x8 \<Rightarrow> bytes list \<times> leaf_info_x8" where
  "wots_gen_leafx8 ctx0 ctx leaf_idx info =
     (let do_sign = (x8_wots_steps info \<noteq> None \<and> x8_wots_sig info \<noteq> None \<and>
            x8_wots_sign_leaf info \<noteq> SPX_NO_SIGN_LEAF \<and> (leaf_idx XOR x8_wots_sign_leaf info) AND NOT 7 = 0);
          wots_sign_index = (if do_sign then x8_wots_sign_leaf info AND 7 else 0);
          la = map (\<lambda>j. set_keypair_addr (x8_leaf_addr info ! j) (leaf_idx + of_nat j)) [0..<8];
          pa = map (\<lambda>j. set_keypair_addr (x8_pk_addr info ! j) (leaf_idx + of_nat j)) [0..<8];
          (pk_buffers, sig, la) =
            foldl (wots_leaf_stepx8 ctx0 ctx do_sign (x8_wots_steps info) (unat wots_sign_index))
              (replicate 8 [], x8_wots_sig info, la) [0..<SPX_WOTS_LEN]
      in (thashx8 ctx0 pk_buffers SPX_WOTS_LEN ctx pa,
          info\<lparr>x8_wots_sig := sig, x8_leaf_addr := la, x8_pk_addr := pa\<rparr>))"

section \<open>Merkle signatures\<close>

text \<open>The caller's \<open>tree_addr\<close> is only read.\<close>

definition merkle_sign_avx2 :: "build_config \<Rightarrow> hashblocks_fn \<Rightarrow> sha256ctx \<Rightarrow> (nat \<Rightarrow> bytes list list) \<Rightarrow> bytes \<Rightarrow> bytes \<Rightarrow> spx_ctx
    \<Rightarrow> spx_addr \<Rightarrow> spx_addr \<Rightarrow> u32 \<Rightarrow> stats_ptr \<Rightarrow> int \<times> bytes \<times> bytes \<times> spx_addr \<times> stats_ptr" where
  "merkle_sign_avx2 cfg hb ctx0 stk sig root ctx wots_addr tree_addr idx_leaf g =
     (let auth_path = drop SPX_WOTS_BYTES sig;
          run = (\<lambda>wsig steps g.
            let tree_addrx8 = replicate 8 (copy_subtree_addr (set_type zero_addr SPX_ADDR_TYPE_HASHTREE) tree_addr);
                info = \<lparr>x8_wots_sig = wsig, x8_wots_sign_leaf = idx_leaf, x8_wots_steps = steps,
                  x8_leaf_addr = replicate 8 (copy_subtree_addr (set_type zero_addr SPX_ADDR_TYPE_WOTS) wots_addr),
                  x8_pk_addr = replicate 8 (copy_subtree_addr (set_type zero_addr SPX_ADDR_TYPE_WOTSPK) wots_addr)\<rparr>;
                (root, auth_path, tree_addrx8, info) =
                  treehashx8 ctx0 (stk SPX_TREE_HEIGHT) auth_path ctx idx_leaf 0 (of_nat SPX_TREE_HEIGHT)
                    (wots_gen_leafx8 ctx0 ctx) tree_addrx8 info;
                wsig = (case x8_wots_sig info of None \<Rightarrow> take SPX_WOTS_BYTES sig | Some s \<Rightarrow> s)
            in (0, wsig @ auth_path, root, tree_addr, g))
      in if idx_leaf \<noteq> SPX_NO_SIGN_LEAF
         then (case chain_lengths cfg hb root g of
                 (Inl chain_result, g) \<Rightarrow> (chain_result, sig, root, tree_addr, g)
               | (Inr steps, g) \<Rightarrow> run (Some (take SPX_WOTS_BYTES sig)) (Some steps) g)
         else run None None g)"

section \<open>FORS on eight lanes is FORS\<close>

locale avx2_calls = eight_lanes ctx ctx0 for ctx :: spx_ctx and ctx0 :: sha256ctx +
  fixes stk :: "nat \<Rightarrow> bytes list list"
  assumes stk: "length (stk th) = th" "h < th \<Longrightarrow> lens8 (stk th ! h)"

definition fors_info8_inv :: "spx_addr \<Rightarrow> nat \<Rightarrow> fors_gen_leaf_info_x8 \<Rightarrow> bool" where
  "fors_info8_inv fors_addr k info \<longleftrightarrow>
     (\<forall>j<8. agree_except ({9} \<union> {18..<22}) (leaf_addrx8 info ! j) (fors_base fors_addr))"

context eight_lanes
begin

lemma fors_gen_leafx8_run:
  assumes "fors_info8_inv fors_addr k info"
  shows "fst (fors_gen_leafx8 ctx0 ctx x info) = map (\<lambda>j. fors_leaf crypto_hashblocks_sha256_ref ctx fors_addr (x + of_nat j)) [0..<8]"
    and "fors_info8_inv fors_addr k' (snd (fors_gen_leafx8 ctx0 ctx x info))"
proof -
  have "agree_except ({9} \<union> {18..<22}) (leaf_addrx8 info ! j) (fors_base fors_addr)" if "j < 8" for j
    using assms that by (simp add: fors_info8_inv_def)
  note u = fors_addr_unique [OF this]
  have a: "set_type (set_tree_index (leaf_addrx8 info ! j) i) y = set_type (set_tree_index (fors_base fors_addr) i) y"
    "agree_except ({9} \<union> {18..<22}) (set_type (set_tree_index (leaf_addrx8 info ! j) i) y) (fors_base fors_addr)" if "j < 8" for j i y
    using that by (rule u)+
  have va: "valid_addr (set_type (set_tree_index (fors_base fors_addr) i) y)" for i y
    using a [of 0 i y] by (simp add: agree_except_def)
  have m: "map (\<lambda>j. set_type (set_tree_index (leaf_addrx8 info ! j) (x + of_nat j)) y) [0..<8] =
      map (\<lambda>j. set_type (set_tree_index (fors_base fors_addr) (x + of_nat j)) y) [0..<8]" for y
    by (intro map_cong refl a(1)) simp
  have m2: "map (\<lambda>j. set_type (map (\<lambda>j. set_type (set_tree_index (leaf_addrx8 info ! j) (x + of_nat j)) y) [0..<8] ! j) z) [0..<8] =
      map (\<lambda>j. set_type (set_tree_index (leaf_addrx8 info ! j) (x + of_nat j)) z) [0..<8]" for y z
    by (intro map_cong refl) (simp add: set_type_twice del: upt_Suc)
  show "fst (fors_gen_leafx8 ctx0 ctx x info) = map (\<lambda>j. fors_leaf crypto_hashblocks_sha256_ref ctx fors_addr (x + of_nat j)) [0..<8]"
    unfolding fors_gen_leafx8_def Let_def fst_conv m2 m fors_gen_skx8_def fors_sk_to_leafx8_def
    by (subst prf_addrx8_lanes thashx8_lanes, simp_all add: va set_type_twice fors_leaf_def fors_sk_def del: upt_Suc)+
  show "fors_info8_inv fors_addr k' (snd (fors_gen_leafx8 ctx0 ctx x info))"
    unfolding fors_gen_leafx8_def Let_def snd_conv m2 using a(2) by (simp add: fors_info8_inv_def del: upt_Suc)
qed

end

locale fors_tree8 = avx2_calls ctx ctx0 stk for ctx :: spx_ctx and ctx0 :: sha256ctx and stk :: "nat \<Rightarrow> bytes list list" +
  fixes fors_addr :: spx_addr and t :: nat
  assumes fors_addr: "valid_addr fors_addr"

sublocale fors_tree8 \<subseteq> tree8: leaf_generator8 ctx ctx0 "fors_gen_leafx8 ctx0 ctx"
    "\<lambda>i. fors_leaf crypto_hashblocks_sha256_ref ctx fors_addr (of_nat i + fors_off t)" "fors_info8_inv fors_addr" "fors_off t" 16
  by unfold_locales (simp_all add: fors_gen_leafx8_run fors_leaf_def add_ac del: upt_Suc)

context fors_tree8
begin

lemma fors_sign_tree_avx2_run:
  assumes "length sig_tree = 272" "unat idx < 2 ^ 16"
  shows "fors_sign_tree_avx2 crypto_hashblocks_sha256_ref ctx0 stk sig_tree ctx fors_addr idx (of_nat t) =
    (fors_tree_sig crypto_hashblocks_sha256_ref ctx fors_addr t idx, fors_root crypto_hashblocks_sha256_ref ctx fors_addr t)"
proof -
  let ?B = "set_type (fors_base fors_addr) SPX_ADDR_TYPE_FORSTREE"
  let ?x = "idx + fors_off t"
  let ?a = "set_type (set_type (set_tree_index (set_tree_height ?B 0) ?x) SPX_ADDR_TYPE_FORSPRF) SPX_ADDR_TYPE_FORSTREE"
  have b: "valid_addr (fors_base fors_addr)" "fors_base fors_addr ! 17 = 0"
    using fors_addr by (simp_all add: fors_base_def addr_len addr_nth zero_addr_def)
  have off: "of_nat t * push_bit 16 1 = fors_off t" by (simp add: fors_off_def)
  have "agree_except node_fields ?a ?B" using b by (auto simp: agree_except_def addr_nth addr_len)
  then have as: "addrs8 ?B ((replicate 8 ?B)[0 := ?a])"
    using b by (auto simp: addrs8_def nth_list_update agree_except_refl addr_len)
  have inv: "fors_info8_inv fors_addr 0 \<lparr>leaf_addrx8 = replicate 8 (fors_base fors_addr)\<rparr>"
    using b by (simp add: fors_info8_inv_def agree_except_refl)
  have ok: "tree8.leaf_ok idx" using assms(2) by (simp add: tree8.leaf_ok_def)
  from tree8.treehashx8_correct [OF _ as inv, of "drop 16 sig_tree" "stk 16" idx] assms stk ok
  obtain as' info' where r: "treehashx8 ctx0 (stk 16) (drop 16 sig_tree) ctx idx (fors_off t) 16 (fors_gen_leafx8 ctx0 ctx)
      ((replicate 8 ?B)[0 := ?a]) \<lparr>leaf_addrx8 = replicate 8 (fors_base fors_addr)\<rparr> =
      (fors_root crypto_hashblocks_sha256_ref ctx fors_addr t,
       auth_path_of crypto_hashblocks_sha256_ref ctx ?B (fors_off t)
         (\<lambda>i. fors_leaf crypto_hashblocks_sha256_ref ctx fors_addr (of_nat i + fors_off t)) 16 idx, as', info')"
    by (auto simp: fors_root_def)
  have sk: "set_type (set_tree_index (set_tree_height ?B 0) ?x) SPX_ADDR_TYPE_FORSPRF =
      set_type (set_tree_index (fors_base fors_addr) ?x) SPX_ADDR_TYPE_FORSPRF"
    using b by (auto intro!: addr_eqI simp: addr_nth addr_len)
  have c: "of_nat 16 = (16 :: u32)" "SPX_FORS_HEIGHT = 16" "SPX_N = 16" "replicate 8 ?B ! 0 = ?B" by simp_all
  show ?thesis
    unfolding fors_sign_tree_avx2_def Let_def off fors_base_def [symmetric] c r prod.case
    by (simp only: sk fors_gen_sk_def fors_sk_def fors_tree_sig_def)
qed

end

context avx2_calls
begin

lemma fors_fold_avx2:
  assumes "valid_addr fors_addr" "\<And>t. t < 7 \<Longrightarrow> unat (indices ! t) < 2 ^ 16"
    and "fors_written crypto_hashblocks_sha256_ref ctx fors_addr indices D st" "set ts \<subseteq> {0..<7}"
  shows "foldl (fors_tree_step_avx2 crypto_hashblocks_sha256_ref ctx0 stk ctx fors_addr indices) st ts =
    foldl (fors_tree_step crypto_hashblocks_sha256_ref ctx fors_addr indices) st ts"
  using assms(3,4)
proof (induction ts arbitrary: D st)
  case (Cons t ts)
  obtain sig roots where st: "st = (sig, roots)" by (cases st)
  have t: "t < 7" using Cons.prems(2) by simp
  have l: "length (get_bytes (t * 272) 272 sig) = 272" using Cons.prems(1) t by (simp add: fors_written_def st)
  have "fors_tree8 ctx ctx0 stk fors_addr" using assms(1) by unfold_locales
  then have "fors_tree_step_avx2 crypto_hashblocks_sha256_ref ctx0 stk ctx fors_addr indices st t =
      fors_tree_step crypto_hashblocks_sha256_ref ctx fors_addr indices st t"
    using fors_tree8.fors_sign_tree_avx2_run [OF _ l assms(2) [OF t]]
      fors_tree.fors_sign_tree_run [OF fors_treeI [OF assms(1)] l assms(2) [OF t]]
    by (simp add: st fors_tree_step_avx2_def fors_tree_step_def)
  then show ?case
    using Cons.IH [OF fors_tree_step_written [OF assms(1) Cons.prems(1) t assms(2) [OF t]]] Cons.prems(2) by simp
qed simp

theorem fors_sign_avx2_eq:
  assumes "valid_addr fors_addr" "joins_all rt" "length sig = 1904"
  shows "fors_sign_avx2 crypto_hashblocks_sha256_ref ctx0 stk sig m ctx fors_addr =
    fors_sign crypto_hashblocks_sha256_ref rt sig m ctx fors_addr"
proof -
  define rt1 where "rt1 = rt\<lparr>ft_knobs := False\<rparr>"
  have "fors_written crypto_hashblocks_sha256_ref ctx fors_addr (message_to_indices m) {} (sig, replicate 112 0)"
    using assms(3) by (simp add: fors_written_def)
  from fors_fold_avx2 [OF assms(1) message_to_indices_less this, of "[0..<7]"]
  have "fors_sign_avx2 crypto_hashblocks_sha256_ref ctx0 stk sig m ctx fors_addr =
      fors_sign crypto_hashblocks_sha256_ref rt1 sig m ctx fors_addr"
    by (simp add: fors_sign_avx2_def fors_sign_def rt1_def fors_sign_worker_count_def Let_def del: upt_Suc upt_rec_numeral)
  moreover have "joins_all rt1" using assms(2) by (simp add: rt1_def joins_all_def)
  ultimately show ?thesis using fors_sign_correct [OF assms(1) _ assms(3)] assms(2) by simp
qed

end

section \<open>Eight WOTS+C leaves are eight leaves\<close>

text \<open>What a chain computes does not depend on the signature it writes.\<close>

lemma wots_leaf_chain_indep:
  "fst (wots_leaf_chain hb ctx ds wk i k b sig a) = fst (wots_leaf_chain hb ctx ds' wk' i' k b sig' a) \<and>
   snd (snd (wots_leaf_chain hb ctx ds wk i k b sig a)) = snd (snd (wots_leaf_chain hb ctx ds' wk' i' k b sig' a))"
proof (induction hb ctx ds wk i k b sig a arbitrary: sig' rule: wots_leaf_chain.induct)
  case (1 hb ctx ds wk i k b sig a)
  show ?case
  proof (cases "k = of_nat SPX_WOTS_W - 1")
    case True
    then show ?thesis by (simp add: wots_leaf_chain.simps Let_def)
  next
    case False
    show ?thesis
      using 1 [OF refl False refl] False by (subst (1 2 3 4) wots_leaf_chain.simps) (simp add: Let_def)
  qed
qed

abbreviation "ref_chain \<equiv> wots_leaf_chain crypto_hashblocks_sha256_ref"
abbreviation "ref_step \<equiv> wots_leaf_step crypto_hashblocks_sha256_ref"

context eight_lanes
begin

lemma wots_leaf_chainx8_lanes:
  assumes "\<And>j. j < 8 \<Longrightarrow> length (b j) = 16" "\<And>j. j < 8 \<Longrightarrow> valid_addr (a j)" "sidx < 8"
  shows "wots_leaf_chainx8 ctx0 ctx ds wk sidx i k (map b [0..<8]) sig (map a [0..<8]) =
    (map (\<lambda>j. fst (ref_chain ctx (D j) (w j) i k (b j) (s j) (a j))) [0..<8],
     fst (snd (ref_chain ctx ds wk i k (b sidx) sig (a sidx))),
     map (\<lambda>j. snd (snd (ref_chain ctx (D j) (w j) i k (b j) (s j) (a j)))) [0..<8])"
proof -
  have "wots_leaf_chainx8 ctx0 ctx ds wk sidx i k (map b [0..<8]) sig (map a [0..<8]) =
    (map (\<lambda>j. fst (ref_chain ctx False 0 0 k (b j) None (a j))) [0..<8],
     fst (snd (ref_chain ctx ds wk i k (b sidx) sig (a sidx))),
     map (\<lambda>j. snd (snd (ref_chain ctx False 0 0 k (b j) None (a j)))) [0..<8])"
    using assms(1,2)
  proof (induction "unat ((of_nat SPX_WOTS_W - 1) - k)" arbitrary: k b sig a rule: less_induct)
    case less
    show ?case
    proof (cases "k = of_nat SPX_WOTS_W - 1")
      case True
      then show ?thesis
        using assms(3) by (subst wots_leaf_chainx8.simps) (simp add: wots_leaf_chain.simps [of _ _ _ _ _ 255] Let_def del: upt_Suc)
    next
      case False
      let ?a = "\<lambda>j. set_hash_addr (a j) k" and ?b = "\<lambda>j. thash crypto_hashblocks_sha256_ref (b j) 1 ctx (set_hash_addr (a j) k)"
      let ?sig = "if ds \<and> k = wk then map_option (put_bytes (i * SPX_N) (b sidx)) sig else sig"
      have va: "valid_addr (?a j)" if "j < 8" for j using less.prems(2) that by (simp add: addr_len)
      have "thashx8 ctx0 (map b [0..<8]) 1 ctx (map ?a [0..<8]) = map ?b [0..<8]"
        using va less.prems(1) by (subst thashx8_lanes) (simp_all del: upt_Suc)
      then have "wots_leaf_chainx8 ctx0 ctx ds wk sidx i k (map b [0..<8]) sig (map a [0..<8]) =
          wots_leaf_chainx8 ctx0 ctx ds wk sidx i (k + 1) (map ?b [0..<8]) ?sig (map ?a [0..<8])"
        using False assms(3) by (subst wots_leaf_chainx8.simps) (simp add: Let_def comp_def del: upt_Suc)
      also have "\<dots> = (map (\<lambda>j. fst (ref_chain ctx False 0 0 (k + 1) (?b j) None (?a j))) [0..<8],
          fst (snd (ref_chain ctx ds wk i (k + 1) (?b sidx) ?sig (?a sidx))),
          map (\<lambda>j. snd (snd (ref_chain ctx False 0 0 (k + 1) (?b j) None (?a j)))) [0..<8])"
        using va False by (intro less.hyps word_count_to) (auto simp: seeded)
      finally show ?thesis
        using False by (subst wots_leaf_chain.simps [of _ _ _ _ _ k], subst wots_leaf_chain.simps [of _ _ _ _ _ k],
          subst wots_leaf_chain.simps [of _ _ _ _ _ k]) (simp add: Let_def del: upt_Suc)
    qed
  qed
  moreover have "fst (ref_chain ctx False 0 0 k (b j) None (a j)) = fst (ref_chain ctx (D j) (w j) i k (b j) (s j) (a j))"
    "snd (snd (ref_chain ctx False 0 0 k (b j) None (a j))) = snd (snd (ref_chain ctx (D j) (w j) i k (b j) (s j) (a j)))" for j
    using wots_leaf_chain_indep by (rule conjunct1, rule conjunct2)
  ultimately show ?thesis by simp
qed

lemma ref_chain_ok:
  assumes "length b = 16" "valid_addr a"
  shows "length (fst (ref_chain ctx ds wk i 0 b sig a)) = 16" "valid_addr (snd (snd (ref_chain ctx ds wk i 0 b sig a)))"
proof -
  obtain a' where "ref_chain ctx False 0 0 0 b None a = (chain_iter crypto_hashblocks_sha256_ref ctx a 0 255 b, None, a')"
    "agree_except hash_field a' a"
    using wots_leaf_chain_run [of 0 a a crypto_hashblocks_sha256_ref ctx False 0 0 b None] assms(2) by (auto simp: agree_except_refl)
  then show "length (fst (ref_chain ctx ds wk i 0 b sig a)) = 16" "valid_addr (snd (snd (ref_chain ctx ds wk i 0 b sig a)))"
    using wots_leaf_chain_indep [of crypto_hashblocks_sha256_ref ctx ds wk i 0 b sig a False 0 0 None] assms(1)
    by (simp_all add: length_chain_iter agree_except_def)
qed

definition lane_start :: "nat \<Rightarrow> spx_addr \<Rightarrow> spx_addr" where
  "lane_start i a = set_type (set_hash_addr (set_chain_addr a (of_nat i)) 0) SPX_ADDR_TYPE_WOTSPRF"

lemma wots_leaf_stepx8_lanes:
  fixes ds :: bool and steps :: "u32 list option" and p :: "nat \<Rightarrow> bytes" and i :: nat
  assumes "\<And>j. j < 8 \<Longrightarrow> valid_addr (a j)" "sidx < 8" "s sidx = sig"
  defines "S \<equiv> \<lambda>j. ref_step ctx (ds \<and> j = sidx) steps (p j, s j, a j) i"
  shows "wots_leaf_stepx8 ctx0 ctx ds steps sidx (map p [0..<8], sig, map a [0..<8]) i =
      (map (\<lambda>j. fst (S j)) [0..<8], fst (snd (S sidx)), map (\<lambda>j. snd (snd (S j))) [0..<8])"
    and "j < 8 \<Longrightarrow> valid_addr (snd (snd (S j))) \<and> length (fst (S j)) = length (p j) + 16"
proof -
  let ?b = "\<lambda>j. prf_addr crypto_hashblocks_sha256_ref ctx (lane_start i (a j))"
  let ?a = "\<lambda>j. set_type (lane_start i (a j)) SPX_ADDR_TYPE_WOTS"
  let ?w = "\<lambda>d. if d then the steps ! i else SPX_NO_SIGN_LEAF"
  have va: "valid_addr (lane_start i (a j))" "valid_addr (?a j)" if "j < 8" for j
    using assms(1) that by (simp_all add: lane_start_def addr_len)
  have S: "S j = (case ref_chain ctx (ds \<and> j = sidx) (?w (ds \<and> j = sidx)) i 0 (?b j) (s j) (?a j) of
      (b, sig, a) \<Rightarrow> (p j @ b, sig, a))" for j
    unfolding S_def by (simp only: wots_leaf_step_def prod.case Let_def lane_start_def)
  have b: "prf_addrx8 ctx0 ctx (map (\<lambda>j. lane_start i (a j)) [0..<8]) = map ?b [0..<8]"
    using va by (subst prf_addrx8_lanes) (simp_all del: upt_Suc)
  have c: "wots_leaf_chainx8 ctx0 ctx ds (?w ds) sidx i 0 (map ?b [0..<8]) sig (map ?a [0..<8]) =
    (map (\<lambda>j. fst (ref_chain ctx (ds \<and> j = sidx) (?w (ds \<and> j = sidx)) i 0 (?b j) (s j) (?a j))) [0..<8],
     fst (snd (ref_chain ctx ds (?w ds) i 0 (?b sidx) sig (?a sidx))),
     map (\<lambda>j. snd (snd (ref_chain ctx (ds \<and> j = sidx) (?w (ds \<and> j = sidx)) i 0 (?b j) (s j) (?a j)))) [0..<8])"
    using va assms(2) by (intro wots_leaf_chainx8_lanes) (simp_all add: seeded)
  have zip: "map2 (@) (map p [0..<8]) (map q [0..<8]) = map (\<lambda>j. p j @ q j) [0..<8]" for q
    by (simp add: map2_map_map)
  show "wots_leaf_stepx8 ctx0 ctx ds steps sidx (map p [0..<8], sig, map a [0..<8]) i =
      (map (\<lambda>j. fst (S j)) [0..<8], fst (snd (S sidx)), map (\<lambda>j. snd (snd (S j))) [0..<8])"
    unfolding wots_leaf_stepx8_def prod.case Let_def map_map comp_def lane_start_def [symmetric] b c S zip
    using assms(3) by (simp add: case_prod_beta del: upt_Suc)
  show "valid_addr (snd (snd (S j))) \<and> length (fst (S j)) = length (p j) + 16" if "j < 8"
    using ref_chain_ok [OF _ va(2) [OF that], of "?b j"] by (simp add: S case_prod_beta seeded)
qed

lemma wots_leaf_foldx8_lanes:
  fixes ds :: bool and steps :: "u32 list option" and sig :: "bytes option"
  assumes "\<And>j. j < 8 \<Longrightarrow> valid_addr (a j)" "sidx < 8"
  defines "F \<equiv> \<lambda>n j. foldl (ref_step ctx (ds \<and> j = sidx) steps) ([], sig, a j) [0..<n]"
  shows "foldl (wots_leaf_stepx8 ctx0 ctx ds steps sidx) (replicate 8 [], sig, map a [0..<8]) [0..<n] =
      (map (\<lambda>j. fst (F n j)) [0..<8], fst (snd (F n sidx)), map (\<lambda>j. snd (snd (F n j))) [0..<8])
    \<and> (\<forall>j<8. valid_addr (snd (snd (F n j))) \<and> length (fst (F n j)) = 16 * n)"
proof (induction n)
  case 0
  have "replicate 8 [] = map (\<lambda>j. [] :: bytes) [0..<8]" by (simp add: map_replicate_const)
  then show ?case using assms(1) by (simp add: F_def del: upt_Suc)
next
  case (Suc n)
  have v: "valid_addr (snd (snd (F n j)))" if "j < 8" for j using Suc that by simp
  have F: "F (Suc n) j = ref_step ctx (ds \<and> j = sidx) steps (fst (F n j), fst (snd (F n j)), snd (snd (F n j))) n" for j
    by (simp add: F_def)
  have u: "[0..<Suc n] = [0..<n] @ [n]" by simp
  show ?case
    using Suc wots_leaf_stepx8_lanes [where a = "\<lambda>j. snd (snd (F n j))" and s = "\<lambda>j. fst (snd (F n j))" and p = "\<lambda>j. fst (F n j)"
      and ds = ds and steps = steps and i = n, OF v assms(2) refl] by (simp add: F u del: upt_Suc)
qed

text \<open>The scalar info structure of lane \<open>j\<close>.\<close>

definition lane_info :: "leaf_info_x8 \<Rightarrow> nat \<Rightarrow> leaf_info_x1" where
  "lane_info info j = \<lparr>wots_sig = x8_wots_sig info, wots_sign_leaf = x8_wots_sign_leaf info, wots_steps = x8_wots_steps info,
     leaf_addr = x8_leaf_addr info ! j, pk_addr = x8_pk_addr info ! j\<rparr>"

lemma sign_lane:
  assumes "k < 2 ^ 29" "j < 8"
  shows "(8 * of_nat k XOR sl) AND NOT 7 = 0 \<and> j = unat (sl AND 7) \<longleftrightarrow> 8 * of_nat k + of_nat j = (sl :: u32)"
proof -
  have k: "unat (of_nat k :: u32) = k" using assms(1) by (intro unat_of_nat_small) simp
  have "(of_nat (8 * k + j) :: u32) = 8 * of_nat k + of_nat j" by simp
  moreover have "unat (of_nat (8 * k + j) :: u32) = 8 * k + j" using assms by (intro unat_of_nat_small) simp
  ultimately have kj: "8 * of_nat k + of_nat j = sl \<longleftrightarrow> 8 * k + j = unat sl" by (metis word_eq_unatI)
  have "8 * of_nat k = push_bit 3 (of_nat k :: u32)" by (simp add: push_bit_eq_mult)
  then have "(8 * of_nat k XOR sl) AND NOT 7 = 0 \<longleftrightarrow> drop_bit 3 sl = of_nat k"
    using hit_iff [of "of_nat k" sl] assms(1) k by (simp only:)
  also have "\<dots> \<longleftrightarrow> unat sl div 8 = k"
  proof -
    have "unat (drop_bit 3 sl) = unat sl div 8" by (simp add: unat_drop_bit)
    then show ?thesis using k by (metis word_eq_unatI)
  qed
  finally have "(8 * of_nat k XOR sl) AND NOT 7 = 0 \<longleftrightarrow> unat sl div 8 = k" .
  moreover have "unat sl div 8 = k \<and> j = unat sl mod 8 \<longleftrightarrow> 8 * k + j = unat sl"
  proof
    assume "8 * k + j = unat sl"
    then show "unat sl div 8 = k \<and> j = unat sl mod 8" using assms(2) by (simp flip: \<open>8 * k + j = unat sl\<close>)
  next
    assume "unat sl div 8 = k \<and> j = unat sl mod 8"
    then show "8 * k + j = unat sl" using mult_div_mod_eq [of 8 "unat sl"] by simp
  qed
  ultimately show ?thesis unfolding kj unat_and_7 by (simp only:)
qed

lemma wots_gen_leafx8_lanes:
  assumes "k < 2 ^ (29 :: nat)" "\<And>j. j < 8 \<Longrightarrow> valid_addr (x8_leaf_addr info ! j)" "\<And>j. j < 8 \<Longrightarrow> valid_addr (x8_pk_addr info ! j)"
  defines "R \<equiv> \<lambda>j. wots_gen_leafx1 crypto_hashblocks_sha256_ref ctx (8 * of_nat k + of_nat j) (lane_info info j)"
  shows "\<exists>sidx<8. wots_gen_leafx8 ctx0 ctx (8 * of_nat k) info = (map (\<lambda>j. fst (R j)) [0..<8],
      info\<lparr>x8_wots_sig := wots_sig (snd (R sidx)), x8_leaf_addr := map (\<lambda>j. leaf_addr (snd (R j))) [0..<8],
        x8_pk_addr := map (\<lambda>j. pk_addr (snd (R j))) [0..<8]\<rparr>)
    \<and> (\<forall>j<8. 8 * of_nat k + of_nat j = x8_wots_sign_leaf info \<longrightarrow> x8_wots_steps info \<noteq> None \<longrightarrow> x8_wots_sig info \<noteq> None \<longrightarrow>
         x8_wots_sign_leaf info \<noteq> SPX_NO_SIGN_LEAF \<longrightarrow> j = sidx)"
proof -
  let ?sl = "x8_wots_sign_leaf info"
  define ok where "ok \<longleftrightarrow> x8_wots_steps info \<noteq> None \<and> x8_wots_sig info \<noteq> None \<and> ?sl \<noteq> SPX_NO_SIGN_LEAF"
  define ds where "ds \<longleftrightarrow> ok \<and> (8 * of_nat k XOR ?sl) AND NOT 7 = 0"
  define sidx where "sidx = unat (if ds then ?sl AND 7 else 0)"
  have sidx: "sidx < 8" by (simp add: sidx_def unat_and_7)
  have lane: "(ok \<and> 8 * of_nat k + of_nat j = ?sl) = (ds \<and> j = sidx)" if "j < 8" for j
    using sign_lane [OF assms(1) that, of ?sl] by (auto simp: ds_def sidx_def)
  let ?la = "\<lambda>j. set_keypair_addr (x8_leaf_addr info ! j) (8 * of_nat k + of_nat j)"
  let ?pa = "\<lambda>j. set_keypair_addr (x8_pk_addr info ! j) (8 * of_nat k + of_nat j)"
  define F where "F = (\<lambda>j. foldl (ref_step ctx (ds \<and> j = sidx) (x8_wots_steps info)) ([], x8_wots_sig info, ?la j) [0..<16])"
  have f: "foldl (wots_leaf_stepx8 ctx0 ctx ds (x8_wots_steps info) sidx) (replicate 8 [], x8_wots_sig info, map ?la [0..<8]) [0..<16] =
      (map (\<lambda>j. fst (F j)) [0..<8], fst (snd (F sidx)), map (\<lambda>j. snd (snd (F j))) [0..<8])"
    "\<forall>j<8. length (fst (F j)) = 256"
    unfolding F_def using wots_leaf_foldx8_lanes [of ?la sidx ds "x8_wots_steps info" "x8_wots_sig info" 16] assms(2) sidx
    by (simp_all add: addr_len del: upt_Suc upt_rec_numeral)
  have R: "R j = (thash crypto_hashblocks_sha256_ref (fst (F j)) 16 ctx (?pa j),
      (lane_info info j)\<lparr>wots_sig := fst (snd (F j)), leaf_addr := snd (snd (F j)), pk_addr := ?pa j\<rparr>)" if "j < 8" for j
    using lane [OF that] unfolding R_def F_def ok_def
    by (simp add: wots_gen_leafx1_def wots_gen_leafx1_scalar_def lane_info_def case_prod_beta Let_def del: upt_Suc upt_rec_numeral)
  have dest: "thashx8 ctx0 (map (\<lambda>j. fst (F j)) [0..<8]) 16 ctx (map ?pa [0..<8]) = map (\<lambda>j. fst (R j)) [0..<8]"
    using f(2) assms(3) by (subst thashx8_lanes) (simp_all add: R addr_len del: upt_Suc)
  have "wots_gen_leafx8 ctx0 ctx (8 * of_nat k) info = (map (\<lambda>j. fst (R j)) [0..<8],
      info\<lparr>x8_wots_sig := fst (snd (F sidx)), x8_leaf_addr := map (\<lambda>j. snd (snd (F j))) [0..<8], x8_pk_addr := map ?pa [0..<8]\<rparr>)"
  proof -
    have d: "(x8_wots_steps info \<noteq> None \<and> x8_wots_sig info \<noteq> None \<and> ?sl \<noteq> SPX_NO_SIGN_LEAF \<and>
        (8 * of_nat k XOR ?sl) AND NOT 7 = 0) = ds" by (simp only: ds_def ok_def conj_assoc)
    have w: "SPX_WOTS_LEN = 16" by simp
    show ?thesis unfolding wots_gen_leafx8_def Let_def d sidx_def [symmetric] w f(1) prod.case dest ..
  qed
  then show ?thesis
    using sidx lane R by (intro exI [of _ sidx]) (auto simp: ok_def cong: map_cong)
qed

end

definition wots_info8_inv :: "spx_ctx \<Rightarrow> spx_addr \<Rightarrow> u32 \<Rightarrow> u32 list option \<Rightarrow> nat \<Rightarrow> leaf_info_x8 \<Rightarrow> bool" where
  "wots_info8_inv ctx wots_addr idx steps k info \<longleftrightarrow>
     x8_wots_sign_leaf info = idx \<and> x8_wots_steps info = steps \<and>
     (\<forall>j<8. agree_except leaf_fields (x8_leaf_addr info ! j) (subtree_leaf_addr wots_addr) \<and>
       agree_except keypair_field (x8_pk_addr info ! j) (subtree_pk_addr wots_addr)) \<and>
     (case steps of
        None \<Rightarrow> x8_wots_sig info = None
      | Some st \<Rightarrow> \<exists>s. x8_wots_sig info = Some s \<and> length s = 256 \<and>
          (unat idx < 8 * k \<longrightarrow> s = wots_signature crypto_hashblocks_sha256_ref ctx (set_keypair_addr (subtree_leaf_addr wots_addr) idx) st))"

locale wots_tree8 = avx2_calls ctx ctx0 stk + wots_tree crypto_hashblocks_sha256_ref ctx wots_addr idx steps
  for ctx :: spx_ctx and ctx0 :: sha256ctx and stk :: "nat \<Rightarrow> bytes list list"
    and wots_addr :: spx_addr and idx :: u32 and steps :: "u32 list option"
begin

lemma gen_step8:
  assumes "k < 8" "wots_info8_inv ctx wots_addr idx steps k info"
  shows "fst (wots_gen_leafx8 ctx0 ctx (8 * of_nat k) info) = map (\<lambda>j. subtree_leaf crypto_hashblocks_sha256_ref ctx wots_addr (8 * k + j)) [0..<8]"
    and "wots_info8_inv ctx wots_addr idx steps (Suc k) (snd (wots_gen_leafx8 ctx0 ctx (8 * of_nat k) info))"
proof -
  let ?la = "subtree_leaf_addr wots_addr" and ?pa = "subtree_pk_addr wots_addr"
  let ?R = "\<lambda>j. wots_gen_leafx1 crypto_hashblocks_sha256_ref ctx (8 * of_nat k + of_nat j) (lane_info info j)"
  let ?ds = "\<lambda>j. steps \<noteq> None \<and> x8_wots_sig info \<noteq> None \<and> idx \<noteq> SPX_NO_SIGN_LEAF \<and> 8 * of_nat k + of_nat j = idx"
  have i: "x8_wots_sign_leaf info = idx" "x8_wots_steps info = steps" using assms(2) by (simp_all add: wots_info8_inv_def)
  have a: "agree_except leaf_fields (x8_leaf_addr info ! j) ?la" "agree_except keypair_field (x8_pk_addr info ! j) ?pa" if "j < 8" for j
    using assms(2) that by (simp_all add: wots_info8_inv_def)
  have k: "k < 2 ^ 29" using assms(1) by simp
  obtain sidx where s8: "sidx < 8" and g: "wots_gen_leafx8 ctx0 ctx (8 * of_nat k) info = (map (\<lambda>j. fst (?R j)) [0..<8],
      info\<lparr>x8_wots_sig := wots_sig (snd (?R sidx)), x8_leaf_addr := map (\<lambda>j. leaf_addr (snd (?R j))) [0..<8],
        x8_pk_addr := map (\<lambda>j. pk_addr (snd (?R j))) [0..<8]\<rparr>)" and hit: "\<And>j. j < 8 \<Longrightarrow> ?ds j \<Longrightarrow> j = sidx"
    using wots_gen_leafx8_lanes [OF k, of info] a by (auto simp: agree_except_def i)
  have R: "fst (?R j) = wots_leaf crypto_hashblocks_sha256_ref ctx ?la ?pa (8 * of_nat k + of_nat j) \<and>
      wots_sig (snd (?R j)) = (if ?ds j then Some (wots_signature crypto_hashblocks_sha256_ref ctx (set_keypair_addr ?la idx) (the steps)) else x8_wots_sig info) \<and>
      agree_except leaf_fields (leaf_addr (snd (?R j))) ?la \<and> agree_except keypair_field (pk_addr (snd (?R j))) ?pa" if j: "j < 8" for j
  proof -
    have "(\<forall>i<16. unat (the steps ! i) \<le> 255) \<and> length (the (x8_wots_sig info)) = 256" if "?ds j"
      using that assms(2) digits by (auto simp: wots_info8_inv_def)
    then show ?thesis
      using wots_gen_leafx1_run [of "lane_info info j" ?la ?pa "8 * of_nat k + of_nat j"] a [OF j]
      by (auto simp: lane_info_def i)
  qed
  show "fst (wots_gen_leafx8 ctx0 ctx (8 * of_nat k) info) = map (\<lambda>j. subtree_leaf crypto_hashblocks_sha256_ref ctx wots_addr (8 * k + j)) [0..<8]"
    using R by (simp add: g subtree_leaf_def del: upt_Suc)
  have new: "unat idx < 8 * k \<or> ?ds sidx" if "unat idx < 8 * Suc k" "steps \<noteq> None" "x8_wots_sig info \<noteq> None"
  proof (cases "unat idx < 8 * k")
    case False
    define j where "j = unat idx - 8 * k"
    have j: "j < 8" "8 * k + j = unat idx" using False that(1) by (simp_all add: j_def)
    have "idx = of_nat (8 * k + j)" unfolding j(2) by simp
    then have "8 * of_nat k + of_nat j = idx" by simp
    then show ?thesis using hit [OF j(1)] that idx by auto
  qed simp
  show "wots_info8_inv ctx wots_addr idx steps (Suc k) (snd (wots_gen_leafx8 ctx0 ctx (8 * of_nat k) info))"
    using assms(2) R R [OF s8] new
    by (auto simp: wots_info8_inv_def g length_wots_signature split: option.splits simp del: upt_Suc)
qed

end

sublocale wots_tree8 \<subseteq> tree8: leaf_generator8 ctx ctx0 "wots_gen_leafx8 ctx0 ctx" "subtree_leaf crypto_hashblocks_sha256_ref ctx wots_addr"
    "wots_info8_inv ctx wots_addr idx steps" 0 6
  by unfold_locales (simp_all add: gen_step8 length_subtree_leaf del: upt_Suc upt_rec_numeral)

text \<open>A tree address with nothing in the fields that \<open>copy_subtree_addr\<close> does not copy, as the callers keep it.\<close>

definition clean_tree_addr :: "spx_addr \<Rightarrow> bool" where
  "clean_tree_addr a \<longleftrightarrow> agree_except ({0..<10} \<union> node_fields) a zero_addr"

lemma clean_tree_addr_copy:
  "clean_tree_addr a \<Longrightarrow> agree_except node_fields (copy_subtree_addr (set_type zero_addr y) a) (set_type a y)"
  by (auto simp: clean_tree_addr_def agree_except_def addr_nth addr_len)

context wots_tree8
begin

lemma run_tree8:
  assumes "length auth = 96" "clean_tree_addr tree_addr" "unat idx < 2 ^ 6 \<or> idx = SPX_NO_SIGN_LEAF"
    and "case steps of None \<Rightarrow> wsig = None | Some st \<Rightarrow> \<exists>s. wsig = Some s \<and> length s = 256"
  defines "T \<equiv> set_type tree_addr SPX_ADDR_TYPE_HASHTREE"
  shows "\<exists>auth' as' info'. treehashx8 ctx0 (stk 6) auth ctx idx 0 6 (wots_gen_leafx8 ctx0 ctx)
      (replicate 8 (copy_subtree_addr (set_type zero_addr SPX_ADDR_TYPE_HASHTREE) tree_addr))
      \<lparr>x8_wots_sig = wsig, x8_wots_sign_leaf = idx, x8_wots_steps = steps,
        x8_leaf_addr = replicate 8 (copy_subtree_addr (set_type zero_addr SPX_ADDR_TYPE_WOTS) wots_addr),
        x8_pk_addr = replicate 8 (copy_subtree_addr (set_type zero_addr SPX_ADDR_TYPE_WOTSPK) wots_addr)\<rparr> =
      (subtree_root crypto_hashblocks_sha256_ref ctx wots_addr tree_addr, auth', as', info') \<and> length auth' = 96 \<and>
      (steps = None \<longrightarrow> x8_wots_sig info' = None) \<and>
      (unat idx < 2 ^ 6 \<longrightarrow> auth' = auth_path_of crypto_hashblocks_sha256_ref ctx T 0 (subtree_leaf crypto_hashblocks_sha256_ref ctx wots_addr) 6 idx \<and>
        (\<forall>st. steps = Some st \<longrightarrow>
          x8_wots_sig info' = Some (wots_signature crypto_hashblocks_sha256_ref ctx (set_keypair_addr (subtree_leaf_addr wots_addr) idx) st)))"
proof -
  let ?info = "\<lparr>x8_wots_sig = wsig, x8_wots_sign_leaf = idx, x8_wots_steps = steps,
    x8_leaf_addr = replicate 8 (copy_subtree_addr (set_type zero_addr SPX_ADDR_TYPE_WOTS) wots_addr),
    x8_pk_addr = replicate 8 (copy_subtree_addr (set_type zero_addr SPX_ADDR_TYPE_WOTSPK) wots_addr)\<rparr>"
  have "agree_except leaf_fields (copy_subtree_addr (set_type zero_addr SPX_ADDR_TYPE_WOTS) wots_addr) (subtree_leaf_addr wots_addr)"
    using wots_addr by (auto simp: agree_except_def subtree_leaf_addr_def addr_nth addr_len)
  then have inv: "wots_info8_inv ctx wots_addr idx steps 0 ?info"
    using assms(4) wots_addr
    by (auto simp: wots_info8_inv_def subtree_pk_addr_def agree_except_refl addr_len split: option.splits)
  have as: "addrs8 T (replicate 8 (copy_subtree_addr (set_type zero_addr SPX_ADDR_TYPE_HASHTREE) tree_addr))"
    using clean_tree_addr_copy [OF assms(2)] by (simp add: addrs8_def T_def)
  have ok: "tree8.leaf_ok idx"
    using assms(3) by (auto simp: tree8.leaf_ok_def SPX_NO_SIGN_LEAF_def unsigned_minus_1_eq_mask mask_eq_exp_minus_1)
  from tree8.treehashx8_correct [OF _ as inv, of auth "stk 6" idx] assms(1) stk ok
  obtain auth' as' info' where r: "treehashx8 ctx0 (stk 6) auth ctx idx 0 6 (wots_gen_leafx8 ctx0 ctx)
      (replicate 8 (copy_subtree_addr (set_type zero_addr SPX_ADDR_TYPE_HASHTREE) tree_addr)) ?info =
      (subtree_root crypto_hashblocks_sha256_ref ctx wots_addr tree_addr, auth', as', info')" "length auth' = 96"
    and i: "wots_info8_inv ctx wots_addr idx steps 8 info'"
    and "unat idx < 2 ^ 6 \<longrightarrow> auth' = auth_path_of crypto_hashblocks_sha256_ref ctx T 0 (subtree_leaf crypto_hashblocks_sha256_ref ctx wots_addr) 6 idx"
    by (auto simp: subtree_root_def T_def)
  moreover have "steps = None \<longrightarrow> x8_wots_sig info' = None"
    "\<forall>st. unat idx < 2 ^ 6 \<longrightarrow> steps = Some st \<longrightarrow>
      x8_wots_sig info' = Some (wots_signature crypto_hashblocks_sha256_ref ctx (set_keypair_addr (subtree_leaf_addr wots_addr) idx) st)"
    using i by (auto simp: wots_info8_inv_def)
  ultimately show ?thesis by blast
qed

end

section \<open>merkle_sign_avx2 is merkle_sign\<close>

context avx2_calls
begin

text \<open>Code, signature, root and statistics are those of the scalar path; only the caller's \<open>tree_addr\<close> is left as it was.\<close>

theorem merkle_sign_avx2_eq:
  assumes "valid_addr wots_addr" "clean_tree_addr tree_addr" "length sig = 352" "unat idx < 2 ^ 6"
    and "merkle_sign cfg crypto_hashblocks_sha256_ref sig root ctx wots_addr tree_addr idx g = (rc, sig', root', t, g')"
  shows "merkle_sign_avx2 cfg crypto_hashblocks_sha256_ref ctx0 stk sig root ctx wots_addr tree_addr idx g = (rc, sig', root', tree_addr, g')"
proof -
  have vt: "valid_addr tree_addr" using assms(2) by (simp add: clean_tree_addr_def agree_except_def)
  have idx: "idx \<noteq> SPX_NO_SIGN_LEAF"
    using assms(4) by (auto simp: SPX_NO_SIGN_LEAF_def unsigned_minus_1_eq_mask mask_eq_exp_minus_1)
  show ?thesis
  proof (cases "chain_lengths cfg crypto_hashblocks_sha256_ref root g")
    case (Pair r g1)
    show ?thesis
    proof (cases r)
      case (Inl e)
      then show ?thesis
        using Pair idx assms(5) merkle_sign_fail [of cfg root g e g1 idx sig wots_addr tree_addr] by (simp add: merkle_sign_avx2_def Let_def)
    next
      case (Inr st)
      have "wots_tree crypto_hashblocks_sha256_ref ctx wots_addr idx (Some st)"
        using Inr Pair assms(1) idx by (intro wots_tree_signing [where root = root and g = g and cfg = cfg]) simp_all
      then have "wots_tree8 ctx ctx0 stk wots_addr idx (Some st)"
        by (simp add: wots_tree8_def avx2_calls_axioms)
      from wots_tree8.run_tree8 [OF this, of "drop 256 sig" tree_addr "Some (take 256 sig)"]
        merkle_sign_ok [OF assms(1) vt assms(3,4), of cfg root g st g1] assms(2-5) Pair Inr idx
      show ?thesis by (auto simp: merkle_sign_avx2_def subtree_sig_def Let_def)
    qed
  qed
qed

theorem merkle_gen_root_avx2:
  assumes "merkle_gen_root cfg crypto_hashblocks_sha256_ref root ctx g = (rc, root', g')" "length auth = 352"
  defines "w \<equiv> set_layer_addr zero_addr (of_nat (SPX_D - 1))"
  shows "\<exists>auth'. merkle_sign_avx2 cfg crypto_hashblocks_sha256_ref ctx0 stk auth root ctx w w SPX_NO_SIGN_LEAF g = (rc, auth', root', w, g')"
proof -
  have w: "w = set_layer_addr zero_addr 4" by (simp add: w_def)
  have "valid_addr w" "clean_tree_addr w" by (auto simp: w clean_tree_addr_def agree_except_def addr_nth addr_len)
  moreover have "wots_tree8 ctx ctx0 stk w SPX_NO_SIGN_LEAF None"
    using wots_tree_silent [OF calculation(1)] by (simp add: wots_tree8_def avx2_calls_axioms)
  from wots_tree8.run_tree8 [OF this, of "drop 256 auth" w None] assms(2) calculation merkle_gen_root_ok [of cfg root g] assms(1)
  show ?thesis by (auto simp: merkle_sign_avx2_def Let_def w)
qed

end

end
