(* ===== verification/Avx2_Wots.thy ===== *)
theory Avx2_Wots
  imports Avx2_Sign
begin

text \<open>
  \<open>wots_gen_leafx1_avx2\<close> (\<open>sphincsplus/ref/wotsx1.c\<close>): one WOTS+C leaf whose chains run eight at a time.  When fewer than
  eight chains are left, the code lets the idle lanes write a dummy buffer that nothing reads; with \<open>SPX_WOTS_LEN = 16\<close> no lane is
  idle.  The theorem: leaf, signature and public-key address are those of the scalar generator.
\<close>

section \<open>Groups of eight chains\<close>

definition group_lanes :: "nat \<Rightarrow> nat" where
  "group_lanes i = (let active = SPX_WOTS_LEN - i in if active > 8 then 8 else active)"

definition group_addrs :: "spx_addr \<Rightarrow> nat \<Rightarrow> nat \<Rightarrow> spx_addr list" where
  "group_addrs la i active = map (\<lambda>j.
     set_type (set_hash_addr (set_chain_addr la (if j < active then of_nat (i + j) else 0)) 0) SPX_ADDR_TYPE_WOTSPRF) [0..<8]"

text \<open>The values at position \<open>k\<close> that belong to the signature.\<close>

definition group_sign :: "bool \<Rightarrow> u32 list option \<Rightarrow> nat \<Rightarrow> nat \<Rightarrow> u32 \<Rightarrow> bytes list \<Rightarrow> bytes option \<Rightarrow> bytes option" where
  "group_sign do_sign steps i active k bufs sig = foldl (\<lambda>sig j.
     let wots_k = (if do_sign then the steps ! (i + j) else SPX_NO_SIGN_LEAF)
     in if do_sign \<and> k = wots_k then map_option (put_bytes ((i + j) * SPX_N) (bufs ! j)) sig else sig) sig [0..<active]"

function group_chains :: "sha256ctx \<Rightarrow> spx_ctx \<Rightarrow> bool \<Rightarrow> u32 list option \<Rightarrow> nat \<Rightarrow> nat \<Rightarrow> u32 \<Rightarrow> bytes list \<Rightarrow> bytes option
    \<Rightarrow> spx_addr list \<Rightarrow> bytes list \<times> bytes option" where
  "group_chains ctx0 ctx do_sign steps i active k bufs sig addrs =
     (let sig = group_sign do_sign steps i active k bufs sig
      in if k = of_nat SPX_WOTS_W - 1 then (bufs, sig)
         else (let addrs = map (\<lambda>j. if j < active then set_hash_addr (addrs ! j) k else addrs ! j) [0..<8]
               in group_chains ctx0 ctx do_sign steps i active (k + 1) (thashx8 ctx0 bufs 1 ctx addrs) sig addrs))"
  by pat_completeness auto
termination
  by (relation "measure (\<lambda>(ctx0, ctx, do_sign, steps, i, active, k, r). unat ((of_nat SPX_WOTS_W - 1) - k))")
    (auto intro: word_count_to [of _ "255::u32", simplified])

declare group_chains.simps [simp del]

definition wots_group_step :: "sha256ctx \<Rightarrow> spx_ctx \<Rightarrow> bool \<Rightarrow> u32 list option \<Rightarrow> spx_addr \<Rightarrow> bytes \<times> bytes option \<Rightarrow> nat
    \<Rightarrow> bytes \<times> bytes option" where
  "wots_group_step ctx0 ctx do_sign steps la = (\<lambda>(pk_buffer, sig) i.
     let active = group_lanes i;
         addrs = group_addrs la i active;
         bufs = prf_addrx8 ctx0 ctx addrs;
         addrs = map (\<lambda>j. if j < active then set_type (addrs ! j) SPX_ADDR_TYPE_WOTS else addrs ! j) [0..<8];
         (bufs, sig) = group_chains ctx0 ctx do_sign steps i active 0 bufs sig addrs
     in (pk_buffer @ concat (take active bufs), sig))"

text \<open>\<open>for (i = 0; i < SPX_WOTS_LEN; i += 8)\<close>.\<close>

definition group_starts :: "nat list" where
  "group_starts = map (\<lambda>n. 8 * n) [0..<(SPX_WOTS_LEN + 7) div 8]"

definition wots_gen_leafx1_avx2 :: "hashblocks_fn \<Rightarrow> sha256ctx \<Rightarrow> spx_ctx \<Rightarrow> u32 \<Rightarrow> leaf_info_x1 \<Rightarrow> bytes \<times> leaf_info_x1" where
  "wots_gen_leafx1_avx2 hb ctx0 ctx leaf_idx info =
     (let do_sign = (wots_steps info \<noteq> None \<and> wots_sig info \<noteq> None \<and>
            wots_sign_leaf info \<noteq> SPX_NO_SIGN_LEAF \<and> leaf_idx = wots_sign_leaf info);
          la = set_keypair_addr (leaf_addr info) leaf_idx;
          pa = set_keypair_addr (pk_addr info) leaf_idx;
          (pk_buffer, sig) = foldl (wots_group_step ctx0 ctx do_sign (wots_steps info) la) ([], wots_sig info) group_starts
      in (thash hb pk_buffer SPX_WOTS_LEN ctx pa, info\<lparr>wots_sig := sig, leaf_addr := la, pk_addr := pa\<rparr>))"

section \<open>The chains of a group\<close>

text \<open>\<open>sig_pieces S s0 s\<close>: \<open>s\<close> is \<open>s0\<close> with the pieces of the chains in \<open>S\<close> replaced by their values.\<close>

definition sig_pieces :: "(nat \<Rightarrow> bytes) \<Rightarrow> nat set \<Rightarrow> bytes \<Rightarrow> bytes \<Rightarrow> bool" where
  "sig_pieces V S s0 s \<longleftrightarrow> length s = 256 \<and>
     (\<forall>c<16. get_bytes (16 * c) 16 s = (if c \<in> S then V c else get_bytes (16 * c) 16 s0))"

lemma sig_pieces_put:
  assumes "sig_pieces V S s0 s" "c < 16" "length (V c) = 16"
  shows "sig_pieces V (insert c S) s0 (put_bytes (c * 16) (V c) s)"
  using assms unfolding sig_pieces_def mult.commute [of c 16] by (simp add: get_put_piece [of _ 16 _ 16])

lemma sig_pieces_all:
  assumes "sig_pieces V S s0 s" "{0..<16} \<subseteq> S"
  shows "s = concat (map V [0..<16])"
proof -
  have "concat (map V [0..<16]) = concat (map (\<lambda>c. get_bytes (16 * c) 16 s) [0..<16])"
    using assms by (intro arg_cong [where f = concat] map_cong refl) (auto simp: sig_pieces_def)
  then show ?thesis using concat_pieces [of s 16 16] assms(1) by (simp add: sig_pieces_def)
qed

lemma group_sign_pieces:
  assumes "sig_pieces V S s0 s" "\<And>j. j < 8 \<Longrightarrow> the steps ! (i + j) = k \<Longrightarrow> V (i + j) = bufs ! j" "i + 8 \<le> 16"
    and "\<And>c. length (V c) = 16" "n \<le> 8"
  shows "\<exists>s'. group_sign True steps i n k bufs (Some s) = Some s' \<and>
    sig_pieces V (S \<union> {c. i \<le> c \<and> c < i + n \<and> the steps ! c = k}) s0 s'"
  using assms(5)
proof (induction n)
  case 0
  have "S \<union> {c. i \<le> c \<and> c < i + 0 \<and> the steps ! c = k} = S" by auto
  then show ?case using assms(1) by (simp only:) (simp add: group_sign_def)
next
  case (Suc n)
  then obtain s' where IH: "group_sign True steps i n k bufs (Some s) = Some s'"
    "sig_pieces V (S \<union> {c. i \<le> c \<and> c < i + n \<and> the steps ! c = k}) s0 s'" by auto
  have step: "group_sign True steps i (Suc n) k bufs (Some s) =
      Some (if k = the steps ! (i + n) then put_bytes ((i + n) * 16) (bufs ! n) s' else s')"
    using IH(1) by (simp add: group_sign_def)
  show ?case
  proof (cases "k = the steps ! (i + n)")
    case True
    have "insert (i + n) (S \<union> {c. i \<le> c \<and> c < i + n \<and> the steps ! c = k}) = S \<union> {c. i \<le> c \<and> c < i + Suc n \<and> the steps ! c = k}"
      using True by (auto simp: less_Suc_eq)
    then show ?thesis
      using step True sig_pieces_put [OF IH(2), of "i + n", OF _ assms(4)] assms(2) [of n] assms(3) Suc.prems by simp
  next
    case False
    then have "S \<union> {c. i \<le> c \<and> c < i + n \<and> the steps ! c = k} = S \<union> {c. i \<le> c \<and> c < i + Suc n \<and> the steps ! c = k}"
      by (auto simp: less_Suc_eq)
    then show ?thesis using step False IH(2) by auto
  qed
qed

lemma group_sign_silent: "group_sign False steps i n k bufs sig = sig"
  by (induction n) (simp_all add: group_sign_def)

context eight_lanes
begin

lemma group_chains_run:
  fixes A :: spx_addr and st :: "u32 list" and ds :: bool
  defines "V \<equiv> \<lambda>c. wots_value crypto_hashblocks_sha256_ref ctx A c (unat (st ! c))"
  assumes "i + 8 \<le> 16" "k \<le> 255" "length addrs = 8" "\<And>j. j < 8 \<Longrightarrow> agree_except hash_field (addrs ! j) (wots_chain_addr A (i + j))"
    and "ds \<Longrightarrow> steps = Some st \<and> (\<forall>c<16. unat (st ! c) \<le> 255) \<and>
      (\<exists>s. sig = Some s \<and> sig_pieces V (S \<union> {c. i \<le> c \<and> c < i + 8 \<and> unat (st ! c) < k}) s0 s)"
  shows "\<exists>sig'. group_chains ctx0 ctx ds steps i 8 (of_nat k) (map (\<lambda>j. wots_value crypto_hashblocks_sha256_ref ctx A (i + j) k) [0..<8]) sig addrs =
      (map (\<lambda>j. wots_value crypto_hashblocks_sha256_ref ctx A (i + j) 255) [0..<8], sig') \<and>
      (if ds then \<exists>s'. sig' = Some s' \<and> sig_pieces V (S \<union> {i..<i + 8}) s0 s' else sig' = sig)"
  using assms(3-)
proof (induction "255 - k" arbitrary: k addrs sig)
  have uk: "unat (of_nat k :: u32) = k" if "k \<le> 255" for k using that by (intro unat_of_nat_small) simp
  let ?V = "\<lambda>k j. wots_value crypto_hashblocks_sha256_ref ctx A (i + j) k"
  have signed: "\<exists>s'. group_sign ds steps i 8 (of_nat k) (map (?V k) [0..<8]) sig = Some s' \<and>
      sig_pieces V (S \<union> {c. i \<le> c \<and> c < i + 8 \<and> unat (st ! c) < Suc k}) s0 s'"
    if ds "k \<le> 255" "steps = Some st" "\<exists>s. sig = Some s \<and> sig_pieces V (S \<union> {c. i \<le> c \<and> c < i + 8 \<and> unat (st ! c) < k}) s0 s"
    for k sig
  proof -
    from that(4) obtain s where s: "sig = Some s" "sig_pieces V (S \<union> {c. i \<le> c \<and> c < i + 8 \<and> unat (st ! c) < k}) s0 s" by blast
    have "S \<union> {c. i \<le> c \<and> c < i + 8 \<and> unat (st ! c) < k} \<union> {c. i \<le> c \<and> c < i + 8 \<and> the steps ! c = of_nat k} =
        S \<union> {c. i \<le> c \<and> c < i + 8 \<and> unat (st ! c) < Suc k}"
      using uk [OF that(2)] that(3) by (auto simp: less_Suc_eq word_unat_eq_iff)
    moreover have "V (i + j) = map (?V k) [0..<8] ! j" if "j < 8" "the steps ! (i + j) = of_nat k" for j
      using that \<open>steps = Some st\<close> uk [OF \<open>k \<le> 255\<close>] by (simp add: V_def del: upt_Suc)
    ultimately show ?thesis
      using group_sign_pieces [OF s(2), of steps i "of_nat k" "map (?V k) [0..<8]" 8] s(1) \<open>ds\<close> assms(2)
      by (simp add: V_def length_wots_value del: upt_Suc)
  qed
  {
    case 0
    then have k: "k = 255" by simp
    have g: "group_chains ctx0 ctx ds steps i 8 (of_nat 255) (map (?V 255) [0..<8]) sig addrs =
        (map (?V 255) [0..<8], group_sign ds steps i 8 (of_nat 255) (map (?V 255) [0..<8]) sig)"
      by (subst group_chains.simps) (simp add: Let_def del: upt_Suc)
    show ?case
    proof (cases ds)
      case True
      have d: "steps = Some st" "\<forall>c<16. unat (st ! c) \<le> 255" using 0(5) [OF True] by simp_all
      have "{c. i \<le> c \<and> c < i + 8 \<and> unat (st ! c) < Suc 255} = {i..<i + 8}"
      proof -
        have "unat (st ! c) < Suc 255" if "c < i + 8" for c using d(2) that assms(2) by (simp only: less_Suc_eq_le)
        then show ?thesis by auto
      qed
      then show ?thesis using g signed [OF True 0(2) d(1)] 0(5) [OF True] True unfolding k by simp
    next
      case False
      then show ?thesis using g unfolding k by (simp add: group_sign_silent del: upt_Suc)
    qed
  next
    case (Suc n)
    then have k: "k < 255" by simp
    have ne: "(of_nat k :: u32) \<noteq> of_nat SPX_WOTS_W - 1" using uk [of k] k by (auto simp: word_unat_eq_iff)
    let ?addrs = "map (\<lambda>j. if j < 8 then set_hash_addr (addrs ! j) (of_nat k) else addrs ! j) [0..<8]"
    let ?sig = "group_sign ds steps i 8 (of_nat k) (map (?V k) [0..<8]) sig"
    have a: "?addrs ! j = set_hash_addr (wots_chain_addr A (i + j)) (of_nat k)"
      "agree_except hash_field (?addrs ! j) (wots_chain_addr A (i + j))" if "j < 8" for j
      using that hash_addr_unique [OF Suc.prems(3) [OF that]] agree_hash_set [OF Suc.prems(3) [OF that]] by (simp_all del: upt_Suc)
    then have va: "valid_addr (?addrs ! j)" if "j < 8" for j using a(2) [OF that] by (simp only: agree_except_def)
    have "thashx8 ctx0 (map (?V k) [0..<8]) 1 ctx ?addrs = map (\<lambda>j. thash crypto_hashblocks_sha256_ref (map (?V k) [0..<8] ! j) 1 ctx (?addrs ! j)) [0..<8]"
      by (rule thashx8_lanes) (use va in \<open>simp_all add: length_wots_value del: upt_Suc\<close>)
    also have "\<dots> = map (?V (Suc k)) [0..<8]"
      by (intro map_cong refl) (simp only: set_upt atLeastLessThan_iff a(1), simp add: wots_value_def del: upt_Suc)
    finally have t: "thashx8 ctx0 (map (?V k) [0..<8]) 1 ctx ?addrs = map (?V (Suc k)) [0..<8]" .
    have suc: "of_nat k + 1 = (of_nat (Suc k) :: u32)" by simp
    have "group_chains ctx0 ctx ds steps i 8 (of_nat k) (map (?V k) [0..<8]) sig addrs =
        group_chains ctx0 ctx ds steps i 8 (of_nat (Suc k)) (map (?V (Suc k)) [0..<8]) ?sig ?addrs"
      using ne unfolding t [symmetric] suc [symmetric] by (subst group_chains.simps) (simp only: Let_def if_False)
    moreover have "\<exists>sig'. group_chains ctx0 ctx ds steps i 8 (of_nat (Suc k)) (map (?V (Suc k)) [0..<8]) ?sig ?addrs =
        (map (?V 255) [0..<8], sig') \<and> (if ds then \<exists>s'. sig' = Some s' \<and> sig_pieces V (S \<union> {i..<i + 8}) s0 s' else sig' = ?sig)"
    proof (rule Suc.hyps(1))
      show "n = 255 - Suc k" "Suc k \<le> 255" using Suc.hyps(2) k by simp_all
      show "steps = Some st \<and> (\<forall>c<16. unat (st ! c) \<le> 255) \<and>
        (\<exists>s. ?sig = Some s \<and> sig_pieces V (S \<union> {c. i \<le> c \<and> c < i + 8 \<and> unat (st ! c) < Suc k}) s0 s)" if ds
        using signed [OF that, of k sig] Suc.prems(4) [OF that] k by simp
    qed (use a(2) in \<open>simp_all del: upt_Suc\<close>)
    ultimately show ?case by (cases ds) (simp_all add: group_sign_silent del: upt_Suc)
  }
qed

text \<open>One group of eight chains, then both groups.\<close>

lemma wots_group_run:
  fixes A :: spx_addr and st :: "u32 list" and ds :: bool
  defines "V \<equiv> \<lambda>c. wots_value crypto_hashblocks_sha256_ref ctx A c (unat (st ! c))"
  assumes "valid_addr A" "i + 8 \<le> 16"
    and "ds \<Longrightarrow> steps = Some st \<and> (\<forall>c<16. unat (st ! c) \<le> 255) \<and> (\<exists>s. sig = Some s \<and> sig_pieces V {0..<i} s0 s)"
  shows "\<exists>sig'. wots_group_step ctx0 ctx ds steps A (pk, sig) i =
      (pk @ concat (map (\<lambda>c. wots_value crypto_hashblocks_sha256_ref ctx A c 255) [i..<i + 8]), sig') \<and>
      (if ds then \<exists>s'. sig' = Some s' \<and> sig_pieces V {0..<i + 8} s0 s' else sig' = sig)"
proof -
  let ?a = "\<lambda>j. set_type (set_hash_addr (set_chain_addr A (of_nat (i + j))) 0) SPX_ADDR_TYPE_WOTSPRF"
  have l: "group_lanes i = 8" using assms(3) by (simp add: group_lanes_def Let_def) arith
  have g: "group_addrs A i 8 = map ?a [0..<8]" by (simp add: group_addrs_def cong: map_cong)
  have va: "valid_addr (?a j)" for j using assms(2) by (simp add: addr_len)
  have b: "prf_addrx8 ctx0 ctx (map ?a [0..<8]) = map (\<lambda>j. wots_value crypto_hashblocks_sha256_ref ctx A (i + j) 0) [0..<8]"
    using va by (subst prf_addrx8_lanes) (simp_all add: wots_value_def wots_sk_def del: upt_Suc)
  let ?addrs = "map (\<lambda>j. if j < 8 then set_type (map ?a [0..<8] ! j) SPX_ADDR_TYPE_WOTS else map ?a [0..<8] ! j) [0..<8]"
  have ag: "agree_except hash_field (?addrs ! j) (wots_chain_addr A (i + j))" if "j < 8" for j
    using that assms(2) by (auto simp: agree_except_def wots_chain_addr_def addr_nth addr_len simp del: upt_Suc)
  have "\<exists>sig'. group_chains ctx0 ctx ds steps i 8 (of_nat 0) (map (\<lambda>j. wots_value crypto_hashblocks_sha256_ref ctx A (i + j) 0) [0..<8]) sig ?addrs =
      (map (\<lambda>j. wots_value crypto_hashblocks_sha256_ref ctx A (i + j) 255) [0..<8], sig') \<and>
      (if ds then \<exists>s'. sig' = Some s' \<and> sig_pieces V ({0..<i} \<union> {i..<i + 8}) s0 s' else sig' = sig)"
    unfolding V_def
    by (rule group_chains_run) (use assms(3,4) ag in \<open>simp_all add: V_def del: upt_Suc\<close>)
  then obtain sig' where r: "group_chains ctx0 ctx ds steps i 8 0 (map (\<lambda>j. wots_value crypto_hashblocks_sha256_ref ctx A (i + j) 0) [0..<8]) sig ?addrs =
      (map (\<lambda>j. wots_value crypto_hashblocks_sha256_ref ctx A (i + j) 255) [0..<8], sig')"
    and s: "if ds then \<exists>s'. sig' = Some s' \<and> sig_pieces V ({0..<i} \<union> {i..<i + 8}) s0 s' else sig' = sig" by auto
  have m: "map (\<lambda>j. f (i + j)) [0..<8] = map f [i..<i + 8]" for f :: "nat \<Rightarrow> bytes"
    by (rule nth_equalityI) (simp_all del: upt_Suc)
  have "wots_group_step ctx0 ctx ds steps A (pk, sig) i =
      (pk @ concat (map (\<lambda>c. wots_value crypto_hashblocks_sha256_ref ctx A c 255) [i..<i + 8]), sig')"
    unfolding wots_group_step_def prod.case Let_def l g b r
    by (simp add: m [of "\<lambda>c. wots_value crypto_hashblocks_sha256_ref ctx A c 255"] del: upt_Suc)
  moreover have "{0..<i} \<union> {i..<i + 8} = {0..<i + 8}" by auto
  ultimately show ?thesis using s by auto
qed

theorem wots_gen_leafx1_avx2_run:
  fixes info :: leaf_info_x1 and leaf_idx :: u32
  defines "ds \<equiv> wots_steps info \<noteq> None \<and> wots_sig info \<noteq> None \<and> wots_sign_leaf info \<noteq> SPX_NO_SIGN_LEAF \<and>
      leaf_idx = wots_sign_leaf info"
  assumes "valid_addr (leaf_addr info)"
    and "ds \<Longrightarrow> (\<forall>i<16. unat (the (wots_steps info) ! i) \<le> 255) \<and> length (the (wots_sig info)) = 256"
  shows "wots_gen_leafx1_avx2 crypto_hashblocks_sha256_ref ctx0 ctx leaf_idx info =
    (wots_leaf crypto_hashblocks_sha256_ref ctx (leaf_addr info) (pk_addr info) leaf_idx,
     info\<lparr>wots_sig := (if ds then Some (wots_signature crypto_hashblocks_sha256_ref ctx (set_keypair_addr (leaf_addr info) leaf_idx) (the (wots_steps info)))
            else wots_sig info),
       leaf_addr := set_keypair_addr (leaf_addr info) leaf_idx, pk_addr := set_keypair_addr (pk_addr info) leaf_idx\<rparr>)"
proof -
  let ?A = "set_keypair_addr (leaf_addr info) leaf_idx" and ?st = "the (wots_steps info)" and ?s0 = "the (wots_sig info)"
  let ?V = "\<lambda>c. wots_value crypto_hashblocks_sha256_ref ctx ?A c (unat (?st ! c))"
  let ?P = "\<lambda>c. wots_value crypto_hashblocks_sha256_ref ctx ?A c 255"
  have vA: "valid_addr ?A" using assms(2) by (simp add: addr_len)
  have d: "ds \<Longrightarrow> wots_steps info = Some ?st \<and> (\<forall>c<16. unat (?st ! c) \<le> 255) \<and> (\<exists>s. wots_sig info = Some s \<and> sig_pieces ?V {0..<0} ?s0 s)"
    using assms(3) by (auto simp: ds_def sig_pieces_def)
  obtain sig1 where s1: "wots_group_step ctx0 ctx ds (wots_steps info) ?A ([], wots_sig info) 0 = (concat (map ?P [0..<8]), sig1)"
    and p1: "if ds then \<exists>s'. sig1 = Some s' \<and> sig_pieces ?V {0..<8} ?s0 s' else sig1 = wots_sig info"
    using wots_group_run [where ds = ds and pk = "[]", OF vA _ d] by (cases ds) auto
  have d1: "ds \<Longrightarrow> wots_steps info = Some ?st \<and> (\<forall>c<16. unat (?st ! c) \<le> 255) \<and> (\<exists>s. sig1 = Some s \<and> sig_pieces ?V {0..<8} ?s0 s)"
    using d p1 by simp
  obtain sig2 where s2: "wots_group_step ctx0 ctx ds (wots_steps info) ?A (concat (map ?P [0..<8]), sig1) 8 =
      (concat (map ?P [0..<8]) @ concat (map ?P [8..<16]), sig2)"
    and p2: "if ds then \<exists>s'. sig2 = Some s' \<and> sig_pieces ?V {0..<16} ?s0 s' else sig2 = sig1"
    using wots_group_run [where ds = ds and pk = "concat (map ?P [0..<8])", OF vA _ d1] by (cases ds) auto
  have pub: "concat (map ?P [0..<8]) @ concat (map ?P [8..<16]) = wots_public crypto_hashblocks_sha256_ref ctx ?A"
  proof -
    have "[0..<16] = [0..<8] @ [8..<16 :: nat]" using upt_add_eq_append [of 0 8 8] by simp
    then show ?thesis unfolding wots_public_def by (simp only: map_append concat_append)
  qed
  have sg: "sig2 = (if ds then Some (wots_signature crypto_hashblocks_sha256_ref ctx ?A ?st) else wots_sig info)"
    using p1 p2 by (auto simp: wots_signature_def dest!: sig_pieces_all split: if_splits)
  have gs: "group_starts = [0, 8]" by (simp add: group_starts_def upt_rec)
  have f: "foldl (wots_group_step ctx0 ctx ds (wots_steps info) ?A) ([], wots_sig info) group_starts =
      (wots_public crypto_hashblocks_sha256_ref ctx ?A, sig2)"
    by (simp only: gs foldl.simps s1 s2 pub)
  show ?thesis
    unfolding wots_gen_leafx1_avx2_def Let_def ds_def [symmetric] f prod.case sg by (simp add: wots_leaf_def)
qed

end

end
