(* ===== verification/Avx2_Dispatch.thy ===== *)
theory Avx2_Dispatch
  imports Avx2_Wots Spx_Sign Sha2_Dispatch
begin

text \<open>
  The signer of a build with \<open>SPX_AVX2\<close>: \<open>wots_gen_leafx1\<close>, \<open>merkle_sign\<close> and \<open>fors_sign\<close> with their branch on
  \<open>spx_has_avx2 ()\<close>, and key generation and signing (\<open>merkle_gen_root\<close>, \<open>crypto_sign_seed_keypair\<close>,
  \<open>crypto_sign_signature\<close>) on top of them.  \<open>spx_has_avx2\<close> and the flag it reads are \<open>static inline\<close> functions of
  a header, so each of the three source files has a cache of its own.  Whatever the three caches hold, and however often
  they change their answer in the course of a signature, the signer returns what the scalar one returns.
\<close>

section \<open>The branches\<close>

text \<open>The build, the machine and the memory that the eight-lane code does not initialise.\<close>

record simd_env =
  sv_build :: opt_build
  sv_machine :: opt_machine
  sv_ctx0 :: sha256ctx
  sv_stk :: "nat \<Rightarrow> bytes list list"

text \<open>The static variables of \<open>fors.c\<close>, \<open>merkle.c\<close> and \<open>wotsx1.c\<close>.\<close>

record simd_caches =
  sc_fors :: opt_cache
  sc_merkle :: opt_cache
  sc_wots :: opt_cache

text \<open>The info pointer of the generator also carries the static variables.\<close>

definition wots_gen_leafx1_simd :: "simd_env \<Rightarrow> hashblocks_fn \<Rightarrow> spx_ctx \<Rightarrow> u32 \<Rightarrow> leaf_info_x1 \<times> opt_cache
    \<Rightarrow> bytes \<times> leaf_info_x1 \<times> opt_cache" where
  "wots_gen_leafx1_simd v hb ctx leaf_idx = (\<lambda>(info, c).
     let (has_avx2, c) = spx_has_avx2 (sv_build v) (sv_machine v) c;
         (dest, info) = (if has_avx2 then wots_gen_leafx1_avx2 hb (sv_ctx0 v) ctx leaf_idx info
           else wots_gen_leafx1_scalar hb ctx leaf_idx info)
     in (dest, info, c))"

definition merkle_sign_scalar_simd :: "simd_env \<Rightarrow> build_config \<Rightarrow> hashblocks_fn \<Rightarrow> bytes \<Rightarrow> bytes \<Rightarrow> spx_ctx \<Rightarrow> spx_addr
    \<Rightarrow> spx_addr \<Rightarrow> u32 \<Rightarrow> stats_ptr \<Rightarrow> opt_cache \<Rightarrow> int \<times> bytes \<times> bytes \<times> spx_addr \<times> stats_ptr \<times> opt_cache" where
  "merkle_sign_scalar_simd v cfg hb sig root ctx wots_addr tree_addr idx_leaf g c =
     (let auth_path = drop SPX_WOTS_BYTES sig;
          run = (\<lambda>wsig steps g.
            let tree_addr = set_type tree_addr SPX_ADDR_TYPE_HASHTREE;
                info = \<lparr>wots_sig = wsig, wots_sign_leaf = idx_leaf, wots_steps = steps,
                  leaf_addr = copy_subtree_addr zero_addr wots_addr,
                  pk_addr = copy_subtree_addr (set_type zero_addr SPX_ADDR_TYPE_WOTSPK) wots_addr\<rparr>;
                (root, auth_path, tree_addr, info, c) =
                  treehashx1 hb auth_path ctx idx_leaf 0 (of_nat SPX_TREE_HEIGHT)
                    (wots_gen_leafx1_simd v hb ctx) tree_addr (info, c);
                wsig = (case wots_sig info of None \<Rightarrow> take SPX_WOTS_BYTES sig | Some s \<Rightarrow> s)
            in (0, wsig @ auth_path, root, tree_addr, g, c))
      in if idx_leaf \<noteq> SPX_NO_SIGN_LEAF
         then (case chain_lengths cfg hb root g of
                 (Inl chain_result, g) \<Rightarrow> (chain_result, sig, root, tree_addr, g, c)
               | (Inr steps, g) \<Rightarrow> run (Some (take SPX_WOTS_BYTES sig)) (Some steps) g)
         else run None None g)"

definition merkle_sign_simd :: "simd_env \<Rightarrow> build_config \<Rightarrow> hashblocks_fn \<Rightarrow> bytes \<Rightarrow> bytes \<Rightarrow> spx_ctx \<Rightarrow> spx_addr
    \<Rightarrow> spx_addr \<Rightarrow> u32 \<Rightarrow> stats_ptr \<Rightarrow> simd_caches \<Rightarrow> int \<times> bytes \<times> bytes \<times> spx_addr \<times> stats_ptr \<times> simd_caches" where
  "merkle_sign_simd v cfg hb sig root ctx wots_addr tree_addr idx_leaf g cs =
     (let (has_avx2, c) = spx_has_avx2 (sv_build v) (sv_machine v) (sc_merkle cs);
          cs = cs\<lparr>sc_merkle := c\<rparr>
      in if has_avx2
         then (let (res, sig, root, tree_addr, g) =
                     merkle_sign_avx2 cfg hb (sv_ctx0 v) (sv_stk v) sig root ctx wots_addr tree_addr idx_leaf g
               in (res, sig, root, tree_addr, g, cs))
         else (let (res, sig, root, tree_addr, g, c) =
                     merkle_sign_scalar_simd v cfg hb sig root ctx wots_addr tree_addr idx_leaf g (sc_wots cs)
               in (res, sig, root, tree_addr, g, cs\<lparr>sc_wots := c\<rparr>)))"

definition merkle_gen_root_simd :: "simd_env \<Rightarrow> build_config \<Rightarrow> hashblocks_fn \<Rightarrow> bytes \<Rightarrow> spx_ctx \<Rightarrow> stats_ptr \<Rightarrow> simd_caches
    \<Rightarrow> int \<times> bytes \<times> stats_ptr \<times> simd_caches" where
  "merkle_gen_root_simd v cfg hb root ctx g cs =
     (let auth_path = replicate (SPX_TREE_HEIGHT * SPX_N + SPX_WOTS_BYTES) 0;
          top_tree_addr = set_layer_addr zero_addr (of_nat (SPX_D - 1));
          wots_addr = set_layer_addr zero_addr (of_nat (SPX_D - 1));
          (result, auth_path, root, top_tree_addr, g, cs) =
            merkle_sign_simd v cfg hb auth_path root ctx wots_addr top_tree_addr SPX_NO_SIGN_LEAF g cs
      in (result, root, g, cs))"

text \<open>The eight-lane branch leaves by \<open>goto fors_sign_done\<close> and starts no threads.\<close>

definition fors_sign_simd :: "simd_env \<Rightarrow> hashblocks_fn \<Rightarrow> fors_threads \<Rightarrow> bytes \<Rightarrow> bytes \<Rightarrow> spx_ctx \<Rightarrow> spx_addr \<Rightarrow> simd_caches
    \<Rightarrow> bytes \<times> bytes \<times> simd_caches" where
  "fors_sign_simd v hb rt sig m ctx fors_addr cs =
     (let (has_avx2, c) = spx_has_avx2 (sv_build v) (sv_machine v) (sc_fors cs);
          (sig, pk) = (if has_avx2 then fors_sign_avx2 hb (sv_ctx0 v) (sv_stk v) sig m ctx fors_addr
            else fors_sign hb rt sig m ctx fors_addr)
      in (sig, pk, cs\<lparr>sc_fors := c\<rparr>))"

section \<open>Key generation and signing\<close>

definition crypto_sign_seed_keypair_simd :: "simd_env \<Rightarrow> build_config \<Rightarrow> hashblocks_fn \<Rightarrow> bytes \<Rightarrow> bytes \<Rightarrow> bytes \<Rightarrow> tls \<Rightarrow> simd_caches
    \<Rightarrow> int \<times> bytes \<times> bytes \<times> tls \<times> simd_caches" where
  "crypto_sign_seed_keypair_simd v cfg hb pk sk seed ts cs =
     (let sk = put_bytes 0 (take CRYPTO_SEEDBYTES seed) sk;
          pk = put_bytes 0 (get_bytes (2 * SPX_N) SPX_N sk) pk;
          ctx = \<lparr>pub_seed = take SPX_N pk, sk_seed = take SPX_N sk, state_seeded = []\<rparr>;
          ctx = initialize_hash_function hb ctx;
          (res, root, g, cs) = merkle_gen_root_simd v cfg hb (get_bytes (3 * SPX_N) SPX_N sk) ctx (ts_stats ts) cs;
          sk = put_bytes (3 * SPX_N) root sk;
          ts = ts\<lparr>ts_stats := g\<rparr>
      in if res \<noteq> 0 then (-1, pk, sk, ts, cs)
         else (let pk = put_bytes SPX_N (get_bytes (3 * SPX_N) SPX_N sk) pk
               in (0, pk, sk, ts, cs)))"

fun hypertree_sign_simd :: "simd_env \<Rightarrow> build_config \<Rightarrow> hashblocks_fn \<Rightarrow> spx_ctx \<Rightarrow> nat \<Rightarrow> nat \<Rightarrow> bytes \<Rightarrow> nat \<Rightarrow> bytes \<Rightarrow> spx_addr
    \<Rightarrow> spx_addr \<Rightarrow> u64 \<Rightarrow> u32 \<Rightarrow> stats_ptr \<Rightarrow> simd_caches \<Rightarrow> int \<times> bytes \<times> bytes \<times> stats_ptr \<times> simd_caches" where
  "hypertree_sign_simd v cfg hb ctx 0 i sig off root wots_addr tree_addr tree idx_leaf g cs = (0, sig, root, g, cs)"
| "hypertree_sign_simd v cfg hb ctx (Suc n) i sig off root wots_addr tree_addr tree idx_leaf g cs =
     (let tree_addr = set_layer_addr tree_addr (of_nat i);
          tree_addr = set_tree_addr tree_addr tree;
          wots_addr = copy_subtree_addr wots_addr tree_addr;
          wots_addr = set_keypair_addr wots_addr idx_leaf;
          (merkle_result, layer_sig, root, tree_addr, g, cs) =
            merkle_sign_simd v cfg hb (get_bytes off (SPX_WOTS_BYTES + SPX_TREE_HEIGHT * SPX_N) sig) root ctx
              wots_addr tree_addr idx_leaf g cs;
          sig = put_bytes off layer_sig sig
      in if merkle_result \<noteq> 0 then (merkle_result, sig, root, g, cs)
         else hypertree_sign_simd v cfg hb ctx n (i + 1) sig (off + SPX_WOTS_BYTES + SPX_TREE_HEIGHT * SPX_N)
                root wots_addr tree_addr (drop_bit SPX_TREE_HEIGHT tree)
                (ucast (tree AND (push_bit SPX_TREE_HEIGHT 1 - 1))) g cs)"

definition crypto_sign_signature_simd :: "simd_env \<Rightarrow> build_config \<Rightarrow> hashblocks_fn \<Rightarrow> fors_threads \<Rightarrow> bytes \<Rightarrow> bytes \<Rightarrow> bytes \<Rightarrow> tls
    \<Rightarrow> simd_caches \<Rightarrow> int \<times> bytes \<times> nat \<times> tls \<times> simd_caches" where
  "crypto_sign_signature_simd v cfg hb rt sig m sk ts cs =
     (let sk_prf = drop SPX_N sk;
          pk = drop (2 * SPX_N) sk;
          ctx = \<lparr>pub_seed = take SPX_N pk, sk_seed = take SPX_N sk, state_seeded = []\<rparr>;
          ctx = initialize_hash_function hb ctx;
          wots_addr = set_type zero_addr SPX_ADDR_TYPE_WOTS;
          tree_addr = set_type zero_addr SPX_ADDR_TYPE_HASHTREE;
          r = slh_dsa_random_source_clear_failure (ts_rng ts);
          (optrand, r) = randombytes (Some (replicate SPX_N 0)) SPX_N r;
          ts = ts\<lparr>ts_rng := r\<rparr>
      in if slh_dsa_random_source_failed r then (-1, sig, 0, ts, cs)
         else
           (let r_base = gen_message_random hb sk_prf (the optrand) m;
                (found, R, g) = forsc_grind cfg hb pk m r_base r_base 0 0 (ts_stats ts);
                sig = put_bytes 0 R sig
            in case found of
                 Inl result \<Rightarrow> (result, sig, 0, ts\<lparr>ts_stats := g\<rparr>, cs)
               | Inr (mhash, tree, idx_leaf) \<Rightarrow>
                   (let wots_addr = set_tree_addr wots_addr tree;
                        wots_addr = set_keypair_addr wots_addr idx_leaf;
                        (fsig, root, cs) = fors_sign_simd v hb rt (get_bytes SPX_N SPX_FORS_BYTES sig) mhash ctx wots_addr cs;
                        sig = put_bytes SPX_N fsig sig;
                        (result, sig, root, g, cs) =
                          hypertree_sign_simd v cfg hb ctx SPX_D 0 sig (SPX_N + SPX_FORS_BYTES) root wots_addr tree_addr
                            tree idx_leaf g cs;
                        ts = ts\<lparr>ts_stats := g\<rparr>
                    in if result \<noteq> 0 then (result, sig, 0, ts, cs)
                       else (0, sig, SPX_BYTES, ts, cs))))"

section \<open>One leaf on either path\<close>

context eight_lanes
begin

text \<open>Leaf, signature and public-key address are those of the scalar generator; only the scratch fields of the leaf address may
  differ.\<close>

lemma wots_gen_leafx1_avx2_agrees:
  fixes info :: leaf_info_x1 and leaf_idx :: u32
  defines "ds \<equiv> wots_steps info \<noteq> None \<and> wots_sig info \<noteq> None \<and> wots_sign_leaf info \<noteq> SPX_NO_SIGN_LEAF \<and>
      leaf_idx = wots_sign_leaf info"
    and "R \<equiv> wots_gen_leafx1 crypto_hashblocks_sha256_ref ctx leaf_idx info"
  assumes "valid_addr (leaf_addr info)" "valid_addr (pk_addr info)"
    and "ds \<Longrightarrow> (\<forall>i<16. unat (the (wots_steps info) ! i) \<le> 255) \<and> length (the (wots_sig info)) = 256"
  shows "\<exists>la. wots_gen_leafx1_avx2 crypto_hashblocks_sha256_ref ctx0 ctx leaf_idx info = (fst R, (snd R)\<lparr>leaf_addr := la\<rparr>) \<and>
    agree_except leaf_fields la (leaf_addr (snd R))"
proof -
  let ?hb = crypto_hashblocks_sha256_ref
  have a: "agree_except leaf_fields (leaf_addr info) (leaf_addr info)" "agree_except keypair_field (pk_addr info) (pk_addr info)"
    using assms(3,4) by (simp_all add: agree_except_refl)
  have pk: "pk_addr (snd R) = set_keypair_addr (pk_addr info) leaf_idx"
    by (simp add: R_def wots_gen_leafx1_def wots_gen_leafx1_scalar_def Let_def case_prod_beta)
  obtain la' pa' where r1: "R = (wots_leaf ?hb ctx (leaf_addr info) (pk_addr info) leaf_idx,
       info\<lparr>wots_sig := (if ds then Some (wots_signature ?hb ctx (set_keypair_addr (leaf_addr info) leaf_idx)
              (the (wots_steps info))) else wots_sig info), leaf_addr := la', pk_addr := pa'\<rparr>)"
    and la': "agree_except leaf_fields la' (leaf_addr info)"
    using wots_gen_leafx1_run [OF a, of leaf_idx] assms(5) unfolding ds_def R_def by blast
  have "agree_except leaf_fields (set_keypair_addr (leaf_addr info) leaf_idx) (leaf_addr info)"
    using assms(3) by (auto simp: agree_except_def addr_nth addr_len)
  then have "agree_except leaf_fields (set_keypair_addr (leaf_addr info) leaf_idx) la'"
    using la' agree_except_sym agree_except_trans by blast
  moreover have "pa' = set_keypair_addr (pk_addr info) leaf_idx" using pk r1 by simp
  ultimately show ?thesis
    using wots_gen_leafx1_avx2_run [of info leaf_idx] assms(3,5) r1
    by (intro exI [of _ "set_keypair_addr (leaf_addr info) leaf_idx"]) (simp add: ds_def)
qed

end

section \<open>The generator of the dispatched tree\<close>

locale wots_tree_simd = avx2_calls ctx "sv_ctx0 v" "sv_stk v" + wots_tree crypto_hashblocks_sha256_ref ctx wots_addr idx steps
  for v :: simd_env and ctx :: spx_ctx and wots_addr :: spx_addr and idx :: u32 and steps :: "u32 list option"
begin

lemma gen_step_simd:
  assumes "k < 2 ^ 6" "wots_info_inv crypto_hashblocks_sha256_ref ctx wots_addr idx steps k info"
  shows "\<exists>info' c'. wots_gen_leafx1_simd v crypto_hashblocks_sha256_ref ctx (of_nat k) (info, c) =
      (subtree_leaf crypto_hashblocks_sha256_ref ctx wots_addr k, info', c') \<and>
    wots_info_inv crypto_hashblocks_sha256_ref ctx wots_addr idx steps (Suc k) info'"
proof -
  let ?R = "wots_gen_leafx1 crypto_hashblocks_sha256_ref ctx (of_nat k) info"
  obtain has c' where has: "spx_has_avx2 (sv_build v) (sv_machine v) c = (has, c')" by fastforce
  have leaf: "fst ?R = subtree_leaf crypto_hashblocks_sha256_ref ctx wots_addr k"
    and inv: "wots_info_inv crypto_hashblocks_sha256_ref ctx wots_addr idx steps (Suc k) (snd ?R)"
    using gen_step [OF assms] by simp_all
  show ?thesis
  proof (cases has)
    case True
    have v: "valid_addr (leaf_addr info)" "valid_addr (pk_addr info)"
      using assms(2) by (simp_all add: wots_info_inv_def agree_except_def)
    have d: "(\<forall>i<16. unat (the (wots_steps info) ! i) \<le> 255) \<and> length (the (wots_sig info)) = 256"
      if "wots_steps info \<noteq> None \<and> wots_sig info \<noteq> None \<and> wots_sign_leaf info \<noteq> SPX_NO_SIGN_LEAF \<and> of_nat k = wots_sign_leaf info"
      using that assms(2) digits by (auto simp: wots_info_inv_def)
    obtain la where r: "wots_gen_leafx1_avx2 crypto_hashblocks_sha256_ref (sv_ctx0 v) ctx (of_nat k) info = (fst ?R, (snd ?R)\<lparr>leaf_addr := la\<rparr>)"
      and la: "agree_except leaf_fields la (leaf_addr (snd ?R))"
      using wots_gen_leafx1_avx2_agrees [OF v, of "of_nat k"] d by blast
    have "wots_info_inv crypto_hashblocks_sha256_ref ctx wots_addr idx steps (Suc k) ((snd ?R)\<lparr>leaf_addr := la\<rparr>)"
      using inv agree_except_trans [OF la] by (cases steps) (simp_all add: wots_info_inv_def)
    then show ?thesis using True has leaf r by (simp add: wots_gen_leafx1_simd_def)
  next
    case False
    then show ?thesis
      using has leaf inv by (simp add: wots_gen_leafx1_simd_def wots_gen_leafx1_def case_prod_beta)
  qed
qed

end

sublocale wots_tree_simd \<subseteq> simd: leaf_generator crypto_hashblocks_sha256_ref ctx
    "wots_gen_leafx1_simd v crypto_hashblocks_sha256_ref ctx" "subtree_leaf crypto_hashblocks_sha256_ref ctx wots_addr"
    "\<lambda>k (info, c). wots_info_inv crypto_hashblocks_sha256_ref ctx wots_addr idx steps k info" 0 6
proof (unfold_locales, goal_cases)
  case (3 k info)
  then show ?case using gen_step_simd [of k "fst info" "snd info"] by (auto simp: case_prod_beta)
next
  case (4 k info)
  then show ?case using gen_step_simd [of k "fst info" "snd info"] by (auto simp: case_prod_beta)
qed (simp_all add: length_subtree_leaf)

context wots_tree_simd
begin

lemma run_tree_simd:
  assumes "length auth = 96" "valid_addr t"
    and "case steps of None \<Rightarrow> wsig = None | Some st \<Rightarrow> \<exists>s. wsig = Some s \<and> length s = 256"
  shows "\<exists>auth' t' info' c'. treehashx1 crypto_hashblocks_sha256_ref auth ctx idx 0 6 (wots_gen_leafx1_simd v crypto_hashblocks_sha256_ref ctx) t
      (\<lparr>wots_sig = wsig, wots_sign_leaf = idx, wots_steps = steps,
        leaf_addr = copy_subtree_addr zero_addr wots_addr,
        pk_addr = copy_subtree_addr (set_type zero_addr SPX_ADDR_TYPE_WOTSPK) wots_addr\<rparr>, c) =
      (merkle_node crypto_hashblocks_sha256_ref ctx t 0 (subtree_leaf crypto_hashblocks_sha256_ref ctx wots_addr) 6 0, auth', t', info', c') \<and>
      agree_except node_fields t' t \<and> (steps = None \<longrightarrow> wots_sig info' = None) \<and>
      (unat idx < 2 ^ 6 \<longrightarrow> auth' = auth_path_of crypto_hashblocks_sha256_ref ctx t 0 (subtree_leaf crypto_hashblocks_sha256_ref ctx wots_addr) 6 idx \<and>
        (\<forall>st. steps = Some st \<longrightarrow>
          wots_sig info' = Some (wots_signature crypto_hashblocks_sha256_ref ctx (set_keypair_addr (subtree_leaf_addr wots_addr) idx) st)))"
proof -
  let ?hb = crypto_hashblocks_sha256_ref
  let ?info = "\<lparr>wots_sig = wsig, wots_sign_leaf = idx, wots_steps = steps,
    leaf_addr = copy_subtree_addr zero_addr wots_addr,
    pk_addr = copy_subtree_addr (set_type zero_addr SPX_ADDR_TYPE_WOTSPK) wots_addr\<rparr>"
  have "case (?info, c) of (info, c) \<Rightarrow> wots_info_inv ?hb ctx wots_addr idx steps 0 info"
    using assms(3) wots_addr
    by (auto simp: wots_info_inv_def subtree_leaf_addr_def subtree_pk_addr_def agree_except_refl addr_len
        split: option.splits)
  from simd.treehashx1_correct [OF _ assms(2) this, of auth idx] assms(1)
  obtain auth' t' info' c' where "treehashx1 ?hb auth ctx idx 0 6 (wots_gen_leafx1_simd v ?hb ctx) t (?info, c) =
      (merkle_node ?hb ctx t 0 (subtree_leaf ?hb ctx wots_addr) 6 0, auth', t', info', c')"
    "agree_except node_fields t' t" and inv: "wots_info_inv ?hb ctx wots_addr idx steps (2 ^ 6) info'"
    "unat idx < 2 ^ 6 \<longrightarrow> auth' = auth_path_of ?hb ctx t 0 (subtree_leaf ?hb ctx wots_addr) 6 idx"
    by auto
  moreover have "steps = None \<longrightarrow> wots_sig info' = None"
    "\<forall>st. unat idx < 2 ^ 6 \<longrightarrow> steps = Some st \<longrightarrow>
      wots_sig info' = Some (wots_signature ?hb ctx (set_keypair_addr (subtree_leaf_addr wots_addr) idx) st)"
    using inv(1) by (auto simp: wots_info_inv_def)
  ultimately show ?thesis by blast
qed

end

section \<open>Merkle signatures on either path\<close>

locale simd_calls = avx2_calls ctx "sv_ctx0 v" "sv_stk v" for v :: simd_env and ctx :: spx_ctx
begin

lemma wots_tree_simdI:
  "wots_tree crypto_hashblocks_sha256_ref ctx wots_addr idx steps \<Longrightarrow> wots_tree_simd v ctx wots_addr idx steps"
  by (simp add: wots_tree_simd_def avx2_calls_axioms)

lemma merkle_sign_simd_ok:
  assumes "valid_addr wots_addr" "clean_tree_addr tree_addr" "length sig = 352" "unat idx < 2 ^ 6"
    and "chain_lengths cfg crypto_hashblocks_sha256_ref root g = (Inr steps, g')"
  shows "\<exists>t cs'. merkle_sign_simd v cfg crypto_hashblocks_sha256_ref sig root ctx wots_addr tree_addr idx g cs =
      (0, subtree_sig crypto_hashblocks_sha256_ref ctx wots_addr tree_addr steps idx,
       subtree_root crypto_hashblocks_sha256_ref ctx wots_addr tree_addr, t, g', cs') \<and>
    (t = tree_addr \<or> agree_except node_fields t (set_type tree_addr SPX_ADDR_TYPE_HASHTREE))"
proof -
  let ?hb = crypto_hashblocks_sha256_ref
  have vt: "valid_addr tree_addr" using assms(2) by (simp add: clean_tree_addr_def agree_except_def)
  have idx: "idx \<noteq> SPX_NO_SIGN_LEAF"
    using assms(4) by (auto simp: SPX_NO_SIGN_LEAF_def unsigned_minus_1_eq_mask mask_eq_exp_minus_1)
  obtain has c where has: "spx_has_avx2 (sv_build v) (sv_machine v) (sc_merkle cs) = (has, c)" by fastforce
  show ?thesis
  proof (cases has)
    case True
    obtain t where "merkle_sign cfg ?hb sig root ctx wots_addr tree_addr idx g =
        (0, subtree_sig ?hb ctx wots_addr tree_addr steps idx, subtree_root ?hb ctx wots_addr tree_addr, t, g')"
      using merkle_sign_ok [OF assms(1) vt assms(3-5)] by blast
    from merkle_sign_avx2_eq [OF assms(1-4) this] True has show ?thesis by (simp add: merkle_sign_simd_def)
  next
    case False
    have "wots_tree_simd v ctx wots_addr idx (Some steps)"
      using assms(1,5) idx by (intro wots_tree_simdI wots_tree_signing [where root = root and g = g and cfg = cfg]) auto
    from wots_tree_simd.run_tree_simd [OF this, of "drop 256 sig" "set_type tree_addr SPX_ADDR_TYPE_HASHTREE"
        "Some (take 256 sig)" "sc_wots cs"] assms(3-5) idx vt False has
    show ?thesis
      by (auto simp: merkle_sign_simd_def merkle_sign_scalar_simd_def subtree_sig_def subtree_root_def addr_len Let_def)
  qed
qed

lemma merkle_sign_simd_fail:
  assumes "chain_lengths cfg crypto_hashblocks_sha256_ref root g = (Inl e, g')" "idx \<noteq> SPX_NO_SIGN_LEAF"
  shows "\<exists>cs'. merkle_sign_simd v cfg crypto_hashblocks_sha256_ref sig root ctx wots_addr tree_addr idx g cs = (e, sig, root, tree_addr, g', cs')"
  using assms by (simp add: merkle_sign_simd_def merkle_sign_scalar_simd_def merkle_sign_avx2_def Let_def split: prod.split)

lemma merkle_gen_root_simd_eq:
  "\<exists>cs'. merkle_gen_root_simd v cfg crypto_hashblocks_sha256_ref root ctx g cs =
    (case merkle_gen_root cfg crypto_hashblocks_sha256_ref root ctx g of (res, root, g) \<Rightarrow> (res, root, g, cs'))"
proof -
  let ?hb = crypto_hashblocks_sha256_ref and ?w = "set_layer_addr zero_addr (of_nat (SPX_D - 1))"
  obtain has c where has: "spx_has_avx2 (sv_build v) (sv_machine v) (sc_merkle cs) = (has, c)" by fastforce
  obtain rc root' g' where m: "merkle_gen_root cfg ?hb root ctx g = (rc, root', g')" by (metis prod_cases3)
  show ?thesis
  proof (cases has)
    case True
    from merkle_gen_root_avx2 [OF m, of "replicate 352 0"] True has m show ?thesis
      by (auto simp: merkle_gen_root_simd_def merkle_sign_simd_def)
  next
    case False
    have "valid_addr (set_layer_addr zero_addr 4)" by (simp add: addr_len)
    then have "wots_tree_simd v ctx (set_layer_addr zero_addr 4) SPX_NO_SIGN_LEAF None"
      by (intro wots_tree_simdI wots_tree_silent)
    from wots_tree_simd.run_tree_simd [OF this, of "replicate 96 0" "set_type (set_layer_addr zero_addr 4) SPX_ADDR_TYPE_HASHTREE" None "sc_wots cs"]
      False has merkle_gen_root_ok [of cfg root g]
    show ?thesis
      by (auto simp: merkle_gen_root_simd_def merkle_sign_simd_def merkle_sign_scalar_simd_def subtree_root_def addr_len Let_def)
  qed
qed

lemma fors_sign_simd_eq:
  assumes "valid_addr fors_addr" "joins_all rt" "length sig = 1904"
  shows "\<exists>cs'. fors_sign_simd v crypto_hashblocks_sha256_ref rt sig m ctx fors_addr cs =
    (fst (fors_sign crypto_hashblocks_sha256_ref rt sig m ctx fors_addr),
     snd (fors_sign crypto_hashblocks_sha256_ref rt sig m ctx fors_addr), cs')"
  using fors_sign_avx2_eq [OF assms] by (simp add: fors_sign_simd_def case_prod_beta)

section \<open>The hypertree on either path\<close>

lemma clean_layer_addr: "tree_addr_ok t \<Longrightarrow> clean_tree_addr (set_tree_addr (set_layer_addr t l) tree)"
  by (auto simp: clean_tree_addr_def agree_except_def addr_nth addr_len)

lemma layer_sign_step_simd:
  fixes tree :: u64 and i :: nat
  assumes "wots_addr_ok w" "tree_addr_ok t" "unat idx < 2 ^ 6" "length s = 352"
    and "chain_lengths cfg crypto_hashblocks_sha256_ref root g = (Inr steps, g')"
  defines "T \<equiv> set_tree_addr (set_layer_addr t (of_nat i)) tree"
  shows "\<exists>t' cs'. merkle_sign_simd v cfg crypto_hashblocks_sha256_ref s root ctx (set_keypair_addr (copy_subtree_addr w T) idx) T idx g cs =
      (0, layer_sig crypto_hashblocks_sha256_ref ctx i tree steps idx, layer_root crypto_hashblocks_sha256_ref ctx i tree, t', g', cs') \<and>
    tree_addr_ok t'"
proof -
  let ?hb = crypto_hashblocks_sha256_ref
  note T = layer_tree_addr [where i = i and tree = tree, OF assms(2), folded T_def]
  note W = layer_wots_addr [where idx = idx, OF assms(1) T(3,4)]
  have cl: "clean_tree_addr T" unfolding T_def by (rule clean_layer_addr [OF assms(2)])
  obtain t' cs' where m: "merkle_sign_simd v cfg ?hb s root ctx (set_keypair_addr (copy_subtree_addr w T) idx) T idx g cs =
      (0, subtree_sig ?hb ctx (set_keypair_addr (copy_subtree_addr w T) idx) T steps idx,
       subtree_root ?hb ctx (set_keypair_addr (copy_subtree_addr w T) idx) T, t', g', cs')"
    and t': "t' = T \<or> agree_except node_fields t' (set_type T SPX_ADDR_TYPE_HASHTREE)"
    using merkle_sign_simd_ok [OF W(1) cl assms(4,3,5)] by blast
  have "tree_addr_ok t'"
    using t' T(1) agree_except_trans [OF _ T(2)] layer_tree_addr_next by blast
  with m show ?thesis by (simp only: layer_cong [OF W(2,3) T(2)]) simp
qed

text \<open>The two runs may hold different tree addresses, as long as both leave the fields alone that the next layer does not set.\<close>

lemma hypertree_sign_simd_eq:
  assumes "wots_addr_ok w" "tree_addr_ok t" "tree_addr_ok t'" "unat idx < 2 ^ 6" "off + 352 * n \<le> length sig"
  shows "\<exists>cs'. hypertree_sign_simd v cfg crypto_hashblocks_sha256_ref ctx n i sig off root w t' tree idx g cs =
    (case hypertree_sign cfg crypto_hashblocks_sha256_ref ctx n i sig off root w t tree idx g of (res, sig, root, g) \<Rightarrow> (res, sig, root, g, cs'))"
  using assms
proof (induction n arbitrary: i sig off root w t t' tree idx g cs)
  case (Suc n)
  let ?hb = crypto_hashblocks_sha256_ref
  define T where "T = set_tree_addr (set_layer_addr t (of_nat i)) tree"
  define T' where "T' = set_tree_addr (set_layer_addr t' (of_nat i)) tree"
  define W where "W = set_keypair_addr (copy_subtree_addr w T) idx"
  have W': "set_keypair_addr (copy_subtree_addr w T') idx = W"
    using Suc.prems(1-3) unfolding W_def T_def T'_def
    by (intro addr_eqI) (auto simp: agree_except_def addr_nth addr_len)
  have len: "length (get_bytes off 352 sig) = 352" using Suc.prems(5) by simp
  have idx: "idx \<noteq> SPX_NO_SIGN_LEAF"
    using Suc.prems(4) by (auto simp: SPX_NO_SIGN_LEAF_def unsigned_minus_1_eq_mask mask_eq_exp_minus_1)
  have sz: "SPX_WOTS_BYTES + SPX_TREE_HEIGHT * SPX_N = 352" by simp
  show ?case
  proof (cases "chain_lengths cfg ?hb root g")
    case (Pair r g1)
    show ?thesis
    proof (cases r)
      case (Inl e)
      then have "e \<noteq> 0" using Pair chain_lengths_error [of cfg ?hb root g e g1] by simp
      moreover have "merkle_sign cfg ?hb (get_bytes off 352 sig) root ctx W T idx g = (e, get_bytes off 352 sig, root, T, g1)"
        by (rule merkle_sign_fail [OF Pair [unfolded Inl] idx])
      moreover obtain cs' where "merkle_sign_simd v cfg ?hb (get_bytes off 352 sig) root ctx W T' idx g cs = (e, get_bytes off 352 sig, root, T', g1, cs')"
        using merkle_sign_simd_fail [OF Pair [unfolded Inl] idx] by blast
      ultimately show ?thesis
        unfolding hypertree_sign.simps hypertree_sign_simd.simps Let_def sz T_def [symmetric] W_def [symmetric] T'_def [symmetric] W' by simp
    next
      case (Inr steps)
      let ?sig = "put_bytes off (layer_sig ?hb ctx i tree steps idx) sig"
      obtain t1 where m: "merkle_sign cfg ?hb (get_bytes off 352 sig) root ctx W T idx g =
          (0, layer_sig ?hb ctx i tree steps idx, layer_root ?hb ctx i tree, t1, g1)" and t1: "tree_addr_ok t1"
        using layer_sign_step [OF Suc.prems(1,2,4) len Pair [unfolded Inr]] unfolding W_def T_def by blast
      obtain t2 cs1 where m': "merkle_sign_simd v cfg ?hb (get_bytes off 352 sig) root ctx W T' idx g cs =
          (0, layer_sig ?hb ctx i tree steps idx, layer_root ?hb ctx i tree, t2, g1, cs1)" and t2: "tree_addr_ok t2"
        using layer_sign_step_simd [OF Suc.prems(1,3,4) len Pair [unfolded Inr], of i tree] unfolding T'_def [symmetric] W' by blast
      have W: "wots_addr_ok W"
        using layer_wots_addr(4) [OF Suc.prems(1) layer_tree_addr(3,4) [OF Suc.prems(2)]] unfolding W_def T_def .
      have "off + 352 + 352 * n \<le> length ?sig" using Suc.prems(5) by (simp add: length_layer_sig)
      note IH = Suc.IH [OF W t1 t2 next_leaf_less this, where cs = cs1 and g = g1]
      show ?thesis
        unfolding hypertree_sign.simps hypertree_sign_simd.simps Let_def sz add.assoc T_def [symmetric] W_def [symmetric]
          T'_def [symmetric] W' m m' prod.case
        using IH by (simp add: add.assoc)
    qed
  qed
qed simp

end

section \<open>Key generation and signing on either path\<close>

text \<open>The uninitialised memory has its size; nothing is assumed of its contents.\<close>

definition simd_memory :: "simd_env \<Rightarrow> bool" where
  "simd_memory v \<longleftrightarrow> length (sx_msgblocks (sv_ctx0 v)) = 512 \<and>
     (\<forall>th. length (sv_stk v th) = th \<and> (\<forall>h<th. lens8 (sv_stk v th ! h)))"

lemma simd_callsI:
  assumes "simd_memory v" "length (pub_seed c) = 16" "length (sk_seed c) = 16"
  shows "simd_calls v (initialize_hash_function crypto_hashblocks_sha256_ref c)"
proof -
  have "sk_seed (initialize_hash_function crypto_hashblocks_sha256_ref c) = sk_seed c"
    by (simp add: initialize_hash_function_def seed_state_def)
  moreover have "ctx_seeded crypto_hashblocks_sha256_ref (initialize_hash_function crypto_hashblocks_sha256_ref c)"
    using assms(2) by (rule ref256.ctx_seeded_init)
  ultimately show ?thesis
    using assms by unfold_locales (auto simp: simd_memory_def)
qed

theorem crypto_sign_seed_keypair_simd_eq:
  assumes "simd_memory v" "length pk = 32" "length sk = 64" "length seed = 48"
  shows "\<exists>cs'. crypto_sign_seed_keypair_simd v cfg crypto_hashblocks_sha256_ref pk sk seed ts cs =
    (case crypto_sign_seed_keypair cfg crypto_hashblocks_sha256_ref pk sk seed ts of (res, pk, sk, ts) \<Rightarrow> (res, pk, sk, ts, cs'))"
proof -
  let ?hb = crypto_hashblocks_sha256_ref
  define sk1 where "sk1 = put_bytes 0 (take CRYPTO_SEEDBYTES seed) sk"
  define pk1 where "pk1 = put_bytes 0 (get_bytes (2 * SPX_N) SPX_N sk1) pk"
  define c where "c = initialize_hash_function ?hb \<lparr>pub_seed = take SPX_N pk1, sk_seed = take SPX_N sk1, state_seeded = []\<rparr>"
  have "length sk1 = 64" "length pk1 = 32" using assms by (simp_all add: sk1_def pk1_def)
  then have "simd_calls v c" unfolding c_def by (intro simd_callsI [OF assms(1)]) simp_all
  from simd_calls.merkle_gen_root_simd_eq [OF this, of cfg "get_bytes (3 * SPX_N) SPX_N sk1" "ts_stats ts" cs]
  obtain cs' where "merkle_gen_root_simd v cfg ?hb (get_bytes (3 * SPX_N) SPX_N sk1) c (ts_stats ts) cs =
    (case merkle_gen_root cfg ?hb (get_bytes (3 * SPX_N) SPX_N sk1) c (ts_stats ts) of (res, root, g) \<Rightarrow> (res, root, g, cs'))" by blast
  then show ?thesis
    unfolding crypto_sign_seed_keypair_simd_def crypto_sign_seed_keypair_def Let_def sk1_def [symmetric] pk1_def [symmetric] c_def [symmetric]
    by (simp add: case_prod_beta)
qed

theorem crypto_sign_signature_simd_eq:
  assumes "simd_memory v" "length sk = 64" "valid_config cfg" "joins_all rt" "length sig = 3680"
  shows "\<exists>cs'. crypto_sign_signature_simd v cfg crypto_hashblocks_sha256_ref rt sig m sk ts cs =
    (case crypto_sign_signature cfg crypto_hashblocks_sha256_ref rt sig m sk ts of (res, sig, len, ts) \<Rightarrow> (res, sig, len, ts, cs'))"
proof -
  let ?hb = crypto_hashblocks_sha256_ref and ?pk = "drop (2 * SPX_N) sk"
  define c where "c = initialize_hash_function ?hb \<lparr>pub_seed = take SPX_N ?pk, sk_seed = take SPX_N sk, state_seeded = []\<rparr>"
  have sc: "simd_calls v c" unfolding c_def using assms(2) by (intro simd_callsI [OF assms(1)]) simp_all
  then have sd: "seeded ?hb c" by (simp add: simd_calls_def avx2_calls_def eight_lanes_def)
  obtain optrand r where rnd: "randombytes (Some (replicate SPX_N 0)) SPX_N (slh_dsa_random_source_clear_failure (ts_rng ts)) = (optrand, r)"
    by fastforce
  define rb where "rb = gen_message_random ?hb (drop SPX_N sk) (the optrand) m"
  have lr: "length (forsc_tweak rb k) = 16" for k by (simp add: rb_def ref256.length_gen_message_random)
  have M: "0 < FORSC_MAX_GRIND_ATTEMPTS cfg" using assms(3) by (auto simp: valid_config_def word_gt_0)
  have st: "ts_stats (ts\<lparr>ts_rng := r\<rparr>) = ts_stats ts" by simp
  note defs = crypto_sign_signature_simd_def crypto_sign_signature_def Let_def rnd prod.case c_def [symmetric] rb_def [symmetric]
  show ?thesis
  proof (rule forsc_grind_cases [OF M, of ?hb ?pk m rb], goal_cases)
    case (1 k)
    obtain mhash tree idx where hm: "hash_message ?hb (forsc_tweak rb k) ?pk m = (mhash, tree, idx)" by (metis prod_cases3)
    define sig1 where "sig1 = put_bytes 0 (forsc_tweak rb k) sig"
    define w where "w = set_keypair_addr (set_tree_addr (set_type zero_addr SPX_ADDR_TYPE_WOTS) tree) idx"
    have w: "valid_addr w" "wots_addr_ok w" "tree_addr_ok (set_type zero_addr SPX_ADDR_TYPE_HASHTREE)"
      by (auto simp: w_def agree_except_def addr_nth addr_len)
    have l: "length (get_bytes SPX_N SPX_FORS_BYTES sig1) = 1904" "length sig1 = 3680" using lr [of k] assms(5) by (simp_all add: sig1_def)
    obtain fsig root where f: "fors_sign ?hb rt (get_bytes SPX_N SPX_FORS_BYTES sig1) mhash c w = (fsig, root)" by fastforce
    have lf: "length fsig = 1904"
      using seeded.fors_sign_correct [OF sd w(1) assms(4) l(1), of mhash] seeded.length_fors_sig [OF sd] f by auto
    obtain cs1 where f': "fors_sign_simd v ?hb rt (get_bytes SPX_N SPX_FORS_BYTES sig1) mhash c w cs = (fsig, root, cs1)"
      using simd_calls.fors_sign_simd_eq [OF sc w(1) assms(4) l(1), of mhash cs] f by auto
    have "unat idx < 2 ^ 6" using hash_message_bounds [OF hm] by simp
    moreover have "1920 + 352 * 5 \<le> length (put_bytes 16 fsig sig1)" using l(2) lf by simp
    ultimately obtain cs2 where h: "hypertree_sign_simd v cfg ?hb c 5 0 (put_bytes 16 fsig sig1) 1920 root w (set_type zero_addr SPX_ADDR_TYPE_HASHTREE)
        tree idx (bitcoin_pqc_sign_stats_record_forsc_attempts (k + 1) (ts_stats ts)) cs1 =
      (case hypertree_sign cfg ?hb c 5 0 (put_bytes 16 fsig sig1) 1920 root w (set_type zero_addr SPX_ADDR_TYPE_HASHTREE)
        tree idx (bitcoin_pqc_sign_stats_record_forsc_attempts (k + 1) (ts_stats ts)) of (res, sig, root, g) \<Rightarrow> (res, sig, root, g, cs2))"
      using simd_calls.hypertree_sign_simd_eq [OF sc w(2,3,3)] by blast
    have sz: "SPX_D = 5" "SPX_N + SPX_FORS_BYTES = 1920" by simp_all
    have gr: "forsc_grind cfg ?hb ?pk m rb rb 0 0 (ts_stats ts) = (Inr (mhash, tree, idx), forsc_tweak rb k,
        bitcoin_pqc_sign_stats_record_forsc_attempts (k + 1) (ts_stats ts))"
      using 1(5) [of "ts_stats ts"] unfolding forsc_tweak_0 hm .
    show ?case
      unfolding defs st
      unfolding gr prod.case sum.case sig1_def [symmetric] w_def [symmetric] f f' sz
      using h by (simp add: case_prod_beta)
  next
    case 2
    have "forsc_grind cfg ?hb ?pk m rb rb 0 0 (ts_stats ts) =
      (Inl BITCOINPQC_SIGN_LIMIT_EXCEEDED, forsc_tweak rb (FORSC_MAX_GRIND_ATTEMPTS cfg - 1),
         bitcoin_pqc_sign_stats_record_forsc_cap (bitcoin_pqc_sign_stats_record_forsc_attempts (FORSC_MAX_GRIND_ATTEMPTS cfg) (ts_stats ts)))"
      using 2(2) [of "ts_stats ts"] by (simp add: forsc_tweak_0)
    then show ?case unfolding defs st by simp
  qed
qed

end
