(* ===== verification/Avx2_Params.thy ===== *)
theory Avx2_Params
  imports Spx_Params
begin

text \<open>
  The second copy of the parameter set.  The files of \<open>sphincsplus/sha2-avx2/\<close> include the \<open>params.h\<close> of their own
  directory, and with it \<open>sha2-avx2/params/params-sphincs-sha2-128s-bounded30.h\<close>, while the rest of the library
  is compiled with the header that \<open>Spx_Params\<close> models.  Here the second header is a function of its six choices, with
  its conditionals and \<open>#error\<close> lines; the theorem is that at its choices it gives the sizes of the first.
\<close>

section \<open>The header\<close>

record spx_params =
  pp_N :: nat
  pp_FULL_HEIGHT :: nat
  pp_D :: nat
  pp_FORS_HEIGHT :: nat
  pp_FORS_TREES :: nat
  pp_WOTS_W :: nat
  pp_SHA512 :: nat
  pp_ADDR_BYTES :: nat
  pp_WOTS_LOGW :: nat
  pp_WOTS_LEN1 :: nat
  pp_WOTS_LEN2 :: nat
  pp_WOTSC_TARGET :: nat
  pp_WOTS_LEN :: nat
  pp_WOTS_BYTES :: nat
  pp_WOTS_PK_BYTES :: nat
  pp_TREE_HEIGHT :: nat
  pp_FORS_MSG_BYTES :: nat
  pp_FORS_SIG_TREES :: nat
  pp_FORS_BYTES :: nat
  pp_FORS_PK_BYTES :: nat
  pp_BYTES :: nat
  pp_PK_BYTES :: nat
  pp_SK_BYTES :: nat

text \<open>\<open>None\<close> is an \<open>#error\<close>.\<close>

definition header_wots_logw :: "nat \<Rightarrow> nat option" where
  "header_wots_logw w = (if w = 256 then Some 8 else if w = 16 then Some 4 else None)"

definition header_wots_len2 :: "nat \<Rightarrow> nat \<Rightarrow> nat option" where
  "header_wots_len2 w n =
     (if w = 256 then (if n \<le> 1 then Some 1 else if n \<le> 256 then Some 2 else None)
      else if w = 16 then (if n \<le> 8 then Some 2 else if n \<le> 136 then Some 3 else if n \<le> 256 then Some 4 else None)
      else None)"

definition header_params :: "nat \<Rightarrow> nat \<Rightarrow> nat \<Rightarrow> nat \<Rightarrow> nat \<Rightarrow> nat \<Rightarrow> spx_params option" where
  "header_params n full_height d fors_height fors_trees w =
     (case (header_wots_logw w, header_wots_len2 w n) of
        (Some logw, Some len2) \<Rightarrow>
          (let len1 = 8 * n div logw;
               wots_bytes = len1 * n;
               tree_height = full_height div d;
               sig_trees = fors_trees - 1;
               fors_bytes = (fors_height + 1) * sig_trees * n;
               pk_bytes = 2 * n
           in if tree_height * d \<noteq> full_height then None
              else Some \<lparr>pp_N = n, pp_FULL_HEIGHT = full_height, pp_D = d, pp_FORS_HEIGHT = fors_height,
                pp_FORS_TREES = fors_trees, pp_WOTS_W = w, pp_SHA512 = 0, pp_ADDR_BYTES = 32, pp_WOTS_LOGW = logw,
                pp_WOTS_LEN1 = len1, pp_WOTS_LEN2 = len2, pp_WOTSC_TARGET = ((w - 1) * len1) div 2,
                pp_WOTS_LEN = len1, pp_WOTS_BYTES = wots_bytes, pp_WOTS_PK_BYTES = wots_bytes, pp_TREE_HEIGHT = tree_height,
                pp_FORS_MSG_BYTES = (fors_height * fors_trees + 7) div 8, pp_FORS_SIG_TREES = sig_trees,
                pp_FORS_BYTES = fors_bytes, pp_FORS_PK_BYTES = n,
                pp_BYTES = n + fors_bytes + d * wots_bytes + full_height * n,
                pp_PK_BYTES = pk_bytes, pp_SK_BYTES = 2 * n + pk_bytes\<rparr>)
      | _ \<Rightarrow> None)"

definition avx2_params :: "spx_params option" where
  "avx2_params = header_params 16 30 5 16 8 256"

section \<open>Both headers give the same sizes\<close>

definition ref_params :: spx_params where
  "ref_params = \<lparr>pp_N = SPX_N, pp_FULL_HEIGHT = SPX_FULL_HEIGHT, pp_D = SPX_D, pp_FORS_HEIGHT = SPX_FORS_HEIGHT,
     pp_FORS_TREES = SPX_FORS_TREES, pp_WOTS_W = SPX_WOTS_W, pp_SHA512 = 0, pp_ADDR_BYTES = SPX_ADDR_BYTES, pp_WOTS_LOGW = SPX_WOTS_LOGW,
     pp_WOTS_LEN1 = SPX_WOTS_LEN1, pp_WOTS_LEN2 = SPX_WOTS_LEN2, pp_WOTSC_TARGET = SPX_WOTSC_TARGET,
     pp_WOTS_LEN = SPX_WOTS_LEN, pp_WOTS_BYTES = SPX_WOTS_BYTES, pp_WOTS_PK_BYTES = SPX_WOTS_PK_BYTES, pp_TREE_HEIGHT = SPX_TREE_HEIGHT,
     pp_FORS_MSG_BYTES = SPX_FORS_MSG_BYTES, pp_FORS_SIG_TREES = SPX_FORS_SIG_TREES, pp_FORS_BYTES = SPX_FORS_BYTES, pp_FORS_PK_BYTES = SPX_N,
     pp_BYTES = SPX_BYTES, pp_PK_BYTES = SPX_PK_BYTES, pp_SK_BYTES = SPX_SK_BYTES\<rparr>"

theorem avx2_params_agree: "avx2_params = Some ref_params"
  by (simp add: avx2_params_def header_params_def header_wots_logw_def header_wots_len2_def ref_params_def)

text \<open>The two consistency rules of any set that the header accepts: the subtrees fill the hypertree, and the FORS digest has a bit for
  every index.\<close>

lemma header_params_sound:
  assumes "header_params n full_height d fors_height fors_trees w = Some p"
  shows "pp_TREE_HEIGHT p * pp_D p = pp_FULL_HEIGHT p" "pp_FORS_HEIGHT p * pp_FORS_TREES p \<le> 8 * pp_FORS_MSG_BYTES p"
    "pp_WOTS_W p = 2 ^ pp_WOTS_LOGW p"
  using assms
  by (auto simp: header_params_def header_wots_logw_def Let_def split: option.splits if_splits)

end
