(* ===== verification/Avx2_Properties.thy ===== *)
theory Avx2_Properties
  imports Avx2_Dispatch Avx2_Params Sample_Backend
begin

text \<open>
  Properties of the eight-lane path and of the signer that branches to it: with the reference block function it computes what the scalar path computes, for every
  content of the memory the code does not initialise.
\<close>

section \<open>Eight-lane calls in a seeded context\<close>

definition avx2_ready :: "spx_ctx \<Rightarrow> sha256ctx \<Rightarrow> (nat \<Rightarrow> bytes list list) \<Rightarrow> bool" where
  "avx2_ready ctx ctx0 stk \<longleftrightarrow> ctx_seeded crypto_hashblocks_sha256_ref ctx \<and> length (sk_seed ctx) = 16 \<and>
     length (sx_msgblocks ctx0) = 512 \<and> (\<forall>th. length (stk th) = th \<and> (\<forall>h<th. lens8 (stk th ! h)))"

lemma avx2_callsI: "avx2_ready ctx ctx0 stk \<Longrightarrow> avx2_calls ctx ctx0 stk"
  by (simp add: avx2_ready_def avx2_calls_def avx2_calls_axioms_def eight_lanes_def eight_lanes_axioms_def seeded_def
      seeded_axioms_def ref256.sha256_backend_axioms)

text \<open>A context and memory in which all the code below can run.\<close>

definition sample_ctx0 :: sha256ctx where
  "sample_ctx0 = \<lparr>sx_s = [], sx_msgblocks = replicate 512 0, sx_datalen = 0, sx_msglen = 0\<rparr>"

definition sample_stk :: "nat \<Rightarrow> bytes list list" where
  "sample_stk th = replicate th (replicate 8 (replicate 16 0))"

lemma sample_ready: "avx2_ready (ref_ctx w (seed_bytes v)) sample_ctx0 sample_stk"
  using ref_seeded.seeded [of w "seed_bytes v"]
  by (simp add: avx2_ready_def sample_ctx0_def sample_stk_def lens8_def ref_ctx_def initialize_hash_function_def seed_state_def)

interpretation ref_avx2: avx2_calls "ref_ctx w (seed_bytes v)" sample_ctx0 sample_stk for w v
  by (rule avx2_callsI) (rule sample_ready)

interpretation ref_fors8: fors_tree8 "ref_ctx w (seed_bytes v)" sample_ctx0 sample_stk zero_addr t for w v t
  by unfold_locales (simp add: addr_len)

interpretation ref_wots8: wots_tree8 "ref_ctx w (seed_bytes v)" sample_ctx0 sample_stk zero_addr SPX_NO_SIGN_LEAF None for w v
  by unfold_locales (simp_all add: addr_len)

text \<open>A machine with AVX2, and the three caches at start.\<close>

definition sample_simd :: simd_env where
  "sample_simd = \<lparr>sv_build = \<lparr>ob_production = False, ob_knobs = False, ob_arm_sha = False, ob_commoncrypto = False,
       ob_sha256_intrinsics = False, ob_sha512_intrinsics = False, ob_avx2 = True\<rparr>,
     sv_machine = \<lparr>om_getenv = (\<lambda>_. None), om_cpuid = (\<lambda>_ _. (0, 0, 0, 0)), om_xgetbv0 = 0, om_avx2 = True\<rparr>,
     sv_ctx0 = sample_ctx0, sv_stk = sample_stk\<rparr>"

definition sample_caches :: simd_caches where
  "sample_caches = \<lparr>sc_fors = opt_cache_init, sc_merkle = opt_cache_init, sc_wots = opt_cache_init\<rparr>"

lemma sample_simd_memory: "simd_memory sample_simd"
  by (simp add: simd_memory_def sample_simd_def sample_ctx0_def sample_stk_def lens8_def)

interpretation ref_simd: simd_calls sample_simd "ref_ctx w (seed_bytes v)" for w v
  using avx2_callsI [OF sample_ready] by (simp add: simd_calls_def sample_simd_def)

interpretation ref_wots_simd: wots_tree_simd sample_simd "ref_ctx w (seed_bytes v)" zero_addr SPX_NO_SIGN_LEAF None for w v
  by (rule ref_simd.wots_tree_simdI) (rule ref_wots8.wots_tree_axioms)

section \<open>The hash functions\<close>

text \<open>C37. The eight-lane hash functions are eight scalar ones: \<open>prf_addrx8\<close> and \<open>thashx8\<close>, which transpose eight messages into
  256-bit registers, run the vectorised compression and transpose back, return lane by lane what \<open>prf_addr\<close> and \<open>thash\<close> return with
  the reference block function, for any number of input blocks.\<close>

theorem eight_lane_hashes:
  assumes "avx2_ready ctx ctx0 stk" "length addrs = 8" "\<And>j. j < 8 \<Longrightarrow> valid_addr (addrs ! j)"
    and "\<And>j. j < 8 \<Longrightarrow> inblocks * SPX_N \<le> length (ins ! j)"
  shows "thashx8 ctx0 ins inblocks ctx addrs =
      map (\<lambda>j. thash crypto_hashblocks_sha256_ref (ins ! j) inblocks ctx (addrs ! j)) [0..<8] \<and>
    prf_addrx8 ctx0 ctx addrs = map (\<lambda>j. prf_addr crypto_hashblocks_sha256_ref ctx (addrs ! j)) [0..<8]"
proof -
  have l: "eight_lanes ctx ctx0" using avx2_callsI [OF assms(1)] by (simp add: avx2_calls_def)
  show ?thesis
    using eight_lanes.thashx8_lanes [OF l assms(2,3)] eight_lanes.prf_addrx8_lanes [OF l assms(2,3)] assms(4) by simp
qed

theorem eight_lane_hashes_witness:
  "thashx8 sample_ctx0 (replicate 8 (replicate 32 5)) 2 (ref_ctx 1 (seed_bytes 2)) (replicate 8 zero_addr) =
    map (\<lambda>j. thash crypto_hashblocks_sha256_ref (replicate 8 (replicate 32 5) ! j) 2 (ref_ctx 1 (seed_bytes 2)) (replicate 8 zero_addr ! j)) [0..<8]"
  using eight_lane_hashes [OF sample_ready, of "replicate 8 zero_addr" 2 "replicate 8 (replicate 32 5)" 1 2]
  by (simp add: addr_len del: upt_Suc upt_rec_numeral)

section \<open>The signer\<close>

text \<open>C38. The signatures of the eight-lane path are the scalar ones.  \<open>fors_sign_avx2\<close>, which builds the seven trees with
  \<open>treehashx8\<close> and \<open>fors_gen_leafx8\<close>, returns the signature and public key of \<open>fors_sign\<close> with any worker pool; for a leaf of the tree,
  \<open>merkle_sign_avx2\<close> returns the code, the signature, the root and the statistics of \<open>merkle_sign\<close>, and without a leaf it computes the root
  of \<open>merkle_gen_root\<close>.  It leaves the caller's tree address alone.\<close>

theorem avx2_signatures:
  assumes "avx2_ready ctx ctx0 stk" "valid_addr wots_addr" "joins_all rt" "length fsig = SPX_FORS_BYTES"
    and "clean_tree_addr tree_addr" "length sig = 352" "unat idx < 2 ^ SPX_TREE_HEIGHT"
    and "merkle_sign cfg crypto_hashblocks_sha256_ref sig root ctx wots_addr tree_addr idx g = (rc, sig', root', t, g')"
    and "merkle_gen_root cfg crypto_hashblocks_sha256_ref root ctx g = (rc0, root0, g0)"
    and "top_addr = set_layer_addr zero_addr (of_nat (SPX_D - 1))"
  shows "fors_sign_avx2 crypto_hashblocks_sha256_ref ctx0 stk fsig m ctx wots_addr = fors_sign crypto_hashblocks_sha256_ref rt fsig m ctx wots_addr \<and>
    merkle_sign_avx2 cfg crypto_hashblocks_sha256_ref ctx0 stk sig root ctx wots_addr tree_addr idx g = (rc, sig', root', tree_addr, g') \<and>
    (\<exists>auth. merkle_sign_avx2 cfg crypto_hashblocks_sha256_ref ctx0 stk sig root ctx top_addr top_addr SPX_NO_SIGN_LEAF g = (rc0, auth, root0, top_addr, g0))"
proof (intro conjI)
  note a = avx2_callsI [OF assms(1)]
  show "fors_sign_avx2 crypto_hashblocks_sha256_ref ctx0 stk fsig m ctx wots_addr = fors_sign crypto_hashblocks_sha256_ref rt fsig m ctx wots_addr"
    using avx2_calls.fors_sign_avx2_eq [OF a assms(2,3)] assms(4) by simp
  show "merkle_sign_avx2 cfg crypto_hashblocks_sha256_ref ctx0 stk sig root ctx wots_addr tree_addr idx g = (rc, sig', root', tree_addr, g')"
    using avx2_calls.merkle_sign_avx2_eq [OF a assms(2,5,6) _ assms(8)] assms(7) by simp
  show "\<exists>auth. merkle_sign_avx2 cfg crypto_hashblocks_sha256_ref ctx0 stk sig root ctx top_addr top_addr SPX_NO_SIGN_LEAF g = (rc0, auth, root0, top_addr, g0)"
    using avx2_calls.merkle_gen_root_avx2 [OF a assms(9,6)] assms(10) by simp
qed

theorem avx2_signatures_witness:
  "fors_sign_avx2 crypto_hashblocks_sha256_ref sample_ctx0 sample_stk (replicate 1904 0) [1, 2, 3] (ref_ctx 1 (seed_bytes 2)) zero_addr =
    fors_sign crypto_hashblocks_sha256_ref \<lparr>ft_knobs = True, ft_env = Some ''3'', ft_spawn = (\<lambda>_. True), ft_order = concat\<rparr>
      (replicate 1904 0) [1, 2, 3] (ref_ctx 1 (seed_bytes 2)) zero_addr \<and>
    fst (merkle_sign_avx2 default_config crypto_hashblocks_sha256_ref sample_ctx0 sample_stk (replicate 352 0) (replicate 16 7)
      (ref_ctx 1 (seed_bytes 2)) zero_addr zero_addr 5 None) =
    fst (merkle_sign default_config crypto_hashblocks_sha256_ref (replicate 352 0) (replicate 16 7)
      (ref_ctx 1 (seed_bytes 2)) zero_addr zero_addr 5 None)"
proof -
  let ?rt = "\<lparr>ft_knobs = True, ft_env = Some ''3'', ft_spawn = (\<lambda>_. True), ft_order = concat\<rparr> :: fors_threads"
  have c: "clean_tree_addr zero_addr" by (simp add: clean_tree_addr_def agree_except_refl addr_len)
  have l: "unat (5 :: u32) < 2 ^ SPX_TREE_HEIGHT" "length (replicate 1904 (0 :: u8)) = SPX_FORS_BYTES" "joins_all ?rt"
    by (simp_all add: joins_all_def)
  obtain rc sig' root' t g' where m: "merkle_sign default_config crypto_hashblocks_sha256_ref (replicate 352 0) (replicate 16 7)
      (ref_ctx 1 (seed_bytes 2)) zero_addr zero_addr 5 None = (rc, sig', root', t, g')" by (metis prod_cases5)
  obtain rc0 root0 g0 where r: "merkle_gen_root default_config crypto_hashblocks_sha256_ref (replicate 16 7) (ref_ctx 1 (seed_bytes 2)) None = (rc0, root0, g0)"
    by (metis prod_cases3)
  from avx2_signatures [OF sample_ready valid_zero_addr l(3,2) c length_replicate l(1) m r refl, of "[1, 2, 3]"] m show ?thesis by simp
qed

text \<open>C40. The signer does not depend on the vector unit.  In a build with \<open>SPX_AVX2\<close>, \<open>crypto_sign_signature\<close> and
  \<open>crypto_sign_seed_keypair\<close> return the code, the buffers, the length and the thread state of the scalar signer, whatever
  \<open>spx_has_avx2\<close> answers in \<open>fors.c\<close>, \<open>merkle.c\<close> and \<open>wotsx1.c\<close> (each has its own cache of the flag) and
  whatever the uninitialised memory holds.  The two sides of the calls agree on all sizes, although they are compiled with
  different copies of the parameter header.\<close>

theorem simd_signer:
  assumes "simd_memory v" "valid_config cfg" "joins_all rt" "length sk = 64" "length sig = 3680" "length pk0 = 32" "length sk0 = 64" "length seed = 48"
  shows "(\<exists>cs'. crypto_sign_signature_simd v cfg crypto_hashblocks_sha256_ref rt sig m sk ts cs =
      (case crypto_sign_signature cfg crypto_hashblocks_sha256_ref rt sig m sk ts of (res, sig', len, ts') \<Rightarrow> (res, sig', len, ts', cs'))) \<and>
    (\<exists>cs'. crypto_sign_seed_keypair_simd v cfg crypto_hashblocks_sha256_ref pk0 sk0 seed ts cs =
      (case crypto_sign_seed_keypair cfg crypto_hashblocks_sha256_ref pk0 sk0 seed ts of (res, pk', sk', ts') \<Rightarrow> (res, pk', sk', ts', cs'))) \<and>
    avx2_params = Some ref_params"
  using crypto_sign_signature_simd_eq [OF assms(1,4,2,3,5)] crypto_sign_seed_keypair_simd_eq [OF assms(1,6-8)] avx2_params_agree by blast

theorem simd_signer_witness:
  "fst (spx_has_avx2 (sv_build sample_simd) (sv_machine sample_simd) opt_cache_init) \<and>
    fst (crypto_sign_signature_simd sample_simd default_config crypto_hashblocks_sha256_ref
      \<lparr>ft_knobs = False, ft_env = None, ft_spawn = (\<lambda>_. True), ft_order = concat\<rparr> (replicate 3680 0) [1, 2] (replicate 64 9)
      \<lparr>ts_rng = slh_dsa_init_random_source (Some [5]) 1 rng_start, ts_stats = None\<rparr> sample_caches) =
    fst (crypto_sign_signature default_config crypto_hashblocks_sha256_ref
      \<lparr>ft_knobs = False, ft_env = None, ft_spawn = (\<lambda>_. True), ft_order = concat\<rparr> (replicate 3680 0) [1, 2] (replicate 64 9)
      \<lparr>ts_rng = slh_dsa_init_random_source (Some [5]) 1 rng_start, ts_stats = None\<rparr>)" (is "?a \<and> fst ?b = fst ?c")
proof
  show ?a by (simp add: sample_simd_def spx_has_avx2_def spx_opt_disable_simd_def spx_env_flag_def spx_opt_profile_is_def opt_cache_init_def Let_def)
  have "\<exists>cs'. ?b = (case ?c of (res, sig', len, ts') \<Rightarrow> (res, sig', len, ts', cs'))"
    by (rule conjunct1 [OF simd_signer [OF sample_simd_memory, where ?pk0.0 = "replicate 32 0" and ?sk0.0 = "replicate 64 0" and seed = "replicate 48 0"]])
      (simp_all add: joins_all_def valid_default_config)
  then show "fst ?b = fst ?c" by (auto simp: case_prod_beta)
qed

end
