(* ===== verification/Test_Helpers.thy ===== *)
theory Test_Helpers
  imports Slh_Dsa Sha2_Dispatch
begin

text \<open>
  The test-only entry points of \<open>src/test_helpers.c\<close>: the copies of the index extraction, the recomputation of the
  compressed index of a signature, key generation over a buffer with a stale root, the calls that run without a random
  source, and the getters of the run-time knobs.  Pointers that may be null are options, buffers come with the length the caller
  claims, and local arrays that are never initialised are arguments.  The theorems are what the integration tests check
  on examples, for every input.
\<close>

section \<open>Index extraction\<close>

definition UINT32_MAX :: u32 where
  "UINT32_MAX = - 1"

text \<open>Bit \<open>offset\<close> of the digest goes to bit \<open>j\<close> of the index; the index and the next offset are returned.\<close>

fun test_index_bits :: "bytes \<Rightarrow> nat list \<Rightarrow> u32 \<times> nat \<Rightarrow> u32 \<times> nat" where
  "test_index_bits mhash [] acc = acc"
| "test_index_bits mhash (j # js) (idx, offset) =
     test_index_bits mhash js
       (idx XOR push_bit j (ucast (drop_bit (offset AND 7) (mhash ! drop_bit 3 offset)) AND 1), offset + 1)"

fun test_indices :: "bytes \<Rightarrow> nat list \<Rightarrow> u32 list \<times> nat \<Rightarrow> u32 list \<times> nat" where
  "test_indices mhash [] acc = acc"
| "test_indices mhash (i # is) (indices_out, offset) =
     (let (idx, offset) = test_index_bits mhash [0..<SPX_FORS_HEIGHT] (0, offset)
      in test_indices mhash is (indices_out[i := idx], offset))"

definition bitcoin_pqc_test_message_to_indices :: "u32 list option \<Rightarrow> bytes option \<Rightarrow> nat \<Rightarrow> int \<times> u32 list option" where
  "bitcoin_pqc_test_message_to_indices indices_out mhash mhash_len =
     (if indices_out = None \<or> mhash = None \<or> mhash_len < SPX_FORS_MSG_BYTES then (-1, indices_out)
      else (0, Some (fst (test_indices (the mhash) [0..<SPX_FORS_SIG_TREES] (the indices_out, 0)))))"

definition bitcoin_pqc_test_forsc_compressed_index :: "bytes option \<Rightarrow> nat \<Rightarrow> u32" where
  "bitcoin_pqc_test_forsc_compressed_index mhash mhash_len =
     (if mhash = None \<or> mhash_len < SPX_FORS_MSG_BYTES then UINT32_MAX
      else fst (test_index_bits (the mhash) [0..<SPX_FORS_HEIGHT] (0, SPX_FORS_SIG_TREES * SPX_FORS_HEIGHT)))"

text \<open>\<open>hash_message\<close> does not read the context.\<close>

definition bitcoin_pqc_test_compressed_index :: "hashblocks_fn \<Rightarrow> bytes option \<Rightarrow> nat \<Rightarrow> bytes option \<Rightarrow> nat \<Rightarrow> bytes option \<Rightarrow> nat \<Rightarrow> u32" where
  "bitcoin_pqc_test_compressed_index hb sig sig_len pk pk_len msg msg_len =
     (if sig = None \<or> pk = None then UINT32_MAX
      else if sig_len \<noteq> SPX_BYTES then UINT32_MAX
      else if pk_len \<noteq> SPX_PK_BYTES then UINT32_MAX
      else if msg_len > 0 \<and> msg = None then UINT32_MAX
      else (let (mhash, tree, leaf_idx) =
                  hash_message hb (the sig) (the pk) (take msg_len (case msg of Some m \<Rightarrow> m | None \<Rightarrow> []))
            in bitcoin_pqc_test_forsc_compressed_index (Some mhash) SPX_FORS_MSG_BYTES))"

section \<open>Key generation over a stale root\<close>

definition prefilled_seed :: bytes where
  "prefilled_seed = map (\<lambda>i. of_nat (0xB7 + ((i * 31) mod 256))) [0..<CRYPTO_SEEDBYTES]"

definition bitcoin_pqc_test_seed_keypair_with_prefilled_root_tail :: "build_config \<Rightarrow> hashblocks_fn \<Rightarrow> bytes option \<Rightarrow> nat
    \<Rightarrow> bytes option \<Rightarrow> nat \<Rightarrow> u8 \<Rightarrow> stats_ptr \<Rightarrow> tls \<Rightarrow> int \<times> bytes option \<times> bytes option \<times> stats_ptr \<times> tls" where
  "bitcoin_pqc_test_seed_keypair_with_prefilled_root_tail cfg hb pk pk_len sk sk_len root_tail_prefill stats ts =
     (if pk = None \<or> sk = None \<or> stats = None then (-1, pk, sk, stats, ts)
      else if pk_len \<noteq> CRYPTO_PUBLICKEYBYTES \<or> sk_len \<noteq> CRYPTO_SECRETKEYBYTES then (-1, pk, sk, stats, ts)
      else (let p = put_bytes 0 (replicate pk_len 0xC3) (the pk);
                s = put_bytes 0 (replicate sk_len 0) (the sk);
                s = put_bytes (3 * SPX_N) (replicate SPX_N root_tail_prefill) s;
                ts = ts\<lparr>ts_stats := bitcoin_pqc_sign_stats_begin cfg stats\<rparr>;
                (rc, p, s, ts) = crypto_sign_seed_keypair cfg hb p s prefilled_seed ts;
                stats = ts_stats ts;
                ts = ts\<lparr>ts_stats := bitcoin_pqc_sign_stats_end (ts_stats ts)\<rparr>
            in (rc, Some p, Some s, stats, ts)))"

section \<open>Calls without a random source\<close>

definition without_source :: "tls \<Rightarrow> tls" where
  "without_source ts = ts\<lparr>ts_rng := slh_dsa_random_source_clear_failure (slh_dsa_restore_original_random (ts_rng ts))\<rparr>"

definition bitcoin_pqc_test_raw_slh_keypair_without_random_source :: "build_config \<Rightarrow> hashblocks_fn \<Rightarrow> bytes \<Rightarrow> bytes \<Rightarrow> tls \<Rightarrow> int \<times> tls" where
  "bitcoin_pqc_test_raw_slh_keypair_without_random_source cfg hb pk sk ts =
     (let ts = ts\<lparr>ts_rng := slh_dsa_restore_original_random (ts_rng ts)\<rparr>;
          (rc, pk, sk, ts) = crypto_sign_keypair cfg hb pk sk ts
      in (rc, ts))"

definition entropy_seed :: bytes where
  "entropy_seed = map (\<lambda>i. 0xA5 XOR of_nat i) [0..<CRYPTO_SEEDBYTES]"

definition bitcoin_pqc_test_raw_slh_sign_without_random_source :: "build_config \<Rightarrow> hashblocks_fn \<Rightarrow> fors_threads \<Rightarrow> bytes \<Rightarrow> bytes \<Rightarrow> bytes
    \<Rightarrow> tls \<Rightarrow> int \<times> tls" where
  "bitcoin_pqc_test_raw_slh_sign_without_random_source cfg hb rt pk sk sig ts =
     (let message = map of_char ''entropy failure signing test'';
          (res, pk, sk, ts) = crypto_sign_seed_keypair cfg hb pk sk entropy_seed ts
      in if res \<noteq> 0 then (-1, ts)
         else (let ts = ts\<lparr>ts_rng := slh_dsa_restore_original_random (ts_rng ts)\<rparr>;
                   (res, sig, siglen, ts) = crypto_sign_signature cfg hb rt sig message sk ts
               in if res \<noteq> 0 then (-1, ts)
                  else (if siglen = CRYPTO_BYTES then 0 else -1, ts)))"

definition bitcoin_pqc_test_randombytes_without_source :: "bytes option \<Rightarrow> nat \<Rightarrow> tls \<Rightarrow> int \<times> bytes option \<times> tls" where
  "bitcoin_pqc_test_randombytes_without_source out out_len ts =
     (if out = None \<and> out_len \<noteq> 0 then (-1, out, ts)
      else (let ts = without_source ts;
                (out, r) = randombytes out out_len (ts_rng ts)
            in (if slh_dsa_random_source_failed r then -1 else 0, out, ts\<lparr>ts_rng := r\<rparr>)))"

definition bitcoin_pqc_test_crypto_keypair_without_source :: "build_config \<Rightarrow> hashblocks_fn \<Rightarrow> bytes option \<Rightarrow> nat \<Rightarrow> bytes option \<Rightarrow> nat
    \<Rightarrow> tls \<Rightarrow> int \<times> bytes option \<times> bytes option \<times> tls" where
  "bitcoin_pqc_test_crypto_keypair_without_source cfg hb pk pk_len sk sk_len ts =
     (if pk = None \<or> sk = None then (-1, pk, sk, ts)
      else if pk_len \<noteq> CRYPTO_PUBLICKEYBYTES then (-1, pk, sk, ts)
      else if sk_len \<noteq> CRYPTO_SECRETKEYBYTES then (-1, pk, sk, ts)
      else (let (rc, p, s, ts) = crypto_sign_keypair cfg hb (the pk) (the sk) (without_source ts)
            in if rc \<noteq> 0 \<or> slh_dsa_random_source_failed (ts_rng ts)
               then (-1, Some (put_bytes 0 (replicate pk_len 0) p), Some (put_bytes 0 (replicate sk_len 0) s), ts)
               else (0, Some p, Some s, ts)))"

text \<open>A null message pointer is replaced by a one-byte buffer, of which nothing is read.\<close>

definition bitcoin_pqc_test_crypto_signature_without_source :: "build_config \<Rightarrow> hashblocks_fn \<Rightarrow> fors_threads \<Rightarrow> bytes option \<Rightarrow> nat
    \<Rightarrow> nat option \<Rightarrow> bytes option \<Rightarrow> nat \<Rightarrow> bytes option \<Rightarrow> nat \<Rightarrow> tls \<Rightarrow> int \<times> bytes option \<times> nat option \<times> tls" where
  "bitcoin_pqc_test_crypto_signature_without_source cfg hb rt sig sig_len actual_sig_len m mlen sk sk_len ts =
     (let message = (case m of Some msg \<Rightarrow> msg | None \<Rightarrow> [0])
      in if sig = None \<or> actual_sig_len = None \<or> sk = None then (-1, sig, actual_sig_len, ts)
         else if sig_len \<noteq> CRYPTO_BYTES then (-1, sig, actual_sig_len, ts)
         else if sk_len \<noteq> CRYPTO_SECRETKEYBYTES then (-1, sig, actual_sig_len, ts)
         else if m = None \<and> mlen \<noteq> 0 then (-1, sig, actual_sig_len, ts)
         else (let (rc, s, len, ts) = crypto_sign_signature cfg hb rt (the sig) (take mlen message) (the sk) (without_source ts)
               in if rc \<noteq> 0 \<or> slh_dsa_random_source_failed (ts_rng ts)
                  then (-1, Some (put_bytes 0 (replicate sig_len 0) s), Some 0, ts)
                  else (0, Some s, Some len, ts)))"

definition bitcoin_pqc_test_crypto_combined_sign_without_source :: "build_config \<Rightarrow> hashblocks_fn \<Rightarrow> fors_threads \<Rightarrow> bytes option \<Rightarrow> nat
    \<Rightarrow> nat option \<Rightarrow> bytes option \<Rightarrow> nat \<Rightarrow> bytes option \<Rightarrow> nat \<Rightarrow> tls \<Rightarrow> int \<times> bytes option \<times> nat option \<times> tls" where
  "bitcoin_pqc_test_crypto_combined_sign_without_source cfg hb rt sm sm_len smlen m mlen sk sk_len ts =
     (let message = (case m of Some msg \<Rightarrow> msg | None \<Rightarrow> [0])
      in if sm = None \<or> smlen = None \<or> sk = None then (-1, sm, smlen, ts)
         else if sk_len \<noteq> CRYPTO_SECRETKEYBYTES then (-1, sm, smlen, ts)
         else if m = None \<and> mlen \<noteq> 0 then (-1, sm, smlen, ts)
         else if mlen > SIZE_MAX - CRYPTO_BYTES then (-1, sm, smlen, ts)
         else if sm_len < CRYPTO_BYTES + mlen then (-1, sm, smlen, ts)
         else (let (rc, s, len, ts) = crypto_sign cfg hb rt (the sm) (take mlen message) (the sk) (without_source ts)
               in (rc, Some s, Some len, ts)))"

section \<open>Knobs\<close>

text \<open>\<open>c\<close> is the cache of \<open>test_helpers.c\<close>, except for the two functions that read the pointers of \<open>sha2.c\<close>.\<close>

definition bitcoin_pqc_test_runtime_env_knobs_enabled :: "opt_build \<Rightarrow> int" where
  "bitcoin_pqc_test_runtime_env_knobs_enabled b = (if ob_knobs b then 1 else 0)"

definition bitcoin_pqc_test_sha_backend_mode :: "opt_build \<Rightarrow> opt_machine \<Rightarrow> opt_cache \<Rightarrow> int \<times> opt_cache" where
  "bitcoin_pqc_test_sha_backend_mode b m c = spx_opt_sha_backend_mode b m c"

definition bitcoin_pqc_test_sha256_impl :: "opt_cache \<Rightarrow> int" where
  "bitcoin_pqc_test_sha256_impl c = spx_sha2_test_sha256_impl c"

definition bitcoin_pqc_test_sha512_impl :: "opt_cache \<Rightarrow> int" where
  "bitcoin_pqc_test_sha512_impl c = spx_sha2_test_sha512_impl c"

definition bitcoin_pqc_test_disable_sha_accel :: "opt_build \<Rightarrow> opt_machine \<Rightarrow> opt_cache \<Rightarrow> int \<times> opt_cache" where
  "bitcoin_pqc_test_disable_sha_accel b m c = spx_opt_disable_sha_accel b m c"

definition bitcoin_pqc_test_disable_simd :: "opt_build \<Rightarrow> opt_machine \<Rightarrow> opt_cache \<Rightarrow> int \<times> opt_cache" where
  "bitcoin_pqc_test_disable_simd b m c = spx_opt_disable_simd b m c"

definition bitcoin_pqc_test_profile_scalar :: "opt_build \<Rightarrow> opt_machine \<Rightarrow> int" where
  "bitcoin_pqc_test_profile_scalar b m = (if spx_opt_profile_is b m ''scalar'' then 1 else 0)"

section \<open>The copies extract what the signer extracts\<close>

lemma test_index_bits_eq: "test_index_bits mhash [j..<j + n] (idx, offset) = index_loop mhash n offset j idx"
proof (induction n arbitrary: j idx offset)
  case (Suc n)
  have "[j..<j + Suc n] = j # [Suc j..<Suc j + n]" by (simp add: upt_rec)
  then show ?case using Suc.IH [of "Suc j"] by simp
qed simp

lemmas test_index_eq = test_index_bits_eq [of _ 0 SPX_FORS_HEIGHT, unfolded add_0]

lemma test_indices_eq:
  "length out = i + n \<Longrightarrow> fst (test_indices mhash [i..<i + n] (out, offset)) = message_to_indices_loop mhash n offset (take i out)"
proof (induction n arbitrary: i out offset)
  case (Suc n)
  obtain idx offset' where r: "index_loop mhash SPX_FORS_HEIGHT offset 0 0 = (idx, offset')" by fastforce
  have u: "[i..<i + Suc n] = i # [Suc i..<Suc i + n]" by (simp add: upt_rec)
  have "take (Suc i) (out[i := idx]) = take i out @ [idx]" using Suc.prems by (simp add: take_Suc_conv_app_nth)
  moreover have "length (out[i := idx]) = Suc i + n" using Suc.prems by simp
  note Suc.IH [OF this, of offset']
  ultimately show ?case
    unfolding u test_indices.simps message_to_indices_loop.simps test_index_eq r by simp
qed simp

theorem test_message_to_indices_eq:
  assumes "length out = SPX_FORS_SIG_TREES" "SPX_FORS_MSG_BYTES \<le> len"
  shows "bitcoin_pqc_test_message_to_indices (Some out) (Some mhash) len = (0, Some (message_to_indices mhash))"
  using test_indices_eq [of out 0 SPX_FORS_SIG_TREES mhash 0] assms
  by (simp add: bitcoin_pqc_test_message_to_indices_def message_to_indices_def del: upt_rec_numeral)

theorem test_forsc_compressed_index_eq:
  "SPX_FORS_MSG_BYTES \<le> len \<Longrightarrow> bitcoin_pqc_test_forsc_compressed_index (Some mhash) len = forsc_compressed_index mhash"
  unfolding bitcoin_pqc_test_forsc_compressed_index_def forsc_compressed_index_def test_index_eq by simp

text \<open>Verification accepts only signatures whose compressed index is zero, the index that the helper recomputes.\<close>

lemma verify_compressed_index:
  assumes "crypto_sign_verify cfg hb sig n m pk g = (0, g')"
  shows "bitcoin_pqc_test_compressed_index hb (Some sig) n (Some pk) SPX_PK_BYTES (Some m) (length m) = 0"
proof -
  obtain mhash tree idx where hm: "hash_message hb sig pk m = (mhash, tree, idx)" by (metis prod_cases3)
  have n: "n = SPX_BYTES" using assms by (rule_tac ccontr) (simp add: crypto_sign_verify_def)
  have "forsc_compressed_index mhash = 0"
    using assms by (rule_tac ccontr) (simp add: n crypto_sign_verify_def hm)
  moreover have "bitcoin_pqc_test_compressed_index hb (Some sig) n (Some pk) SPX_PK_BYTES (Some m) (length m) =
      bitcoin_pqc_test_forsc_compressed_index (Some mhash) SPX_FORS_MSG_BYTES"
    unfolding bitcoin_pqc_test_compressed_index_def n by (simp add: hm)
  ultimately show ?thesis using test_forsc_compressed_index_eq [of SPX_FORS_MSG_BYTES mhash] by (simp del: SPX_FORS_MSG_BYTES_def)
qed

section \<open>A stale root does not reach the key\<close>

lemma length_prefilled_seed: "length prefilled_seed = 48"
  by (simp add: prefilled_seed_def)

context sha256_backend
begin

lemma prefilled_keypair:
  assumes "length pk = 32" "length sk = 64"
  shows "bitcoin_pqc_test_seed_keypair_with_prefilled_root_tail cfg hb (Some pk) 32 (Some sk) 64 x (Some s0) ts =
    (0, Some (drop 32 (seed_sk hb prefilled_seed)), Some (seed_sk hb prefilled_seed), bitcoin_pqc_sign_stats_begin cfg (Some s0),
     ts\<lparr>ts_stats := None\<rparr>)"
proof -
  have "length (put_bytes 0 (replicate 32 0xC3) pk) = 32" "length (put_bytes 48 (replicate 16 x) (put_bytes 0 (replicate 64 0) sk)) = 64"
    using assms by simp_all
  from crypto_sign_seed_keypair_ok [OF this length_prefilled_seed] show ?thesis
    by (simp add: bitcoin_pqc_test_seed_keypair_with_prefilled_root_tail_def bitcoin_pqc_sign_stats_end_def)
qed

end

section \<open>Without a random source nothing is generated and nothing is signed\<close>

lemma no_source_randombytes:
  "g_random_data r = None \<Longrightarrow> randombytes (Some (replicate n 0)) n r =
    (Some (replicate n 0), if n = 0 then r else mark_random_source_failed r)"
  by (simp add: randombytes_def custom_slh_randombytes_impl_def)

lemma no_source_keypair:
  assumes "g_random_data (ts_rng ts) = None"
  shows "crypto_sign_keypair cfg hb pk sk ts = (-1, pk, sk, ts\<lparr>ts_rng := mark_random_source_failed (ts_rng ts)\<rparr>)"
  using no_source_randombytes [of "slh_dsa_random_source_clear_failure (ts_rng ts)" CRYPTO_SEEDBYTES] assms
  by (simp add: crypto_sign_keypair_def slh_dsa_random_source_clear_failure_def slh_dsa_random_source_failed_def mark_random_source_failed_def)

lemma no_source_signature:
  assumes "g_random_data (ts_rng ts) = None"
  shows "crypto_sign_signature cfg hb rt sig m sk ts = (-1, sig, 0, ts\<lparr>ts_rng := mark_random_source_failed (ts_rng ts)\<rparr>)"
  using no_source_randombytes [of "slh_dsa_random_source_clear_failure (ts_rng ts)" SPX_N] assms
  by (simp add: crypto_sign_signature_def slh_dsa_random_source_clear_failure_def slh_dsa_random_source_failed_def mark_random_source_failed_def)

lemma without_source_none: "g_random_data (ts_rng (without_source ts)) = None"
  by (simp add: without_source_def slh_dsa_random_source_clear_failure_def slh_dsa_restore_original_random_def)

end
