(* ===== verification/Test_Properties.thy ===== *)
theory Test_Properties
  imports Test_Helpers Sample_Backend
begin

text \<open>
  What the integration tests check through \<open>src/test_helpers.c\<close>, for every input: without a random source the calls
  fail closed, and the copies of the index extraction agree with the signer and the verifier.
\<close>

text \<open>C33. Without a random source nothing is generated and nothing is signed.  After \<open>slh_dsa_restore_original_random\<close>,
  \<open>randombytes\<close> zeroes its output and sets the failure flag, key generation and signing return -1, and the wrappers leave a zeroed public
  key, secret key, signature or signature part of a signed message, with length zero.  This holds for every hash function and
  every earlier state of the thread.\<close>

theorem without_source_fails_closed:
  assumes "length buf = n" "0 < n" "length pk = 32" "length sk = 64" "length sig = 3680"
    and "length sm = sm_len" "3680 + mlen \<le> sm_len" "mlen \<le> SIZE_MAX - 3680" "m = None \<Longrightarrow> mlen = 0"
    and "ts' = (without_source ts)\<lparr>ts_rng := mark_random_source_failed (ts_rng (without_source ts))\<rparr>"
  shows "bitcoin_pqc_test_randombytes_without_source (Some buf) n ts = (-1, Some (replicate n 0), ts') \<and>
    bitcoin_pqc_test_crypto_keypair_without_source cfg hb (Some pk) 32 (Some sk) 64 ts =
      (-1, Some (replicate 32 0), Some (replicate 64 0), ts') \<and>
    bitcoin_pqc_test_crypto_signature_without_source cfg hb rt (Some sig) 3680 (Some len) m mlen (Some sk) 64 ts =
      (-1, Some (replicate 3680 0), Some 0, ts') \<and>
    bitcoin_pqc_test_crypto_combined_sign_without_source cfg hb rt (Some sm) sm_len (Some len) m mlen (Some sk) 64 ts =
      (-1, Some (put_bytes 0 (replicate 3680 0) sm), Some 0, ts') \<and>
    fst (bitcoin_pqc_test_raw_slh_keypair_without_random_source cfg hb pk sk ts) = -1 \<and>
    fst (bitcoin_pqc_test_raw_slh_sign_without_random_source cfg hb rt pk sk sig ts) = -1"
proof (intro conjI)
  note none = without_source_none [of ts]
  have failed: "slh_dsa_random_source_failed (ts_rng ts')"
    by (simp add: assms(10) slh_dsa_random_source_failed_def mark_random_source_failed_def)
  note kp = no_source_keypair [OF none, folded assms(10)] and sg = no_source_signature [OF none, folded assms(10)]
  show "bitcoin_pqc_test_randombytes_without_source (Some buf) n ts = (-1, Some (replicate n 0), ts')"
    using randombytes_fails_closed [OF none, of n buf] assms(1,2,10) failed
    by (simp add: bitcoin_pqc_test_randombytes_without_source_def Let_def)
  show "bitcoin_pqc_test_crypto_keypair_without_source cfg hb (Some pk) 32 (Some sk) 64 ts =
      (-1, Some (replicate 32 0), Some (replicate 64 0), ts')"
    using assms(3,4) by (simp add: bitcoin_pqc_test_crypto_keypair_without_source_def kp put_bytes_def)
  show "bitcoin_pqc_test_crypto_signature_without_source cfg hb rt (Some sig) 3680 (Some len) m mlen (Some sk) 64 ts =
      (-1, Some (replicate 3680 0), Some 0, ts')"
    using assms(5,9) by (auto simp: bitcoin_pqc_test_crypto_signature_without_source_def Let_def sg put_bytes_def)
  show "bitcoin_pqc_test_crypto_combined_sign_without_source cfg hb rt (Some sm) sm_len (Some len) m mlen (Some sk) 64 ts =
      (-1, Some (put_bytes 0 (replicate 3680 0) sm), Some 0, ts')"
    using assms(6-9)
    by (auto simp: bitcoin_pqc_test_crypto_combined_sign_without_source_def Let_def sg crypto_sign_def put_bytes_def)
  have "g_random_data (ts_rng (t\<lparr>ts_rng := slh_dsa_restore_original_random (ts_rng t)\<rparr>)) = None" for t :: tls
    by (simp add: slh_dsa_restore_original_random_def)
  note raw = no_source_keypair [OF this] no_source_signature [OF this]
  show "fst (bitcoin_pqc_test_raw_slh_keypair_without_random_source cfg hb pk sk ts) = -1"
    by (simp add: bitcoin_pqc_test_raw_slh_keypair_without_random_source_def raw)
  show "fst (bitcoin_pqc_test_raw_slh_sign_without_random_source cfg hb rt pk sk sig ts) = -1"
    by (simp add: bitcoin_pqc_test_raw_slh_sign_without_random_source_def raw Let_def split: prod.split)
qed

theorem without_source_fails_closed_witness:
  "fst (bitcoin_pqc_test_randombytes_without_source (Some [1, 2]) 2 const_tls) = -1 \<and>
    fst (snd (bitcoin_pqc_test_crypto_keypair_without_source default_config crypto_hashblocks_sha256_ref (Some (replicate 32 1)) 32
      (Some (replicate 64 1)) 64 const_tls)) = Some (replicate 32 0)"
  using without_source_fails_closed [of "[1, 2]" 2 "replicate 32 1" "replicate 64 1" "replicate 3680 1" "replicate 3690 1" 3690 10
      "Some (replicate 10 1)" _ const_tls]
  by (simp add: SIZE_MAX_def)

text \<open>C39. The test copies agree with the code they copy.  \<open>bitcoin_pqc_test_message_to_indices\<close> and
  \<open>bitcoin_pqc_test_forsc_compressed_index\<close> return the indices of the signer; the recomputed compressed index of every signature that
  \<open>crypto_sign_verify\<close> accepts is zero; and key generation over a buffer whose root part is filled with any byte returns the one key of the
  seed and counts no signing attempt.\<close>

theorem test_copies_agree:
  assumes "sha256_backend hb" "length out = SPX_FORS_SIG_TREES" "SPX_FORS_MSG_BYTES \<le> len" "length pk = 32" "length sk = 64"
    and "crypto_sign_verify cfg hb sig siglen m vk g = (0, g')"
  shows "bitcoin_pqc_test_message_to_indices (Some out) (Some mhash) len = (0, Some (message_to_indices mhash)) \<and>
    bitcoin_pqc_test_forsc_compressed_index (Some mhash) len = forsc_compressed_index mhash \<and>
    bitcoin_pqc_test_compressed_index hb (Some sig) siglen (Some vk) SPX_PK_BYTES (Some m) (length m) = 0 \<and>
    bitcoin_pqc_test_seed_keypair_with_prefilled_root_tail cfg hb (Some pk) 32 (Some sk) 64 x (Some s0) ts =
      (0, Some (drop 32 (seed_sk hb prefilled_seed)), Some (seed_sk hb prefilled_seed), bitcoin_pqc_sign_stats_begin cfg (Some s0),
       ts\<lparr>ts_stats := None\<rparr>)"
  using test_message_to_indices_eq [OF assms(2,3)] test_forsc_compressed_index_eq [OF assms(3)] verify_compressed_index [OF assms(6)]
    sha256_backend.prefilled_keypair [OF assms(1,4,5)] by blast

theorem test_copies_agree_witness:
  "\<exists>sig. bitcoin_pqc_test_compressed_index hb_const (Some sig) 3680 (Some (drop 32 const_sk)) SPX_PK_BYTES (Some [1, 2, 3]) (length [1, 2, 3 :: u8]) = 0"
proof -
  obtain sig siglen ts' where s: "crypto_sign_signature default_config hb_const no_threads (replicate 3680 0) [1, 2, 3] const_sk const_tls = (0, sig, siglen, ts')"
    using const_sign [OF length_replicate joins_all_no_threads valid_default_config length_const_sk] by metis
  from const256.sign_verify [OF consistent_const_sk valid_default_config joins_all_no_threads length_replicate s]
  have v: "crypto_sign_verify default_config hb_const sig 3680 [1, 2, 3] (drop 32 const_sk) None = (0, None)" by metis
  have "length (replicate 7 0) = SPX_FORS_SIG_TREES" by simp
  from test_copies_agree [OF const256.sha256_backend_axioms this order_refl _ _ v, of "replicate 32 0" "replicate 64 0"]
  show ?thesis by (metis length_replicate)
qed

end
