(* ===== verification/Spec2Isabelle.thy ===== *)
theory Spec2Isabelle
  imports Tree_Properties Hash_Properties Avx2_Properties Test_Properties
begin

text \<open>
  \<^bold>\<open>libbitcoinpqc: a verified model of the SLH-DSA signature library\<close>

  The library (\<open>src/src\<close>, \<open>src/include\<close>, \<open>src/sphincsplus\<close>) provides one post-quantum signature
  scheme: SPHINCS+ with SHA-2, 128-bit security, a hypertree of height 30 in five layers, FORS+C
  (one FORS tree is removed by searching a salt) and WOTS+C (the checksum chains are removed by searching
  a counter), both searches bounded.  The theories model the C code bottom up and prove it correct.

  \<^bold>\<open>Parts and theories\<close>

  \<^item> \<open>Prelude\<close>: byte buffers with bounds-respecting reads and writes, word lemmas, named collections.
  \<^item> \<open>Spx_Params\<close>: the parameters of \<open>params-sphincs-sha2-128s-bounded30.h\<close>, the address layout of
    \<open>sha2_offsets.h\<close> and \<open>address.h\<close>, the public sizes; \<open>Avx2_Params\<close>: the copy of the parameter header that the AVX2
    files are compiled with, as a function of its choices.
  \<^item> \<open>Utils_Bytes\<close> (\<open>utils.c\<close>, the loads and stores of \<open>sha2.c\<close>) and \<open>Address\<close> (\<open>address.c\<close>).
  \<^item> \<open>Sha2\<close> (\<open>sha2.c\<close>: macros and scalar block functions), \<open>Sha2_Inc\<close> (\<open>sha2.c\<close>: incremental hashing, MGF1) and
    \<open>Sha2_Dispatch\<close> (\<open>sha2.c\<close>, \<open>opt_flags.h\<close>, \<open>sha2_x86_shani.c\<close>, \<open>avx2_compat.h\<close>: choice and caching of the
    block function).  The locale \<open>hashblocks\<close> is the contract of a block function; it is
    interpreted on both scalar functions, and everything above is proved for every function that meets it.
    \<open>Sha2_Race\<close> is the choice again, one atomic access to a static variable at a time, for calls that race.
  \<^item> \<open>Sha2_Standard\<close>: FIPS 180-4, written without reference to the code, its constants as bits of roots of primes;
    \<open>Sha2_Conformance\<close>: the tables and functions of \<open>sha2.c\<close> are the standard's.
  \<^item> \<open>Hash_Sha2\<close> (\<open>hash_sha2.c\<close>, \<open>thash_sha2_simple.c\<close>): PRF, tweakable hash, HMAC, message digest.
  \<^item> \<open>Tree_Hash\<close> (\<open>utilsx1.c\<close>, \<open>compute_root\<close> of \<open>utils.c\<close>): the stack machine that computes a Merkle root and an
    authentication path.  The locale \<open>leaf_generator\<close> is the contract of the \<open>gen_leaf\<close> callback.
  \<^item> \<open>Treehash_Plain\<close> (\<open>treehash\<close> of \<open>utils.c\<close>): the variant with an array of heights, as a tiling of the leaves by complete subtrees.
    The locale \<open>plain_leaves\<close> is the contract of its callback.
  \<^item> \<open>Sign_Stats\<close> (\<open>sign_stats.c\<close>): the thread-local statistics session and the limits.
  \<^item> \<open>Wots\<close> (\<open>wots.c\<close>, \<open>wotsx1.c\<close>) and \<open>Wots_Test\<close> (the entry points of \<open>wots.c\<close> for the test build), \<open>Merkle\<close> (\<open>merkle.c\<close>), \<open>Fors\<close> (\<open>fors.c\<close>, with its worker pool).
  \<^item> \<open>Sha_Ni\<close> and \<open>Sha512_Ni\<close> (\<open>sha2_x86_shani.c\<close>: the block functions with the SHA instructions of x86), \<open>Sha2_Backends\<close>
    (\<open>sha2_armv8_sha.c\<close>, the CommonCrypto functions and the dispatched call of \<open>sha2.c\<close>).  The locale \<open>sha_extension\<close> is the contract
    of the instructions and is interpreted for both word sizes.  The ARMv8 code is switched off in the source; its round macro
    swaps the halves of the state (\<open>arm_macro\<close>).
  \<^item> \<open>Avx2_Sha256\<close> (\<open>sha256avx.c\<close>, \<open>sha256x8.c\<close>: the 256-bit intrinsics on eight 32-bit lanes, the transposition, the eight-lane
    SHA-256), \<open>Avx2_Hash\<close> (\<open>sha256x8.c\<close>, \<open>hash_sha2x8.c\<close>, \<open>thash_sha2_simplex8.c\<close>), \<open>Avx2_Tree\<close> (\<open>utilsx8.c\<close>), \<open>Avx2_Sign\<close> and \<open>Avx2_Wots\<close>
    (the eight-lane variants of \<open>fors.c\<close>, \<open>wots.c\<close>, \<open>wotsx1.c\<close> and \<open>merkle.c\<close>), \<open>Avx2_Dispatch\<close> (the branches on \<open>spx_has_avx2\<close> and the
    signer on top of them; \<open>Merkle\<close>, \<open>Fors\<close>, \<open>Wots\<close> and \<open>Spx_Sign\<close> model the branch without AVX2).  The locale \<open>eight_lanes\<close> says that a lane
    computes the scalar function of its inputs, \<open>leaf_generator8\<close> is the contract of the eight-leaf callback, \<open>avx2_calls\<close> and \<open>simd_calls\<close> the
    calls the signing functions make.
  \<^item> \<open>Random_Source\<close> (\<open>slh_dsa/utils.c\<close>, \<open>randombytes_custom.c\<close>): the thread-local random source.
  \<^item> \<open>Spx_Sign\<close> (\<open>sign.c\<close>): key generation, the salt search, the hypertree, verification, attached signatures.
  \<^item> \<open>C_Heap\<close>: the C heap, \<open>malloc\<close>, \<open>free\<close> and \<open>bitcoin_pqc_secure_zero\<close> (\<open>secure_zero.h\<close>).
  \<^item> \<open>Slh_Dsa\<close> (\<open>slh_dsa/keygen.c\<close>, \<open>validate.c\<close>, \<open>sign.c\<close>, \<open>verify.c\<close>).
  \<^item> \<open>Bitcoin_Pqc\<close> (\<open>bitcoinpqc.c\<close>): the public API over a heap of blocks.
  \<^item> \<open>Test_Helpers\<close> (\<open>test_helpers.c\<close>): the entry points of the test build.
  \<^item> \<open>Sample_Backend\<close>: a constant hash that meets the contracts and makes both searches succeed at once.  The
    reference hash cannot be evaluated over a whole signature by the kernel, so the
    examples that need a successful signature use this one; examples that do not use the reference hash.
  \<^item> \<open>Hash_Properties\<close>, \<open>Tree_Properties\<close>, \<open>Avx2_Properties\<close>, \<open>Test_Properties\<close> and this theory: the properties C1 to C40.

  \<^bold>\<open>State and effects\<close>

  Machine integers are words of their C width and wrap.  A pointer that may be null is an option.  A buffer is a
  list of bytes of the buffer's size; a function that writes through a pointer returns the new contents.
  The thread-local variables are the record \<open>tls\<close> (random source and statistics session); it is threaded through
  every call that can read or write it.  Error codes are integers as in the code; a function with an
  error path and an output returns a sum, the error on the left.  The heap, in which the buffers of the API and the
  derivation buffer of \<open>slh_dsa/keygen.c\<close> live, is a map from addresses to
  blocks plus the list of blocks released so far with their contents at that moment, so that wiping before \<open>free\<close> can be
  stated; the allocator is a parameter and may fail.  Threads of the FORS pool are a parameter that says which creations
  fail and in which order the started workers run; the code joins all of them (\<open>joins_all\<close>).  The build
  limits are the record \<open>build_config\<close> with the \<open>#error\<close> conditions as \<open>valid_config\<close>.  The block functions are parameters
  (\<open>hb\<close>, \<open>hb512\<close>) because the code calls them through a pointer; the dispatch model says which
  function that is, and C35 that it computes what the scalar function computes.

  Concurrent first calls interleave at each atomic load and store; a load sees the last store to its variable (sequential
  consistency).  Each variable is only ever written with one value, which is why the memory order of the accesses does not matter.

  Loops are recursive functions with termination proofs; the two searches are total because their counters are bounded by
  the width of the counter, so no fuel is used anywhere.

  \<^bold>\<open>What is proved\<close>

  C1 to C6 are about the scheme (signatures verify, when signing succeeds, its codes, statistics, attached signatures, wiping); C7
  to C9 about the SLH-DSA layer; C10 to C13 about the API and its heap; C14 to C23 about FORS+C, WOTS+C, the Merkle trees and
  the salt search; C24 to C32 about SHA-2, the FIPS 205 hash functions, the random source, the hash addresses, the byte conversions
  and the dispatch; C34 to C36 about racing first calls and about the backends (C36 states two defects of them); C33 and C39 about
  the test build: without a random source everything fails closed, and the copies of the index extraction agree with the code;
  C37, C38 and C40 about the eight-lane path, which returns what the scalar path returns: the hash functions, the signatures, and
  key generation and signing with the run-time branches, whatever these decide.

  \<^bold>\<open>Not modelled\<close>

  Wipes of local variables and the stack burn of \<open>secure_zero.h\<close> write memory that no later C expression reads, and
  have no counterpart in a functional model; wipes of caller buffers and heap blocks are modelled.  CommonCrypto is a parameter of
  the model, with the behaviour the code relies on as a hypothesis.
  The code for parameter sets with a WOTS+ checksum or with SHA-512
  is not compiled for this parameter set.  The timing counters of the benchmark build and the
  Rust crate are outside the model.  Verification never reads \<open>ctx.sk_seed\<close>, which the code leaves uninitialised; the model
  holds the empty string there.
\<close>

section \<open>The signature scheme\<close>

text \<open>C1. Signatures verify.  For every SHA-256 backend that satisfies the block-function contract, every
  valid build configuration, worker pool, message and thread state: when \<open>crypto_sign_signature\<close> with a
  consistent secret key returns 0, it wrote a 3680-byte signature that \<open>crypto_sign_verify\<close> accepts under
  the public half of the key, also when the signer ran with the tighter counter limit of a statistics session.\<close>

theorem signature_verifies:
  assumes "sha256_backend hb" "consistent_sk hb sk" "valid_config cfg" "joins_all rt" "length sig = 3680"
    and "crypto_sign_signature cfg hb rt sig m sk ts = (0, sig', siglen, ts')"
  shows "siglen = 3680 \<and> length sig' = 3680 \<and> crypto_sign_verify cfg hb sig' siglen m (drop 32 sk) None = (0, None)"
  by (rule sha256_backend.sign_verify [OF assms])

theorem signature_verifies_witness:
  "\<exists>sig' siglen ts'. crypto_sign_signature default_config hb_const no_threads (replicate 3680 0) [1, 2, 3] const_sk const_tls
      = (0, sig', siglen, ts') \<and> siglen = 3680 \<and>
    crypto_sign_verify default_config hb_const sig' siglen [1, 2, 3] (drop 32 const_sk) None = (0, None)"
proof -
  obtain sig' siglen ts' where run: "crypto_sign_signature default_config hb_const no_threads (replicate 3680 0) [1, 2, 3]
      const_sk const_tls = (0, sig', siglen, ts')"
    using const_sign [OF length_replicate joins_all_no_threads valid_default_config length_const_sk] by metis
  from signature_verifies [OF const256.sha256_backend_axioms consistent_const_sk valid_default_config
      joins_all_no_threads length_replicate run] run
  show ?thesis by auto
qed

text \<open>C2. When signing succeeds.  With a readable random source, \<open>crypto_sign_signature\<close> returns 0 exactly
  when the salt search has a first hit within \<open>FORSC_MAX_GRIND_ATTEMPTS\<close> and each of the five roots the layers
  then sign (the FORS public key and the roots of the four lower layers) has a WOTS+C counter within the limit;
  otherwise it returns \<open>BITCOINPQC_SIGN_LIMIT_EXCEEDED\<close>.  In particular it always returns.\<close>

theorem signing_outcome:
  assumes "sha256_backend hb" "length sk = 64" "valid_config cfg" "joins_all rt" "length sig = 3680"
    and "rng_ok (ts_rng ts)" "g_random_data (ts_rng ts) = Some d" "d \<noteq> []"
  shows "fst (crypto_sign_signature cfg hb rt sig m sk ts) =
    (if sign_searches_succeed cfg hb (gen_message_random hb (drop 16 sk) (cyclic d (g_random_data_offset (ts_rng ts)) 16) m)
          m sk (ts_stats ts)
     then 0 else BITCOINPQC_SIGN_LIMIT_EXCEEDED)"
  by (rule sha256_backend.crypto_sign_signature_succeeds [OF assms])

theorem signing_outcome_witness:
  "fst (crypto_sign_signature default_config hb_const no_threads (replicate 3680 0) [1, 2, 3] const_sk const_tls) = 0"
proof -
  note l = length_const_sk
  show ?thesis
    using signing_outcome [OF const256.sha256_backend_axioms l valid_default_config joins_all_no_threads length_replicate,
        of const_tls "[1, 2, 3]" 0 "[1, 2, 3]"]
    by (simp add: const_searches [OF valid_default_config] const256.length_gen_message_random l const_tls_def rng_ok_def)
qed

text \<open>C3. Error codes and buffers of \<open>crypto_sign_signature\<close>: the signature buffer keeps its 3680 bytes, the
  reported length is 3680 on success and 0 otherwise, and the only codes are 0, the signing limit and, only when
  the random source failed, -1.\<close>

theorem signing_codes:
  assumes "sha256_backend hb" "length sk = 64" "valid_config cfg" "joins_all rt" "length sig = 3680"
    and "crypto_sign_signature cfg hb rt sig m sk ts = (res, sig', siglen, ts')"
  shows "length sig' = 3680 \<and> siglen = (if res = 0 then 3680 else 0) \<and>
    res \<in> {0, BITCOINPQC_SIGN_LIMIT_EXCEEDED} \<union> (if g_random_source_failed (ts_rng ts') then {-1} else {})"
  by (rule sha256_backend.crypto_sign_signature_result [OF assms])

theorem signing_codes_witness:
  "\<exists>res sig' siglen ts'. crypto_sign_signature default_config crypto_hashblocks_sha256_ref no_threads (replicate 3680 0) [7]
      (replicate 64 9) const_tls = (res, sig', siglen, ts') \<and> length sig' = 3680 \<and> siglen = (if res = 0 then 3680 else 0)"
proof -
  obtain res sig' siglen ts' where run: "crypto_sign_signature default_config crypto_hashblocks_sha256_ref no_threads
      (replicate 3680 0) [7] (replicate 64 9) const_tls = (res, sig', siglen, ts')" by (metis prod_cases4)
  from signing_codes [OF ref256.sha256_backend_axioms length_replicate valid_default_config joins_all_no_threads
      length_replicate run] run
  show ?thesis by blast
qed

text \<open>C4. Statistics of a signing run.  A run that begins with a fresh session ends with a session whose record
  has one attempt count per signed layer, each between 1 and the counter limit plus one, their maximum as
  the observed maximum, and a salt count within its limit; on success all five layers are recorded and no limit is flagged,
  and a run that hit a limit is flagged with the limit it hit.\<close>

theorem signing_statistics:
  assumes "sha256_backend hb" "length sk = 64" "valid_config cfg" "joins_all rt" "length sig = 3680"
    and "ts_stats ts = bitcoin_pqc_sign_stats_begin cfg (Some s0)"
    and "crypto_sign_signature cfg hb rt sig m sk ts = (res, sig', siglen, ts')"
  shows "\<exists>s ws. ts_stats ts' = Some s \<and> stats_inv cfg ws s \<and> attempts_ok cfg ws \<and>
    unat (forsc_attempts s) \<le> unat (FORSC_MAX_GRIND_ATTEMPTS cfg) \<and>
    (res = 0 \<longrightarrow> length ws = 5 \<and> cap_exceeded s = 0 \<and> 1 \<le> unat (forsc_attempts s)) \<and>
    (res = BITCOINPQC_SIGN_LIMIT_EXCEEDED \<longrightarrow> cap_exceeded s \<in> {1, 2})"
  by (rule sha256_backend.crypto_sign_signature_stats [OF assms])

theorem signing_statistics_witness:
  "\<exists>s ws sig' siglen ts'. crypto_sign_signature default_config hb_const no_threads (replicate 3680 0) [5] const_sk
      (signing_tls default_config hb_const const_sk [5]) = (0, sig', siglen, ts') \<and> ts_stats ts' = Some s \<and>
    stats_inv default_config ws s \<and> length ws = 5 \<and> cap_exceeded s = 0"
proof -
  note l = length_const_sk
  let ?t = "signing_tls default_config hb_const const_sk [5]"
  have "fst (crypto_sign_signature default_config hb_const no_threads (replicate 3680 0) [5] const_sk ?t) = 0"
    using const256.signing_tls_outcome [OF l valid_default_config joins_all_no_threads length_replicate, of 0 "[5]" "[5]"]
      const_signable [OF valid_default_config l, of "[5]"] by (simp add: signable_def)
  then obtain sig' siglen ts' where run: "crypto_sign_signature default_config hb_const no_threads (replicate 3680 0) [5] const_sk ?t
      = (0, sig', siglen, ts')" by (metis prod.collapse)
  have "ts_stats ?t = bitcoin_pqc_sign_stats_begin default_config (Some zero_stats)" by (simp add: signing_tls_def)
  from signing_statistics [OF const256.sha256_backend_axioms l valid_default_config joins_all_no_threads
      length_replicate this run] run
  show ?thesis by blast
qed

text \<open>C5. Attached signatures round trip.  What \<open>crypto_sign\<close> writes on success is accepted by
  \<open>crypto_sign_open\<close> under the public half of the key, which returns the message and its length.\<close>

theorem attached_roundtrip:
  assumes "sha256_backend hb" "consistent_sk hb sk" "valid_config cfg" "joins_all rt"
    and "length sm = 3680 + length m" "length m \<le> length buf"
    and "crypto_sign cfg hb rt sm m sk ts = (0, sm', smlen, ts')"
  shows "smlen = 3680 + length m \<and>
    crypto_sign_open cfg hb buf sm' smlen (drop 32 sk) None = (0, put_bytes 0 m buf, length m, None)"
  by (rule sha256_backend.crypto_sign_open_roundtrip [OF assms])

theorem attached_roundtrip_witness:
  "\<exists>sm'. crypto_sign_open default_config hb_const (replicate 3682 9) sm' 3682 (drop 32 const_sk) None
    = (0, put_bytes 0 [4, 2] (replicate 3682 9), 2, None)"
proof -
  obtain s l t where run: "crypto_sign_signature default_config hb_const no_threads (replicate 3680 0) [4, 2]
      const_sk const_tls = (0, s, l, t)"
    using const_sign [OF length_replicate joins_all_no_threads valid_default_config length_const_sk] by metis
  let ?sm = "replicate 3682 (0 :: u8)"
  have t: "take 3680 ?sm = replicate 3680 0" by simp
  obtain sm' smlen where cs: "crypto_sign default_config hb_const no_threads ?sm [4, 2] const_sk const_tls = (0, sm', smlen, t)"
    using run by (simp add: crypto_sign_def t)
  from attached_roundtrip [OF const256.sha256_backend_axioms consistent_const_sk valid_default_config joins_all_no_threads
      _ _ cs, of "replicate 3682 9"]
  show ?thesis by (auto simp: numeral_2_eq_2)
qed

text \<open>C6. A failed \<open>crypto_sign\<close> reports length zero and leaves no byte of the abandoned signature in
  the caller's buffer; the rest of the buffer is untouched.\<close>

theorem attached_failure_wipes:
  assumes "sha256_backend hb" "length sk = 64" "valid_config cfg" "joins_all rt" "3680 \<le> length sm"
    and "crypto_sign cfg hb rt sm m sk ts = (res, sm', smlen, ts')" "res \<noteq> 0"
  shows "smlen = 0 \<and> sm' = put_bytes 0 (replicate 3680 0) sm"
  by (rule sha256_backend.crypto_sign_failure [OF assms])

theorem attached_failure_wipes_witness:
  "\<exists>ts'. crypto_sign default_config crypto_hashblocks_sha256_ref no_threads (replicate 3681 9) [4] (replicate 64 1) dead_tls =
    (-1, replicate 3680 0 @ [9], 0, ts')"
proof -
  obtain res sm' smlen ts' where run: "crypto_sign default_config crypto_hashblocks_sha256_ref no_threads (replicate 3681 9) [4]
      (replicate 64 1) dead_tls = (res, sm', smlen, ts')" by (metis prod_cases4)
  have "fst (crypto_sign_signature default_config crypto_hashblocks_sha256_ref no_threads sig m sk dead_tls) = -1" for sig m sk
    by (simp add: crypto_sign_signature_def dead_tls_def rng_start_def randombytes_fails_closed
        slh_dsa_random_source_clear_failure_def slh_dsa_random_source_failed_def mark_random_source_failed_def Let_def)
  then obtain a b c where "crypto_sign_signature default_config crypto_hashblocks_sha256_ref no_threads (replicate 3680 9) [4]
      (replicate 64 1) dead_tls = (-1, a, b, c)" by (metis prod.collapse)
  then have res: "res = -1" using run by (simp add: crypto_sign_def Let_def)
  have "put_bytes 0 (replicate 3680 0) (replicate 3681 9) = replicate 3680 0 @ [9 :: u8]" by (simp add: put_bytes_def)
  with attached_failure_wipes [OF ref256.sha256_backend_axioms length_replicate valid_default_config joins_all_no_threads
      _ run] run res
  show ?thesis by auto
qed

section \<open>The SLH-DSA layer\<close>

text \<open>C7. Contract of \<open>slh_dsa_sign_with_stats\<close>.  The code is determined by the key and the message: a key that does
  not store its own root is refused before anything is signed and without touching the thread state; otherwise
  the code says whether the bounded searches succeed.  Success gives a signature that verifies; every failure zeroes
  the whole signature buffer and reports length zero.  A run with a valid key leaves no statistics session and no random
  source behind.\<close>

theorem slh_dsa_sign_ok:
  assumes "sha256_backend hb" "length sk = 64" "length sig = 3680" "message_at m mlen msg" "valid_config cfg" "joins_all rt"
    and "slh_dsa_sign_with_stats cfg hb rt (Some sig) (Some l0) m mlen (Some sk) stats ts = (res, sig', len, stats', ts')"
  shows "res = (if \<not> consistent_sk hb sk then SLH_DSA_SIGN_ERROR_BAD_KEY
       else if signable cfg hb sk msg then 0 else BITCOINPQC_SIGN_LIMIT_EXCEEDED) \<and>
    (res = 0 \<longrightarrow> (\<exists>s. sig' = Some s \<and> length s = 3680 \<and> len = Some 3680 \<and>
       crypto_sign_verify cfg hb s 3680 msg (drop 32 sk) None = (0, None))) \<and>
    (res \<noteq> 0 \<longrightarrow> sig' = Some (replicate 3680 0) \<and> len = Some 0) \<and>
    (consistent_sk hb sk \<longrightarrow> ts_stats ts' = None \<and> g_random_data (ts_rng ts') = None) \<and>
    (\<not> consistent_sk hb sk \<longrightarrow> ts' = ts \<and> stats' = stats)"
  by (rule sha256_backend.slh_dsa_sign_contract [OF assms])

theorem slh_dsa_sign_ok_witness:
  "\<exists>s stats' ts'. slh_dsa_sign_with_stats default_config hb_const no_threads (Some (replicate 3680 0)) (Some 0) None 0
      (Some const_sk) None dead_tls = (0, Some s, Some 3680, stats', ts') \<and>
    crypto_sign_verify default_config hb_const s 3680 [] (drop 32 const_sk) None = (0, None)"
proof -
  note l = length_const_sk
  obtain res sig' len stats' ts' where run: "slh_dsa_sign_with_stats default_config hb_const no_threads
      (Some (replicate 3680 0)) (Some 0) None 0 (Some const_sk) None dead_tls = (res, sig', len, stats', ts')"
    by (metis prod_cases5)
  have "message_at None 0 []" by (simp add: message_at_def)
  from slh_dsa_sign_ok [OF const256.sha256_backend_axioms l length_replicate this valid_default_config joins_all_no_threads run]
    run consistent_const_sk const_signable [OF valid_default_config l]
  show ?thesis by auto
qed

text \<open>C8. \<open>slh_dsa_secret_key_validate\<close> accepts exactly the 64-byte keys whose last 16 bytes are the hypertree
  root that their seeds determine; it refuses every other size and the null pointer, and changes no state.\<close>

theorem validate_decides:
  assumes "sha256_backend hb" "\<And>k. sk = Some k \<Longrightarrow> length k = n"
  shows "slh_dsa_secret_key_validate cfg hb sk n ts =
    (case sk of Some k \<Rightarrow> if n = 64 \<and> consistent_sk hb k then 0 else -1 | None \<Rightarrow> -1, ts)"
proof (cases sk)
  case (Some k)
  then show ?thesis
    using assms(2) sha256_backend.validate_iff [OF assms(1), of k cfg ts]
    by (auto simp: slh_dsa_secret_key_validate_def slh_dsa_secret_key_validate_unburned_def)
qed (simp add: slh_dsa_secret_key_validate_def slh_dsa_secret_key_validate_unburned_def)

theorem validate_decides_witness:
  "slh_dsa_secret_key_validate default_config hb_const (Some const_sk) 64 dead_tls = (0, dead_tls) \<and>
   slh_dsa_secret_key_validate default_config hb_const (Some (replicate 64 1)) 64 dead_tls = (-1, dead_tls)"
proof -
  note l = length_const_sk
  have ok: "slh_dsa_secret_key_validate default_config hb_const (Some const_sk) 64 dead_tls = (0, dead_tls)"
    using validate_decides [OF const256.sha256_backend_axioms, of "Some const_sk" 64 default_config dead_tls] consistent_const_sk l
    by simp
  have "\<not> consistent_sk hb_const (replicate 64 1)"
    by (simp add: consistent_sk_def const_key_root const_digest_def list_eq_iff_nth_eq nth_append exI [of _ 0])
  then have "slh_dsa_secret_key_validate default_config hb_const (Some (replicate 64 1)) 64 dead_tls = (-1, dead_tls)"
    using validate_decides [OF const256.sha256_backend_axioms, of "Some (replicate 64 1)" 64 default_config dead_tls] by simp
  with ok show ?thesis by simp
qed

text \<open>C9. \<open>slh_dsa_keygen\<close> on every branch.  A null pointer, too little input and input too large for the size of the
  derivation buffer give -1, a failed allocation of that buffer its own code, and then nothing is written: not the buffers,
  not the heap, not the list of released blocks.  Otherwise the key is the one its 48-byte seed determines, the seed is the prefix of
  the SHA-512 digest of the domain string, a zero byte, the little-endian input size and the input, the public key is the
  second half of the secret key, and the secret key is consistent; the heap holds the blocks it held before, and
  exactly one block was released, the derivation buffer at an address that was free, zeroed over its whole size.\<close>

theorem keygen_derives_key:
  assumes "sha256_backend hb" "sha512_backend hb512" "good_malloc al"
    and "\<And>p. pk = Some p \<Longrightarrow> length p = 32" "\<And>s. sk = Some s \<Longrightarrow> length s = 64" "\<And>r. rd = Some r \<Longrightarrow> length r = n"
    and "slh_dsa_keygen cfg hb hb512 al pk sk rd n ts h = (res, pk', sk', ts', h')"
  shows "ts' = ts \<and> hp h' = hp h \<and>
    res = (if pk = None \<or> sk = None \<or> rd = None \<or> n < 128 \<or> n > SIZE_MAX - (length KEYGEN_DERIVE_DOMAIN + 9) then -1
       else if al h (length KEYGEN_DERIVE_DOMAIN + 9 + n) = None then SLH_DSA_KEYGEN_ERROR_OUT_OF_MEMORY
       else 0) \<and>
    (res \<noteq> 0 \<longrightarrow> pk' = pk \<and> sk' = sk \<and> h' = h) \<and>
    (res = 0 \<longrightarrow> (\<exists>K c. consistent_sk hb K \<and> pk' = Some (drop 32 K) \<and> sk' = Some K \<and>
       take 48 K = take 48 (sha512_md hb512 (KEYGEN_DERIVE_DOMAIN @ [0] @ store_u64_le (of_nat n) @ the rd)) \<and>
       c \<notin> dom (hp h) \<and> freed h' = (c, replicate (length KEYGEN_DERIVE_DOMAIN + 9 + n) 0) # freed h))"
proof (cases "pk = None \<or> sk = None \<or> rd = None \<or> n < 128")
  case True
  then show ?thesis using assms(7) by (auto simp: slh_dsa_keygen_def slh_dsa_keygen_impl_def split: if_splits)
next
  case False
  then obtain p s r where args: "pk = Some p" "sk = Some s" "rd = Some r" "\<not> n < 128" by auto
  note run = assms(7) [unfolded slh_dsa_keygen_def slh_dsa_keygen_impl_def args]
  consider (big) "n > SIZE_MAX - (length KEYGEN_DERIVE_DOMAIN + 9)"
    | (nomem) "n \<le> SIZE_MAX - (length KEYGEN_DERIVE_DOMAIN + 9)" "al h (length KEYGEN_DERIVE_DOMAIN + 9 + n) = None"
    | (mem) "n \<le> SIZE_MAX - (length KEYGEN_DERIVE_DOMAIN + 9)" "al h (length KEYGEN_DERIVE_DOMAIN + 9 + n) \<noteq> None"
    by linarith
  then show ?thesis
  proof cases
    case big
    then show ?thesis using run args derive_keygen_seed_v1_refused(1) [OF big, of hb512 al r h] by auto
  next
    case nomem
    then show ?thesis using run args derive_keygen_seed_v1_refused(2) [of n al h hb512 r] by auto
  next
    case mem
    let ?seed = "take 48 (sha512_md hb512 (KEYGEN_DERIVE_DOMAIN @ [0] @ store_u64_le (of_nat n) @ r))"
    have l: "length ?seed = 48" by (simp add: sha512_backend.length_sha512_md [OF assms(2)])
    obtain c h1 where d: "derive_keygen_seed_v1 hb512 al r n h = (Inr ?seed, h1)"
      "c \<notin> dom (hp h)" "hp h1 = hp h" "freed h1 = (c, replicate (length KEYGEN_DERIVE_DOMAIN + 9 + n) 0) # freed h"
      using derive_keygen_seed_v1_ok [OF assms(3) mem, of hb512 r] assms(6) [OF args(3)]
      by (auto simp: sha512_backend.sha512_eq_md [OF assms(2)])
    have "res = 0 \<and> pk' = Some (drop 32 (seed_sk hb ?seed)) \<and> sk' = Some (seed_sk hb ?seed) \<and> ts' = ts \<and> h' = h1"
      using run args(4) d(1)
        sha256_backend.crypto_sign_seed_keypair_ok [OF assms(1) assms(4) [OF args(1)] assms(5) [OF args(2)] l, of cfg ts]
      by simp
    moreover have "take 48 (seed_sk hb ?seed) = ?seed" using l by (simp add: seed_sk_def)
    ultimately show ?thesis
      using mem args d(2-4) sha256_backend.consistent_seed_sk [OF assms(1) l] by auto
  qed
qed

theorem keygen_derives_key_witness:
  "\<exists>K ts' h'. consistent_sk crypto_hashblocks_sha256_ref K \<and>
    slh_dsa_keygen default_config crypto_hashblocks_sha256_ref crypto_hashblocks_sha512_ref first_fit (Some (replicate 32 0))
      (Some (replicate 64 0)) (Some (replicate 128 3)) 128 dead_tls empty_heap = (0, Some (drop 32 K), Some K, ts', h') \<and>
    hp h' = Map.empty"
proof -
  obtain res pk' sk' ts' h' where run: "slh_dsa_keygen default_config crypto_hashblocks_sha256_ref crypto_hashblocks_sha512_ref
      first_fit (Some (replicate 32 0)) (Some (replicate 64 0)) (Some (replicate 128 3)) 128 dead_tls empty_heap
      = (res, pk', sk', ts', h')" by (metis prod_cases5)
  have "\<not> (128 :: nat) > SIZE_MAX - (length KEYGEN_DERIVE_DOMAIN + 9)"
    by (simp add: SIZE_MAX_def KEYGEN_DERIVE_DOMAIN_def)
  moreover have "first_fit empty_heap m \<noteq> None" for m by (simp add: first_fit_def empty_heap_def upt_conv_Cons)
  moreover note k = keygen_derives_key [OF ref256.sha256_backend_axioms ref512.sha512_backend_axioms good_first_fit _ _ _ run]
  ultimately have "res = 0" by simp
  with k run show ?thesis by (auto simp: empty_heap_def)
qed

section \<open>The public API\<close>

text \<open>C10. Contract of \<open>bitcoin_pqc_sign\<close> and \<open>bitcoin_pqc_sign_with_stats\<close> for a 64-byte key: the error is determined by the
  arguments, the allocator, the key and the message, in the order the code checks them; on error the output structure and
  the heap are as before; on success the output owns one new 3680-byte block that verifies, although the call
  verifies it itself and could have returned \<open>BAD_SIGNATURE\<close>; every block released on the way was zeroed first.\<close>

theorem api_sign:
  assumes "library env" "length sk = 64" "message_at m mlen msg"
    and "bitcoin_pqc_sign_with_stats env (Some sk) 64 m mlen (Some sg) stats ts h = (err, sg', stats', ts', h')"
  shows "wiped_since h h' \<and>
    err = (if \<not> signature_output_is_empty sg then BITCOIN_PQC_ERROR_BAD_ARG
      else if le_malloc env h 3680 = None then BITCOIN_PQC_ERROR_OUT_OF_MEMORY
      else if \<not> consistent_sk (le_hb env) sk then BITCOIN_PQC_ERROR_BAD_KEY
      else if \<not> signable (le_cfg env) (le_hb env) sk msg then BITCOIN_PQC_ERROR_SIGNING_LIMIT
      else BITCOIN_PQC_OK) \<and>
    (err \<noteq> BITCOIN_PQC_OK \<longrightarrow> sg' = Some sg \<and> hp h' = hp h) \<and>
    (err = BITCOIN_PQC_OK \<longrightarrow> (\<exists>a s. a \<notin> dom (hp h) \<and> sg' = Some (sg\<lparr>signature := Some a, signature_size := 3680\<rparr>) \<and>
        hp h' = (hp h)(a \<mapsto> s) \<and> length s = 3680 \<and> freed h' = freed h \<and>
        crypto_sign_verify (le_cfg env) (le_hb env) s 3680 msg (drop 32 sk) None = (0, None)))"
  using library.sign_contract [OF assms(1-3)] assms(4) unfolding bitcoin_pqc_sign_with_stats_def by blast

theorem api_sign_witness:
  "\<exists>sg' stats' ts' h'. bitcoin_pqc_sign_with_stats demo_env (Some const_sk) 64 (Some [1, 2]) 2 (Some empty_signature) None dead_tls
      empty_heap = (BITCOIN_PQC_OK, sg', stats', ts', h') \<and> wiped_since empty_heap h'"
proof -
  note l = length_const_sk
  obtain err sg' stats' ts' h' where run: "bitcoin_pqc_sign_with_stats demo_env (Some const_sk) 64 (Some [1, 2]) 2
      (Some empty_signature) None dead_tls empty_heap = (err, sg', stats', ts', h')" by (metis prod_cases5)
  have env: "le_hb demo_env = hb_const" "le_cfg demo_env = default_config" by (simp_all add: demo_env_def prod_env_def)
  have "message_at (Some [1, 2]) 2 [1, 2]" by (simp add: message_at_def)
  from api_sign [OF demo.library_axioms l this run] run first_fit_empty [of 3680] consistent_const_sk
    const_signable [OF valid_default_config l]
  show ?thesis by (auto simp: env signature_output_is_empty_def empty_signature_def)
qed

text \<open>C11. Contract of \<open>bitcoin_pqc_keygen\<close>, null pointers included: the error is determined by the arguments and the
  allocator, in the order the code checks them.  A refused argument leaves the heap as it is; on
  any error the caller's structure is as before and so are the blocks of the heap, whatever was allocated on the way, and every block
  released on the way was zeroed.  On success the structure owns two new distinct blocks
  with a consistent secret key and its public half, nothing else was left allocated, and one block was released: the
  derivation buffer of the seed, zeroed over its whole size.  The thread state never changes.\<close>

theorem api_keygen:
  assumes "library env" "bitcoin_pqc_keygen env kp rd n ts h = (err, kp', ts', h')"
  shows "ts' = ts \<and> wiped_since h h' \<and>
    err = (if kp = None \<or> rd = None \<or> \<not> keypair_output_is_empty (the kp) \<or> n < 128 then BITCOIN_PQC_ERROR_BAD_ARG
     else case malloc (le_malloc env) 32 h of (pk, h1) \<Rightarrow> (case malloc (le_malloc env) 64 h1 of (sk, h2) \<Rightarrow>
       if pk = None \<or> sk = None then BITCOIN_PQC_ERROR_OUT_OF_MEMORY
       else if n > SIZE_MAX - (length KEYGEN_DERIVE_DOMAIN + 9) then BITCOIN_PQC_ERROR_BAD_KEY
       else if le_malloc env h2 (length KEYGEN_DERIVE_DOMAIN + 9 + n) = None then BITCOIN_PQC_ERROR_OUT_OF_MEMORY
       else BITCOIN_PQC_OK)) \<and>
    (err = BITCOIN_PQC_ERROR_BAD_ARG \<longrightarrow> h' = h) \<and>
    (err \<noteq> BITCOIN_PQC_OK \<longrightarrow> kp' = kp \<and> hp h' = hp h) \<and>
    (err = BITCOIN_PQC_OK \<longrightarrow> (\<exists>kp0 a b c sk. kp = Some kp0 \<and> keypair_output_is_empty kp0 \<and> 128 \<le> n \<and>
        a \<noteq> b \<and> a \<notin> dom (hp h) \<and> b \<notin> dom (hp h) \<and> consistent_sk (le_hb env) sk \<and>
        kp' = Some (kp0\<lparr>public_key := Some a, secret_key := Some b, public_key_size := 32, secret_key_size := 64\<rparr>) \<and>
        hp h' = (hp h)(a \<mapsto> drop 32 sk, b \<mapsto> sk) \<and>
        c \<notin> dom (hp h') \<and> freed h' = (c, replicate (length KEYGEN_DERIVE_DOMAIN + 9 + n) 0) # freed h))"
  using library.keygen_contract [OF assms] unfolding keygen_error_spec_def .

theorem api_keygen_witness:
  "\<exists>kp' ts' h' c. bitcoin_pqc_keygen demo_env (Some empty_keypair) (Some (replicate 128 1)) 128 dead_tls empty_heap =
      (BITCOIN_PQC_OK, Some kp', ts', h') \<and> public_key_size kp' = 32 \<and> freed h' = [(c, replicate 193 0)]"
proof -
  obtain err kp' ts' h' where run: "bitcoin_pqc_keygen demo_env (Some empty_keypair) (Some (replicate 128 1)) 128 dead_tls
      empty_heap = (err, kp', ts', h')" by (metis prod_cases4)
  have "err = BITCOIN_PQC_OK" using demo_keygen [of dead_tls] run by simp
  moreover have "length KEYGEN_DERIVE_DOMAIN + 9 + 128 = 193" by (simp add: KEYGEN_DERIVE_DOMAIN_def)
  ultimately show ?thesis
    using api_keygen [OF demo.library_axioms run] run by (auto simp: empty_heap_def)
qed

text \<open>C12. Keys and signatures of the API work together: a signature that \<open>bitcoin_pqc_sign\<close> makes with the secret key
  that \<open>bitcoin_pqc_keygen\<close> left in the heap is accepted by \<open>bitcoin_pqc_verify\<close> under the public key it
  left there, for the same message, outside of a statistics session.\<close>

theorem api_sign_then_verify:
  assumes "library env"
    and "bitcoin_pqc_keygen env (Some kp) (Some rd) n ts h = (BITCOIN_PQC_OK, Some kp1, ts1, h1)"
    and "hp h1 (the (public_key kp1)) = Some pk" "hp h1 (the (secret_key kp1)) = Some sk"
    and "bitcoin_pqc_sign env (Some sk) (secret_key_size kp1) (Some msg) (length msg) (Some sg) ts2 h1
      = (BITCOIN_PQC_OK, Some sg1, stats, ts3, h2)"
    and "hp h2 (the (signature sg1)) = Some s"
  shows "bitcoin_pqc_verify env (Some pk) (public_key_size kp1) (Some msg) (length msg) (Some s) (signature_size sg1)
    \<lparr>ts_rng = r, ts_stats = None\<rparr> = (BITCOIN_PQC_OK, \<lparr>ts_rng = r, ts_stats = None\<rparr>)"
proof -
  obtain a b k where k: "a \<noteq> b" "consistent_sk (le_hb env) k"
    "kp1 = kp\<lparr>public_key := Some a, secret_key := Some b, public_key_size := 32, secret_key_size := 64\<rparr>"
    "hp h1 = (hp h)(a \<mapsto> drop 32 k, b \<mapsto> k)"
    using library.keygen_contract [OF assms(1,2)] by auto
  have sk: "sk = k" "pk = drop 32 sk" "length sk = 64" using assms(3,4) k by (auto simp: consistent_sk_def)
  have "message_at (Some msg) (length msg) msg" by (simp add: message_at_def)
  from library.sign_contract [OF assms(1) sk(3) this, of sg None ts2 h1] assms(5) k(3)
  obtain c s' where "sg1 = sg\<lparr>signature := Some c, signature_size := 3680\<rparr>" "hp h2 = (hp h1)(c \<mapsto> s')"
    "crypto_sign_verify (le_cfg env) (le_hb env) s' 3680 msg (drop 32 sk) None = (0, None)"
    by (auto simp: bitcoin_pqc_sign_def)
  then show ?thesis
    using assms(6) sk(2) k(3) by (simp add: bitcoin_pqc_verify_def slh_dsa_verify_def)
qed

theorem api_sign_then_verify_witness:
  "\<exists>pk s. bitcoin_pqc_verify demo_env (Some pk) 32 (Some [1, 2]) 2 (Some s) 3680 dead_tls = (BITCOIN_PQC_OK, dead_tls)"
proof -
  obtain err kp' ts1 h1 where kg: "bitcoin_pqc_keygen demo_env (Some empty_keypair) (Some (replicate 128 1)) 128 dead_tls empty_heap
      = (err, kp', ts1, h1)" by (metis prod_cases4)
  note env = demo_env_def prod_env_def
  have al: "le_malloc demo_env = first_fit" by (simp add: env)
  have "err = BITCOIN_PQC_OK" using demo_keygen [of dead_tls] kg by simp
  with demo.keygen_contract [OF kg] kg obtain a b sk where k: "a \<noteq> b" "consistent_sk hb_const sk"
    "kp' = Some (empty_keypair\<lparr>public_key := Some a, secret_key := Some b, public_key_size := 32, secret_key_size := 64\<rparr>)"
    "hp h1 = [a \<mapsto> drop 32 sk, b \<mapsto> sk]" "err = BITCOIN_PQC_OK"
    by (auto simp: env empty_heap_def)
  have l: "length sk = 64" using k(2) by (simp add: consistent_sk_def)
  obtain err2 sg' st ts3 h2 where sn: "bitcoin_pqc_sign demo_env (Some sk) 64 (Some [1, 2]) (length [1, 2 :: u8])
      (Some empty_signature) ts1 h1 = (err2, sg', st, ts3, h2)" by (metis prod_cases5)
  have m: "message_at (Some [1, 2]) 2 [1, 2]" by (simp add: message_at_def)
  have fit: "le_malloc demo_env h1 3680 \<noteq> None"
  proof -
    have "\<not> {1..<9} \<subseteq> {a, b}" using card_mono [of "{a, b}" "{1..<9}"] k(1) by auto
    then obtain x where "x \<in> {1..<9}" "x \<noteq> a" "x \<noteq> b" by blast
    then show ?thesis using k(4) by (auto simp: al first_fit_def find_None_iff)
  qed
  have "signable default_config hb_const sk [1, 2]" by (rule const_signable [OF valid_default_config l])
  with demo.sign_contract [OF l m, of empty_signature None ts1 h1] sn k(2) fit obtain c s where
    s: "err2 = BITCOIN_PQC_OK" "sg' = Some (empty_signature\<lparr>signature := Some c, signature_size := 3680\<rparr>)" "hp h2 = (hp h1)(c \<mapsto> s)"
    by (auto simp: bitcoin_pqc_sign_def env signature_output_is_empty_def empty_signature_def numeral_2_eq_2)
  note kg' = kg [unfolded k(3,5)] and sn' = sn [unfolded s(1,2)]
  have "bitcoin_pqc_verify demo_env (Some (drop 32 sk)) 32 (Some [1, 2]) (length [1, 2 :: u8]) (Some s) 3680
      \<lparr>ts_rng = rng_start, ts_stats = None\<rparr> = (BITCOIN_PQC_OK, \<lparr>ts_rng = rng_start, ts_stats = None\<rparr>)"
    using api_sign_then_verify [OF demo.library_axioms kg', where r = rng_start and s = s and msg = "[1, 2]" and
        pk = "drop 32 sk" and sk = sk and sg = empty_signature and ?ts2.0 = ts1] sn' k(1,4) s(3) by simp
  then show ?thesis by (auto simp: dead_tls_def numeral_2_eq_2)
qed

text \<open>C13. The life of a key pair.  Freeing what \<open>bitcoin_pqc_keygen\<close> returned gives the heap of before the key generation: both blocks are
  zeroed and released, the structure is empty again and may be used for another key, and a second free does nothing.\<close>

theorem api_keypair_life:
  assumes "library env"
    and "bitcoin_pqc_keygen env (Some kp) (Some rd) n ts h = (BITCOIN_PQC_OK, Some kp1, ts1, h1)"
    and "bitcoin_pqc_keypair_free (Some kp1) h1 = (kp2, h2)"
  shows "\<exists>k. kp2 = Some k \<and> keypair_output_is_empty k \<and> hp h2 = hp h \<and> wiped_since h h2 \<and>
    bitcoin_pqc_keypair_free kp2 h2 = (kp2, h2)"
proof -
  obtain a b k where k: "a \<noteq> b" "a \<notin> dom (hp h)" "b \<notin> dom (hp h)" "length k = 64"
    "kp1 = kp\<lparr>public_key := Some a, secret_key := Some b, public_key_size := 32, secret_key_size := 64\<rparr>"
    "hp h1 = (hp h)(a \<mapsto> drop 32 k, b \<mapsto> k)" "wiped_since h h1"
    using library.keygen_contract [OF assms(1,2)] by (auto simp: consistent_sk_def)
  have "(hp h)(a := None, b := None) = hp h" using k(2,3) by (auto simp: domIff)
  then have "hp h2 = hp h \<and> wiped_since h1 h2 \<and> (\<exists>k. kp2 = Some k \<and> keypair_output_is_empty k)"
    using keypair_free_contract [of kp1 a b h1 "drop 32 k" k] assms(3) k(1,4-6) by (auto simp: fun_upd_twist)
  then show ?thesis
    using keypair_free_idem [OF assms(3)] wiped_since_trans [OF k(7)] by blast
qed

theorem api_keypair_life_witness:
  "\<exists>kp1 h1 k h2. bitcoin_pqc_keypair_free (Some kp1) h1 = (Some k, h2) \<and> public_key_size kp1 = 32 \<and> keypair_output_is_empty k \<and>
    hp h2 = Map.empty"
proof -
  obtain err kp' ts1 h1 where kg: "bitcoin_pqc_keygen demo_env (Some empty_keypair) (Some (replicate 128 1)) 128 dead_tls empty_heap
      = (err, kp', ts1, h1)" by (metis prod_cases4)
  have "err = BITCOIN_PQC_OK" using demo_keygen [of dead_tls] kg by simp
  moreover from this obtain kp1 where kp1: "kp' = Some kp1" "public_key_size kp1 = 32"
    using demo.keygen_contract [OF kg] by clarsimp
  moreover obtain kp2 h2 where fr: "bitcoin_pqc_keypair_free (Some kp1) h1 = (kp2, h2)" by fastforce
  ultimately show ?thesis
    using api_keypair_life [OF demo.library_axioms _ fr] kg by (fastforce simp: empty_heap_def)
qed

end
